(* ===== verification/Prelude.thy ===== *)
theory Prelude
  imports Main "HOL-Library.Word" "HOL-Library.AList" "HOL-Library.Code_Target_Nat"
begin

text \<open>
  Shared vocabulary of the development.

  \<^item> Bytes are \<open>8 word\<close>, byte buffers are lists of them. Offsets, lengths and counters of
    type \<open>u64\<close>/\<open>usize\<close> are natural numbers with the 64-bit behaviour of each Rust operator
    written out: \<open>checked_add\<close>, \<open>checked_mul\<close>, \<open>sat_add\<close>, \<open>sat_mul\<close> and the wrapping
    \<open>wrap_add\<close>, \<open>wrap_mul\<close> of a plain operator in a release build. \<open>saturating_sub\<close> is the
    truncating subtraction of natural numbers.
  \<^item> A fallible operation on a state is a function \<open>'s \<Rightarrow> 'a result \<times> 's\<close>: \<open>Ok\<close>, \<open>Err\<close>
    with the error of \<open>src/store/mod.rs\<close>, or \<open>Panic\<close> where Rust panics (a slice out of range,
    a division by zero). \<open>bind_op\<close> is the \<open>?\<close> operator.
  \<^item> A disk is a function from byte offsets to bytes; \<open>disk_read\<close> reads a range of it, \<open>disk_write\<close>
    overwrites one, \<open>torn\<close> says that only bytes of the range may have changed, each to its
    new value. \<open>patch\<close> is \<open>copy_from_slice\<close> into a part of a buffer.
  \<^item> \<open>read_loop\<close> and \<open>write_loop\<close> are the \<open>while done < buf.len()\<close> loops that cut a byte
    range into chunk pieces; every \<open>BlockStore\<close> of the program has the same two loops.
\<close>

named_theorems store_simps
named_theorems geom_simps

section \<open>Machine integers\<close>

type_synonym byte = "8 word"
type_synonym bytes = "byte list"

definition checked_add :: "nat \<Rightarrow> nat \<Rightarrow> nat option" where
  "checked_add a b = (if a + b < 2 ^ 64 then Some (a + b) else None)"

definition checked_mul :: "nat \<Rightarrow> nat \<Rightarrow> nat option" where
  "checked_mul a b = (if a * b < 2 ^ 64 then Some (a * b) else None)"

definition sat_add :: "nat \<Rightarrow> nat \<Rightarrow> nat" where
  "sat_add a b = min (a + b) (2 ^ 64 - 1)"

definition sat_mul :: "nat \<Rightarrow> nat \<Rightarrow> nat" where
  "sat_mul a b = min (a * b) (2 ^ 64 - 1)"

definition wrap_add :: "nat \<Rightarrow> nat \<Rightarrow> nat" where
  "wrap_add a b = (a + b) mod 2 ^ 64"

definition wrap_mul :: "nat \<Rightarrow> nat \<Rightarrow> nat" where
  "wrap_mul a b = (a * b) mod 2 ^ 64"

lemma wrap_add_small [simp]: "a + b < 2 ^ 64 \<Longrightarrow> wrap_add a b = a + b"
  by (simp add: wrap_add_def)

lemma wrap_mul_small [simp]: "a * b < 2 ^ 64 \<Longrightarrow> wrap_mul a b = a * b"
  by (simp add: wrap_mul_def)

lemma sat_add_small [simp]: "a + b < 2 ^ 64 \<Longrightarrow> sat_add a b = a + b"
  by (simp add: sat_add_def)

lemma sat_mul_small [simp]: "a * b < 2 ^ 64 \<Longrightarrow> sat_mul a b = a * b"
  by (simp add: sat_mul_def)

lemma sat_mul_cases: "sat_mul a b = a * b \<or> sat_mul a b = 2 ^ 64 - 1"
  by (simp add: sat_mul_def min_def)

lemma sat_mul_less:
  "sat_mul a b < c \<Longrightarrow> c < 2 ^ 64 \<Longrightarrow> sat_mul a b = a * b"
  by (auto simp: sat_mul_def min_def split: if_splits)

section \<open>Results and stateful operations\<close>

datatype store_error =
    OutOfRange nat nat nat
  | ShrinkRefused nat nat
  | GeometryMismatch string
  | S3 string
  | Meta string
  | Other string

datatype 'a result = Ok 'a | Err store_error | Panic

type_synonym ('s, 'a) op = "'s \<Rightarrow> 'a result \<times> 's"

definition ret_op :: "'a \<Rightarrow> ('s, 'a) op" where
  "ret_op a s = (Ok a, s)"

definition err_op :: "store_error \<Rightarrow> ('s, 'a) op" where
  "err_op e s = (Err e, s)"

definition panic_op :: "('s, 'a) op" where
  "panic_op s = (Panic, s)"

definition bind_op :: "('s, 'a) op \<Rightarrow> ('a \<Rightarrow> ('s, 'b) op) \<Rightarrow> ('s, 'b) op" where
  "bind_op m f s =
     (case m s of (Ok a, s') \<Rightarrow> f a s' | (Err e, s') \<Rightarrow> (Err e, s') | (Panic, s') \<Rightarrow> (Panic, s'))"

fun is_ok :: "'a result \<Rightarrow> bool" where
  "is_ok (Ok a) = True"
| "is_ok (Err e) = False"
| "is_ok Panic = False"

lemma is_ok_iff: "is_ok r \<longleftrightarrow> (\<exists>a. r = Ok a)"
  by (cases r) auto

lemma bind_op_Ok:
  "bind_op m f s = (Ok b, t) \<longleftrightarrow> (\<exists>a s'. m s = (Ok a, s') \<and> f a s' = (Ok b, t))"
  by (auto simp: bind_op_def split: prod.splits result.splits)

lemma bind_op_Err:
  "bind_op m f s = (Err e, t) \<longleftrightarrow>
     m s = (Err e, t) \<or> (\<exists>a s'. m s = (Ok a, s') \<and> f a s' = (Err e, t))"
  by (auto simp: bind_op_def split: prod.splits result.splits)

lemma bind_op_Panic:
  "bind_op m f s = (Panic, t) \<longleftrightarrow>
     m s = (Panic, t) \<or> (\<exists>a s'. m s = (Ok a, s') \<and> f a s' = (Panic, t))"
  by (auto simp: bind_op_def split: prod.splits result.splits)

lemma bind_op_eval:
  "m s = (Ok a, s') \<Longrightarrow> bind_op m f s = f a s'"
  "m s = (Err e, s') \<Longrightarrow> bind_op m f s = (Err e, s')"
  "m s = (Panic, s') \<Longrightarrow> bind_op m f s = (Panic, s')"
  by (simp_all add: bind_op_def)

text \<open>
  The total contract of an operation: from \<open>P\<close> it never panics, \<open>Q\<close> holds of an \<open>Ok\<close> result
  and \<open>E\<close> of the state an error leaves behind.
\<close>

definition post :: "('a \<Rightarrow> 's \<Rightarrow> bool) \<Rightarrow> ('s \<Rightarrow> bool) \<Rightarrow> 'a result \<times> 's \<Rightarrow> bool" where
  "post Q E x = (case x of (Ok a, s) \<Rightarrow> Q a s | (Err e, s) \<Rightarrow> E s | (Panic, s) \<Rightarrow> False)"

definition hoare :: "('s \<Rightarrow> bool) \<Rightarrow> ('s, 'a) op \<Rightarrow> ('a \<Rightarrow> 's \<Rightarrow> bool) \<Rightarrow> ('s \<Rightarrow> bool) \<Rightarrow> bool" where
  "hoare P m Q E \<longleftrightarrow> (\<forall>s. P s \<longrightarrow> post Q E (m s))"

lemma post_simps [simp]:
  "post Q E (Ok a, s) = Q a s" "post Q E (Err e, s) = E s" "post Q E (Panic, s) = False"
  by (simp_all add: post_def)

lemma post_mono:
  assumes "post Q E x" and "\<And>a s. Q a s \<Longrightarrow> Q' a s" and "\<And>s. E s \<Longrightarrow> E' s"
  shows "post Q' E' x"
  using assms by (auto simp: post_def split: prod.splits result.splits)

lemma post_cases:
  "post Q E (r, s) \<longleftrightarrow> r \<noteq> Panic \<and> (\<forall>a. r = Ok a \<longrightarrow> Q a s) \<and> (\<forall>e. r = Err e \<longrightarrow> E s)"
  by (cases r) auto

lemma hoareI:
  assumes "\<And>s a s'. P s \<Longrightarrow> m s = (Ok a, s') \<Longrightarrow> Q a s'"
    and "\<And>s e s'. P s \<Longrightarrow> m s = (Err e, s') \<Longrightarrow> E s'"
    and "\<And>s s'. P s \<Longrightarrow> m s = (Panic, s') \<Longrightarrow> False"
  shows "hoare P m Q E"
  unfolding hoare_def
proof (intro allI impI)
  fix s assume "P s"
  with assms show "post Q E (m s)"
    by (cases "m s"; cases "fst (m s)") auto
qed

lemma hoareD:
  assumes "hoare P m Q E" and "P s" and "m s = (r, s')"
  shows "r \<noteq> Panic" and "r = Ok a \<Longrightarrow> Q a s'" and "r = Err e \<Longrightarrow> E s'"
  using assms by (auto simp: hoare_def post_cases)

lemma hoare_post: "hoare P m Q E \<Longrightarrow> P s \<Longrightarrow> post Q E (m s)"
  by (simp add: hoare_def)

lemma hoare_ret: "(\<And>s. P s \<Longrightarrow> Q a s) \<Longrightarrow> hoare P (ret_op a) Q E"
  by (simp add: hoare_def ret_op_def)

lemma hoare_err: "(\<And>s. P s \<Longrightarrow> E s) \<Longrightarrow> hoare P (err_op e) Q E"
  by (simp add: hoare_def err_op_def)

lemma post_bind:
  assumes "post R E (m s)" and "\<And>a s'. R a s' \<Longrightarrow> post Q E (f a s')"
  shows "post Q E (bind_op m f s)"
  using assms by (cases "m s"; cases "fst (m s)") (auto simp: bind_op_def)

lemma hoare_bind:
  assumes "hoare P m R E" and "\<And>a. hoare (R a) (f a) Q E"
  shows "hoare P (bind_op m f) Q E"
  unfolding hoare_def
proof (intro allI impI)
  fix s assume "P s"
  then have "post R E (m s)"
    using assms(1) by (simp add: hoare_def)
  then show "post Q E (bind_op m f s)"
    by (rule post_bind) (use assms(2) in \<open>simp add: hoare_def\<close>)
qed

lemma hoare_conseq:
  assumes "hoare P' m Q' E'" and "\<And>s. P s \<Longrightarrow> P' s"
    and "\<And>a s. Q' a s \<Longrightarrow> Q a s" and "\<And>s. E' s \<Longrightarrow> E s"
  shows "hoare P m Q E"
  unfolding hoare_def
proof (intro allI impI)
  fix s assume "P s"
  then have "post Q' E' (m s)"
    using assms(1,2) by (simp add: hoare_def)
  then show "post Q E (m s)"
    by (rule post_mono) (use assms(3,4) in auto)
qed

lemma hoare_pre: "hoare P' m Q E \<Longrightarrow> (\<And>s. P s \<Longrightarrow> P' s) \<Longrightarrow> hoare P m Q E"
  by (erule hoare_conseq) auto

lemma hoare_and:
  "hoare P m Q E \<Longrightarrow> hoare P m Q' E' \<Longrightarrow> hoare P m (\<lambda>a s. Q a s \<and> Q' a s) (\<lambda>s. E s \<and> E' s)"
  by (fastforce simp: hoare_def post_def split: prod.splits result.splits)

lemma hoare_false: "(\<And>s. \<not> P s) \<Longrightarrow> hoare P m Q E"
  by (simp add: hoare_def)

lemma hoare_if:
  assumes "b \<Longrightarrow> hoare P m Q E" and "\<not> b \<Longrightarrow> hoare P m' Q E"
  shows "hoare P (if b then m else m') Q E"
  using assms by simp

section \<open>Byte ranges\<close>

definition disk_read :: "(nat \<Rightarrow> byte) \<Rightarrow> nat \<Rightarrow> nat \<Rightarrow> bytes" where
  "disk_read d off n = map d [off..<off + n]"

definition disk_write :: "(nat \<Rightarrow> byte) \<Rightarrow> nat \<Rightarrow> bytes \<Rightarrow> nat \<Rightarrow> byte" where
  "disk_write d off bs = (\<lambda>i. if off \<le> i \<and> i < off + length bs then bs ! (i - off) else d i)"

definition torn :: "(nat \<Rightarrow> byte) \<Rightarrow> (nat \<Rightarrow> byte) \<Rightarrow> nat \<Rightarrow> bytes \<Rightarrow> bool" where
  "torn d d' off bs \<longleftrightarrow> (\<forall>i. d' i = d i \<or> (off \<le> i \<and> i < off + length bs \<and> d' i = bs ! (i - off)))"

definition patch :: "bytes \<Rightarrow> nat \<Rightarrow> bytes \<Rightarrow> bytes" where
  "patch buf w bs = take w buf @ bs @ drop (w + length bs) buf"

definition sub_slice :: "bytes \<Rightarrow> nat \<Rightarrow> nat \<Rightarrow> bytes option" where
  "sub_slice c w n = (if w + n \<le> length c then Some (take n (drop w c)) else None)"

lemma length_disk_read [simp]: "length (disk_read d off n) = n"
  by (simp add: disk_read_def)

lemma disk_read_nth [simp]: "i < n \<Longrightarrow> disk_read d off n ! i = d (off + i)"
  by (simp add: disk_read_def)

lemma disk_read_0 [simp]: "disk_read d off 0 = []"
  by (simp add: disk_read_def)

lemma disk_read_append: "disk_read d off (m + n) = disk_read d off m @ disk_read d (off + m) n"
  by (rule nth_equalityI) (auto simp: nth_append)

lemma take_drop_disk_read:
  "w + t \<le> n \<Longrightarrow> take t (drop w (disk_read d off n)) = disk_read d (off + w) t"
  by (rule nth_equalityI) (auto simp: add.assoc)

lemma disk_read_cong: "(\<And>i. off \<le> i \<Longrightarrow> i < off + n \<Longrightarrow> d i = d' i) \<Longrightarrow> disk_read d off n = disk_read d' off n"
  by (simp add: disk_read_def)

lemma disk_read_eqI:
  "length bs = n \<Longrightarrow> (\<And>i. i < n \<Longrightarrow> bs ! i = d (off + i)) \<Longrightarrow> bs = disk_read d off n"
  by (rule nth_equalityI) auto

lemma disk_read_eqD: "disk_read d off n = disk_read d' off n \<Longrightarrow> off \<le> i \<Longrightarrow> i < off + n \<Longrightarrow> d i = d' i"
  by (metis add_diff_inverse_nat add_less_cancel_left not_less disk_read_nth)

lemma disk_write_Nil [simp]: "disk_write d off [] = d"
  by (auto simp: disk_write_def fun_eq_iff)

lemma disk_write_append:
  "disk_write d off (xs @ ys) = disk_write (disk_write d off xs) (off + length xs) ys"
  by (rule ext) (auto simp: disk_write_def nth_append)

lemma disk_read_disk_write_same: "disk_read (disk_write d off bs) off (length bs) = bs"
  by (rule nth_equalityI) (auto simp: disk_write_def)

lemma disk_read_disk_write_disjoint:
  "off + n \<le> off' \<or> off' + length bs \<le> off \<Longrightarrow> disk_read (disk_write d off' bs) off n = disk_read d off n"
  by (rule disk_read_cong) (auto simp: disk_write_def)

lemma disk_write_outside: "i < off \<or> off + length bs \<le> i \<Longrightarrow> disk_write d off bs i = d i"
  by (auto simp: disk_write_def)

lemma disk_write_inside: "off \<le> i \<Longrightarrow> i < off + length bs \<Longrightarrow> disk_write d off bs i = bs ! (i - off)"
  by (simp add: disk_write_def)

lemma disk_write_disk_read_self: "disk_write d off (disk_read d off n) = d"
  by (rule ext) (auto simp: disk_write_def)

lemma length_patch [simp]: "w + length bs \<le> length buf \<Longrightarrow> length (patch buf w bs) = length buf"
  by (simp add: patch_def)

lemma patch_nth:
  "w + length bs \<le> length buf \<Longrightarrow> i < length buf \<Longrightarrow>
     patch buf w bs ! i = (if w \<le> i \<and> i < w + length bs then bs ! (i - w) else buf ! i)"
  by (auto simp: patch_def nth_append)

lemma patch_disk_read:
  assumes "w + length bs \<le> n"
  shows "patch (disk_read d off n) w bs = disk_read (disk_write d (off + w) bs) off n"
  by (rule nth_equalityI) (use assms in \<open>auto simp: patch_nth disk_write_def\<close>)

lemma sub_slice_disk_read [simp]: "w + t \<le> n \<Longrightarrow> sub_slice (disk_read d off n) w t = Some (disk_read d (off + w) t)"
  by (simp add: sub_slice_def take_drop_disk_read)

lemma sub_slice_Some: "sub_slice c w n = Some x \<longleftrightarrow> w + n \<le> length c \<and> x = take n (drop w c)"
  by (auto simp: sub_slice_def)

lemma torn_refl [simp]: "torn d d off bs"
  by (simp add: torn_def)

lemma torn_disk_write: "torn d (disk_write d off bs) off bs"
  by (simp add: torn_def disk_write_def)

lemma torn_outside: "torn d d' off bs \<Longrightarrow> i < off \<or> off + length bs \<le> i \<Longrightarrow> d' i = d i"
  unfolding torn_def by (metis not_less)

lemma torn_prefix:
  assumes "torn d d' off xs"
  shows "torn d d' off (xs @ ys)"
  unfolding torn_def
proof
  fix i
  from assms have "d' i = d i \<or> (off \<le> i \<and> i < off + length xs \<and> d' i = xs ! (i - off))"
    by (simp add: torn_def)
  then show "d' i = d i \<or> (off \<le> i \<and> i < off + length (xs @ ys) \<and> d' i = (xs @ ys) ! (i - off))"
    by (auto simp: nth_append)
qed

lemma torn_disk_write_prefix:
  assumes "torn (disk_write d off xs) d' (off + length xs) ys"
  shows "torn d d' off (xs @ ys)"
  unfolding torn_def
proof
  fix i
  from assms have
    "d' i = disk_write d off xs i \<or>
       (off + length xs \<le> i \<and> i < off + length xs + length ys \<and> d' i = ys ! (i - (off + length xs)))"
    by (simp add: torn_def)
  then show "d' i = d i \<or> (off \<le> i \<and> i < off + length (xs @ ys) \<and> d' i = (xs @ ys) ! (i - off))"
    by (auto simp: disk_write_def nth_append split: if_splits)
qed

section \<open>Chunk tables\<close>

text \<open>The disk a table of equally sized chunks stands for: a missing chunk reads as zeros.\<close>

definition chunk_disk :: "nat \<Rightarrow> (nat \<rightharpoonup> bytes) \<Rightarrow> nat \<Rightarrow> byte" where
  "chunk_disk cs m i = (case m (i div cs) of None \<Rightarrow> 0 | Some c \<Rightarrow> c ! (i mod cs))"

definition zeros :: "nat \<Rightarrow> bytes" where
  "zeros n = replicate n 0"

definition chunk_zero :: "nat \<Rightarrow> (nat \<Rightarrow> byte) \<Rightarrow> nat \<Rightarrow> bool" where
  "chunk_zero cs d idx \<longleftrightarrow> (\<forall>i. i div cs = idx \<longrightarrow> d i = 0)"

definition clear_chunk :: "nat \<Rightarrow> (nat \<Rightarrow> byte) \<Rightarrow> nat \<Rightarrow> nat \<Rightarrow> byte" where
  "clear_chunk cs d idx = (\<lambda>i. if i div cs = idx then 0 else d i)"

lemma length_zeros [simp]: "length (zeros n) = n"
  by (simp add: zeros_def)

lemma zeros_nth [simp]: "i < n \<Longrightarrow> zeros n ! i = 0"
  by (simp add: zeros_def)

lemma chunk_pos: "w < cs \<Longrightarrow> (idx * cs + w) div cs = idx \<and> (idx * cs + w) mod cs = (w :: nat)"
  by simp

lemma chunk_of_range: "idx * cs \<le> i \<Longrightarrow> i < idx * cs + cs \<Longrightarrow> i div cs = (idx :: nat)"
  by (rule div_nat_eqI) (simp_all add: mult.commute)

lemma chunk_range: "0 < cs \<Longrightarrow> i div cs = idx \<Longrightarrow> idx * cs \<le> i \<and> i < idx * cs + (cs :: nat)"
  using div_mult_mod_eq [of i cs] mod_less_divisor [of cs i] by (metis add_less_cancel_left le_add1)

lemma chunk_disk_chunk:
  assumes "m idx = Some c" and "length c = cs"
  shows "disk_read (chunk_disk cs m) (idx * cs) cs = c"
  by (rule nth_equalityI) (use assms in \<open>auto simp: chunk_disk_def\<close>)

lemma chunk_disk_missing:
  assumes "m idx = None"
  shows "disk_read (chunk_disk cs m) (idx * cs) cs = zeros cs"
  by (rule nth_equalityI) (use assms in \<open>auto simp: chunk_disk_def\<close>)

lemma chunk_disk_update:
  assumes "0 < cs" and "w + length bs \<le> cs" and "length c = cs"
    and "c = (case m idx of None \<Rightarrow> zeros cs | Some c' \<Rightarrow> c')"
  shows "chunk_disk cs (m(idx \<mapsto> patch c w bs)) = disk_write (chunk_disk cs m) (idx * cs + w) bs"
proof
  fix i
  show "chunk_disk cs (m(idx \<mapsto> patch c w bs)) i = disk_write (chunk_disk cs m) (idx * cs + w) bs i"
  proof (cases "i div cs = idx")
    case True
    define k where "k = i mod cs"
    have k: "k < cs" and i: "i = idx * cs + k"
      using assms(1) True by (auto simp: k_def)
    have "c ! k = (case m idx of None \<Rightarrow> 0 | Some c' \<Rightarrow> c' ! k)"
      using assms(4) k by (simp split: option.splits)
    moreover have "disk_write (chunk_disk cs m) (idx * cs + w) bs i =
      (if w \<le> k \<and> k < w + length bs then bs ! (k - w) else chunk_disk cs m i)"
      by (auto simp: disk_write_def i)
    moreover have "chunk_disk cs m' i = (case m' idx of None \<Rightarrow> 0 | Some c' \<Rightarrow> c' ! k)" for m'
      unfolding chunk_disk_def True k_def by simp
    ultimately show ?thesis
      using k assms(2,3) by (simp add: patch_nth)
  next
    case False
    then have "\<not> (idx * cs + w \<le> i \<and> i < idx * cs + w + length bs)"
      using chunk_of_range [of idx cs i] assms(2) by auto
    with False show ?thesis
      by (auto simp: chunk_disk_def disk_write_def)
  qed
qed

lemma chunk_disk_delete: "chunk_disk cs (m(idx := None)) = clear_chunk cs (chunk_disk cs m) idx"
  by (auto simp: chunk_disk_def clear_chunk_def fun_eq_iff)

lemma chunk_disk_zero: "m idx = None \<Longrightarrow> chunk_zero cs (chunk_disk cs m) idx"
  by (auto simp: chunk_disk_def chunk_zero_def)

text \<open>A hash map of equally sized chunks, as an association list.\<close>

definition table_ok :: "nat \<Rightarrow> (nat \<times> bytes) list \<Rightarrow> bool" where
  "table_ok cs al \<longleftrightarrow> distinct (map fst al) \<and> (\<forall>i c. map_of al i = Some c \<longrightarrow> length c = cs)"

lemma table_ok_Nil [simp]: "table_ok cs []"
  by (simp add: table_ok_def)

lemma table_ok_length: "table_ok cs al \<Longrightarrow> map_of al i = Some c \<Longrightarrow> length c = cs"
  by (simp add: table_ok_def)

lemma table_ok_update: "table_ok cs al \<Longrightarrow> length c = cs \<Longrightarrow> table_ok cs (AList.update i c al)"
  by (simp add: table_ok_def distinct_update update_conv')

lemma table_ok_delete: "table_ok cs al \<Longrightarrow> table_ok cs (AList.delete i al)"
  by (simp add: table_ok_def distinct_delete delete_conv')

section \<open>The chunk loops\<close>

text \<open>
  \<open>while done < buf.len()\<close>: the piece at \<open>abs = offset + done\<close> lies in chunk \<open>abs / chunk_size\<close>
  from \<open>abs % chunk_size\<close> on and ends at the chunk's end or the buffer's. \<open>fetch idx within abs
  take\<close> delivers the bytes copied into \<open>buf[done..done + take]\<close>; \<open>store idx within abs piece\<close>
  takes them from \<open>data[done..done + take]\<close>. A zero chunk size divides by zero.
\<close>

lemma piece_progress:
  "done < n \<Longrightarrow> 0 < cs \<Longrightarrow> n - (done + min (cs - a mod cs) (n - done)) < n - (done :: nat)"
  using mod_less_divisor [of cs a] by linarith

function read_loop ::
  "nat \<Rightarrow> (nat \<Rightarrow> nat \<Rightarrow> nat \<Rightarrow> nat \<Rightarrow> ('s, bytes) op) \<Rightarrow> nat \<Rightarrow> nat \<Rightarrow> nat \<Rightarrow> bytes \<Rightarrow> ('s, bytes) op" where
  "read_loop cs fetch off n done buf s =
     (if done < n then
        if cs = 0 then (Panic, s)
        else
          (let abs = off + done; idx = abs div cs; within = abs mod cs;
               tk = min (cs - within) (n - done)
           in case fetch idx within abs tk s of
                (Ok piece, s') \<Rightarrow> read_loop cs fetch off n (done + tk) (patch buf done piece) s'
              | (Err e, s') \<Rightarrow> (Err e, s')
              | (Panic, s') \<Rightarrow> (Panic, s'))
      else (Ok buf, s))"
  by pat_completeness auto
termination
  by (relation "measure (\<lambda>(cs, fetch, off, n, done, buf, s). n - done)") (auto simp: piece_progress)

function write_loop ::
  "nat \<Rightarrow> (nat \<Rightarrow> nat \<Rightarrow> nat \<Rightarrow> bytes \<Rightarrow> ('s, unit) op) \<Rightarrow> nat \<Rightarrow> bytes \<Rightarrow> nat \<Rightarrow> ('s, unit) op" where
  "write_loop cs store off data done s =
     (if done < length data then
        if cs = 0 then (Panic, s)
        else
          (let abs = off + done; idx = abs div cs; within = abs mod cs;
               tk = min (cs - within) (length data - done)
           in case store idx within abs (take tk (drop done data)) s of
                (Ok _, s') \<Rightarrow> write_loop cs store off data (done + tk) s'
              | (Err e, s') \<Rightarrow> (Err e, s')
              | (Panic, s') \<Rightarrow> (Panic, s'))
      else (Ok (), s))"
  by pat_completeness auto
termination
  by (relation "measure (\<lambda>(cs, store, off, data, done, s). length data - done)") (auto simp: piece_progress)

declare read_loop.simps [simp del] write_loop.simps [simp del]

text \<open>
  What the loops do, from the contract of one piece. The piece contract is asked only for ranges
  inside one chunk and inside the whole request.
\<close>

definition in_piece :: "nat \<Rightarrow> nat \<Rightarrow> nat \<Rightarrow> nat \<Rightarrow> nat \<Rightarrow> nat \<Rightarrow> nat \<Rightarrow> bool" where
  "in_piece cs off n idx w a t \<longleftrightarrow>
     a = idx * cs + w \<and> w + t \<le> cs \<and> 0 < t \<and> off \<le> a \<and> a + t \<le> off + n"

lemma in_pieceI:
  assumes "0 < cs" and "k < n"
  shows "in_piece cs off n ((off + k) div cs) ((off + k) mod cs) (off + k)
           (min (cs - (off + k) mod cs) (n - k))"
  unfolding in_piece_def
  using assms mod_less_divisor [OF assms(1), of "off + k"] div_mult_mod_eq [of "off + k" cs]
  by (intro conjI) linarith+

lemma in_piece_chunk: "in_piece cs off n idx w a t \<Longrightarrow> idx * cs \<le> a \<and> a < idx * cs + cs \<and> idx * cs < off + n"
  by (auto simp: in_piece_def)

lemma read_loop_hoare:
  assumes cs: "0 < cs"
    and fetch: "\<And>idx w a t. in_piece cs off n idx w a t \<Longrightarrow>
          hoare P (fetch idx w a t) (\<lambda>p s. p = disk_read d a t \<and> P s) E"
    and "length buf = n" and "k \<le> n"
  shows "hoare P (read_loop cs fetch off n k buf)
           (\<lambda>b s. b = take k buf @ disk_read d (off + k) (n - k) \<and> P s) E"
  using assms(3,4)
proof (induction "n - k" arbitrary: k buf rule: less_induct)
  case less
  show ?case
  proof (cases "k < n")
    case False
    with less.prems show ?thesis
      by (auto simp: hoare_def read_loop.simps)
  next
    case True
    define tk where "tk = min (cs - (off + k) mod cs) (n - k)"
    let ?f = "fetch ((off + k) div cs) ((off + k) mod cs) (off + k) tk"
    have pc: "in_piece cs off n ((off + k) div cs) ((off + k) mod cs) (off + k) tk"
      unfolding tk_def using cs True by (rule in_pieceI)
    then have tk: "0 < tk" "k + tk \<le> n"
      by (auto simp: in_piece_def)
    let ?buf = "patch buf k (disk_read d (off + k) tk)"
    have len: "length ?buf = n"
      using less.prems tk by simp
    have IH: "hoare P (read_loop cs fetch off n (k + tk) ?buf)
        (\<lambda>b s. b = take (k + tk) ?buf @ disk_read d (off + (k + tk)) (n - (k + tk)) \<and> P s) E"
      using less.hyps [OF _ len] tk True by simp
    have split: "disk_read d (off + k) (n - k) =
        disk_read d (off + k) tk @ disk_read d (off + (k + tk)) (n - (k + tk))"
      using disk_read_append [of d "off + k" tk "n - (k + tk)"] tk by (simp add: add.assoc)
    have tkb: "take (k + tk) ?buf = take k buf @ disk_read d (off + k) tk"
      using less.prems tk by (simp add: patch_def)
    show ?thesis
      unfolding hoare_def
    proof (intro allI impI)
      fix s assume "P s"
      obtain r s' where f: "?f s = (r, s')" by fastforce
      note R = hoareD [OF fetch [OF pc] \<open>P s\<close> f]
      have unf: "read_loop cs fetch off n k buf s =
        (case r of Ok p \<Rightarrow> read_loop cs fetch off n (k + tk) (patch buf k p) s'
           | Err e \<Rightarrow> (Err e, s') | Panic \<Rightarrow> (Panic, s'))"
        using True cs f by (simp add: read_loop.simps [of cs fetch off n k] Let_def tk_def split: result.splits)
      show "post (\<lambda>b s. b = take k buf @ disk_read d (off + k) (n - k) \<and> P s) E (read_loop cs fetch off n k buf s)"
      proof (cases r)
        case (Ok p)
        with R(2) have "p = disk_read d (off + k) tk" "P s'" by auto
        then show ?thesis
          using hoare_post [OF IH, of s'] by (simp add: unf Ok split tkb)
      qed (use R unf in auto)
    qed
  qed
qed

lemma write_loop_hoare:
  assumes cs: "0 < cs"
    and store: "\<And>d idx w a p. in_piece cs off (length data) idx w a (length p) \<Longrightarrow>
          hoare (P d) (store idx w a p) (\<lambda>_. P (disk_write d a p)) (E d a p)"
    and E_app: "\<And>d a xs ys s. E d a xs s \<Longrightarrow> E d a (xs @ ys) s"
    and E_wr: "\<And>d a xs ys s. E (disk_write d a xs) (a + length xs) ys s \<Longrightarrow> E d a (xs @ ys) s"
    and "k \<le> length data"
  shows "hoare (P d) (write_loop cs store off data k)
           (\<lambda>_. P (disk_write d (off + k) (drop k data))) (E d (off + k) (drop k data))"
  using assms(5)
proof (induction "length data - k" arbitrary: k d rule: less_induct)
  case less
  show ?case
  proof (cases "k < length data")
    case False
    with less.prems show ?thesis
      by (auto simp: hoare_def write_loop.simps)
  next
    case True
    define tk where "tk = min (cs - (off + k) mod cs) (length data - k)"
    let ?p = "take tk (drop k data)"
    let ?f = "store ((off + k) div cs) ((off + k) mod cs) (off + k) ?p"
    have pc: "in_piece cs off (length data) ((off + k) div cs) ((off + k) mod cs) (off + k) tk"
      unfolding tk_def using cs True by (rule in_pieceI)
    then have tk: "0 < tk" "k + tk \<le> length data"
      by (auto simp: in_piece_def)
    then have lp: "length ?p = tk" by simp
    have dp: "drop k data = ?p @ drop (k + tk) data"
      by (metis append_take_drop_id drop_drop add.commute)
    have IH: "hoare (P (disk_write d (off + k) ?p)) (write_loop cs store off data (k + tk))
        (\<lambda>_. P (disk_write (disk_write d (off + k) ?p) (off + (k + tk)) (drop (k + tk) data)))
        (E (disk_write d (off + k) ?p) (off + (k + tk)) (drop (k + tk) data))"
      using less.hyps tk True by simp
    have wr: "disk_write (disk_write d (off + k) ?p) (off + (k + tk)) (drop (k + tk) data) =
        disk_write d (off + k) (drop k data)"
      by (subst (2) dp) (simp only: disk_write_append lp add.assoc)
    show ?thesis
      unfolding hoare_def
    proof (intro allI impI)
      fix s assume "P d s"
      obtain r s' where f: "?f s = (r, s')" by fastforce
      have pc': "in_piece cs off (length data) ((off + k) div cs) ((off + k) mod cs) (off + k) (length ?p)"
        using pc by (simp only: lp)
      note R = hoareD [OF store [OF pc'] \<open>P d s\<close> f]
      have unf: "write_loop cs store off data k s =
        (case r of Ok p \<Rightarrow> write_loop cs store off data (k + tk) s'
           | Err e \<Rightarrow> (Err e, s') | Panic \<Rightarrow> (Panic, s'))"
        using True cs f
        by (simp add: write_loop.simps [of cs store off data k] Let_def tk_def split: result.splits)
      show "post (\<lambda>_. P (disk_write d (off + k) (drop k data))) (E d (off + k) (drop k data))
          (write_loop cs store off data k s)"
      proof (cases r)
        case (Ok u)
        with R(2) have "P (disk_write d (off + k) ?p) s'" by auto
        moreover have "E d (off + k) (drop k data) s''"
          if "E (disk_write d (off + k) ?p) (off + (k + tk)) (drop (k + tk) data) s''" for s''
          using E_wr [of d "off + k" ?p "drop (k + tk) data" s'', unfolded lp add.assoc] that
          by (simp only: dp [symmetric])
        ultimately show ?thesis
          using hoare_post [OF IH, of s'] unfolding wr by (auto simp: unf Ok elim: post_mono)
      next
        case (Err e)
        with R(3) have "E d (off + k) ?p s'" by auto
        then show ?thesis
          using E_app [of d "off + k" ?p s' "drop (k + tk) data"] dp by (simp add: unf Err)
      qed (use R in auto)
    qed
  qed
qed

text \<open>The two uses: errors leave a torn range behind, or cannot happen.\<close>

lemma write_loop_torn:
  assumes "0 < cs"
    and "\<And>d idx w a p. in_piece cs off (length data) idx w a (length p) \<Longrightarrow>
          hoare (P d) (store idx w a p) (\<lambda>_. P (disk_write d a p)) (\<lambda>s. \<exists>d'. torn d d' a p \<and> P d' s)"
  shows "hoare (P d) (write_loop cs store off data 0)
           (\<lambda>_. P (disk_write d off data)) (\<lambda>s. \<exists>d'. torn d d' off data \<and> P d' s)"
proof -
  have "hoare (P d) (write_loop cs store off data 0)
      (\<lambda>_. P (disk_write d (off + 0) (drop 0 data))) (\<lambda>s. \<exists>d'. torn d d' (off + 0) (drop 0 data) \<and> P d' s)"
    by (rule write_loop_hoare [where E = "\<lambda>d a p s. \<exists>d'. torn d d' a p \<and> P d' s"])
      (use assms in \<open>auto intro: torn_prefix torn_disk_write_prefix\<close>)
  then show ?thesis by simp
qed

lemma write_loop_total:
  assumes "0 < cs"
    and "\<And>d idx w a p. in_piece cs off (length data) idx w a (length p) \<Longrightarrow>
          hoare (P d) (store idx w a p) (\<lambda>_. P (disk_write d a p)) (\<lambda>_. False)"
  shows "hoare (P d) (write_loop cs store off data 0) (\<lambda>_. P (disk_write d off data)) (\<lambda>_. False)"
  using write_loop_hoare [where E = "\<lambda>_ _ _ _. False" and P = P and k = 0] assms by simp

lemma read_loop_whole:
  assumes "0 < cs"
    and "\<And>idx w a t. in_piece cs off n idx w a t \<Longrightarrow>
          hoare P (fetch idx w a t) (\<lambda>p s. p = disk_read d a t \<and> P s) E"
  shows "hoare P (read_loop cs fetch off n 0 (zeros n)) (\<lambda>b s. b = disk_read d off n \<and> P s) E"
  using read_loop_hoare [OF assms, where buf = "zeros n" and k = 0] by simp

text \<open>
  The write loop with an invariant on the number of bytes written. Each chunk gets one piece, so
  once a piece is written its chunk has the content that the whole write gives it.
\<close>

lemma write_loop_inv:
  assumes cs: "0 < cs"
    and step: "\<And>k tk. k < length data \<Longrightarrow> tk = min (cs - (off + k) mod cs) (length data - k) \<Longrightarrow>
      hoare (I k) (store ((off + k) div cs) ((off + k) mod cs) (off + k) (take tk (drop k data))) (\<lambda>_. I (k + tk)) E"
    and "k \<le> length data"
  shows "hoare (I k) (write_loop cs store off data k) (\<lambda>_. I (length data)) E"
  using assms(3)
proof (induction "length data - k" arbitrary: k rule: less_induct)
  case less
  show ?case
  proof (cases "k < length data")
    case False
    with less.prems show ?thesis
      by (auto simp: hoare_def write_loop.simps)
  next
    case True
    define tk where "tk = min (cs - (off + k) mod cs) (length data - k)"
    let ?f = "store ((off + k) div cs) ((off + k) mod cs) (off + k) (take tk (drop k data))"
    have "0 < tk" "k + tk \<le> length data"
      using True mod_less_divisor [OF cs, of "off + k"] by (auto simp: tk_def)
    then have IH: "hoare (I (k + tk)) (write_loop cs store off data (k + tk)) (\<lambda>_. I (length data)) E"
      using less.hyps True by simp
    have unf: "write_loop cs store off data k = bind_op ?f (\<lambda>_. write_loop cs store off data (k + tk))"
      using True cs by (intro ext)
        (simp add: write_loop.simps [of cs store off data k] Let_def tk_def bind_op_def split: prod.splits result.splits)
    show ?thesis
      unfolding unf by (rule hoare_bind [OF step [OF True tk_def] IH])
  qed
qed

lemma write_loop_whole:
  assumes cs: "0 < cs"
    and store: "\<And>d' idx w a p. in_piece cs off (length data) idx w a (length p) \<Longrightarrow>
      disk_read (disk_write d' a p) (idx * cs) cs = disk_read (disk_write d off data) (idx * cs) cs \<Longrightarrow>
      hoare (P d') (store idx w a p) (\<lambda>_. P (disk_write d' a p)) E"
  shows "hoare (P d) (write_loop cs store off data 0) (\<lambda>_. P (disk_write d off data)) E"
proof -
  let ?W = "\<lambda>k. disk_write d off (take k data)"
  have "hoare (P (?W 0)) (write_loop cs store off data 0) (\<lambda>_. P (?W (length data))) E"
  proof (rule write_loop_inv [OF cs])
    fix k tk assume k: "k < length data" and tk: "tk = min (cs - (off + k) mod cs) (length data - k)"
    let ?p = "take tk (drop k data)" and ?idx = "(off + k) div cs" and ?w = "(off + k) mod cs"
    have pc: "in_piece cs off (length data) ?idx ?w (off + k) tk"
      unfolding tk using cs k by (rule in_pieceI)
    then have lp: "length ?p = tk" by (auto simp: in_piece_def)
    have W: "disk_write (?W k) (off + k) ?p = ?W (k + tk)"
      using k disk_write_append [of d off "take k data" ?p] by (simp add: take_add)
    have "disk_read (?W (k + tk)) (?idx * cs) cs = disk_read (disk_write d off data) (?idx * cs) cs"
    proof (rule disk_read_cong)
      fix i assume "?idx * cs \<le> i" and i: "i < ?idx * cs + cs"
      have "i < off + k + tk \<or> k + tk = length data"
        using i pc k unfolding tk in_piece_def by linarith
      then show "?W (k + tk) i = disk_write d off data i"
        using pc by (auto simp: disk_write_def in_piece_def)
    qed
    then have "hoare (P (?W k)) (store ?idx ?w (off + k) ?p) (\<lambda>_. P (disk_write (?W k) (off + k) ?p)) E"
      by (intro store) (use pc lp W in simp_all)
    then show "hoare (P (?W k)) (store ?idx ?w (off + k) ?p) (\<lambda>_. P (?W (k + tk))) E"
      unfolding W .
  qed simp
  then show ?thesis by simp
qed

end
