(* ===== verification/BlockStore.thy ===== *)
theory BlockStore
  imports Prelude
begin

text \<open>
  The \<open>BlockStore\<close> trait of \<open>src/store/mod.rs\<close> and its contract.

  \<open>store_ops\<close> is the trait as a record of operations on a state, \<open>check_range\<close> the range guard
  all implementations share. The locale \<open>block_store\<close> is what a client may rely on: a relation
  \<open>Rep d g s\<close> says that the state \<open>s\<close> stands for the disk \<open>d\<close> with the geometry \<open>g\<close>; a read
  returns the bytes of \<open>d\<close> and changes nothing, an \<open>Ok\<close> write changes exactly its range, the
  capacity only grows and new bytes are zero, listed chunks cover everything that is not zero. It
  says nothing of the state after a failed write, flush, delete or resize. \<open>torn_block_store\<close> adds that
  a failed operation tears at most its own range, \<open>atomic_block_store\<close> that it changes nothing,
  \<open>reliable_block_store\<close> that operations in range succeed. No operation panics.
\<close>

section \<open>The trait\<close>

record 's store_ops =
  bs_read_at :: "nat \<Rightarrow> nat \<Rightarrow> ('s, bytes) op"
  bs_write_at :: "nat \<Rightarrow> bytes \<Rightarrow> ('s, unit) op"
  bs_capacity :: "'s \<Rightarrow> nat"
  bs_set_capacity :: "nat \<Rightarrow> ('s, unit) op"
  bs_flush :: "('s, unit) op"
  bs_block_size :: "'s \<Rightarrow> nat"
  bs_chunk_size :: "'s \<Rightarrow> nat"
  bs_present_chunks :: "('s, nat list) op"
  bs_delete_chunk :: "nat \<Rightarrow> ('s, unit) op"

definition check_range :: "nat \<Rightarrow> nat \<Rightarrow> nat \<Rightarrow> unit result" where
  "check_range capacity offset len =
     (case checked_add offset len of
        None \<Rightarrow> Err (OutOfRange offset len capacity)
      | Some end' \<Rightarrow>
          if end' > capacity then Err (OutOfRange offset len capacity) else Ok ())"

definition guard_op :: "unit result \<Rightarrow> ('s, 'a) op \<Rightarrow> ('s, 'a) op" where
  "guard_op r m s = (case r of Ok _ \<Rightarrow> m s | Err e \<Rightarrow> (Err e, s) | Panic \<Rightarrow> (Panic, s))"

lemma check_range_Ok:
  "cap < 2 ^ 64 \<Longrightarrow> check_range cap off n = Ok () \<longleftrightarrow> off + n \<le> cap"
  by (auto simp: check_range_def checked_add_def)

lemma check_range_cases:
  assumes "cap < 2 ^ 64"
  shows "check_range cap off n = (if off + n \<le> cap then Ok () else Err (OutOfRange off n cap))"
  using assms by (auto simp: check_range_def checked_add_def)

lemma hoare_guard_range:
  assumes "cap < 2 ^ 64"
    and "off + n \<le> cap \<Longrightarrow> hoare P m Q E" and "\<And>s. \<not> off + n \<le> cap \<Longrightarrow> P s \<Longrightarrow> E s"
  shows "hoare P (guard_op (check_range cap off n) m) Q E"
  using assms by (auto simp: hoare_def guard_op_def check_range_cases)

section \<open>The contract\<close>

record geometry =
  g_cap :: nat
  g_chunk :: nat
  g_block :: nat

definition wf_geom :: "geometry \<Rightarrow> bool" where
  "wf_geom g \<longleftrightarrow>
     g_cap g < 2 ^ 64 \<and> 0 < g_chunk g \<and> 0 < g_block g \<and> g_block g dvd g_chunk g \<and>
     g_block g dvd g_cap g"

definition zero_beyond :: "nat \<Rightarrow> (nat \<Rightarrow> byte) \<Rightarrow> bool" where
  "zero_beyond cap d \<longleftrightarrow> (\<forall>i\<ge>cap. d i = 0)"

definition same_outside :: "nat \<Rightarrow> nat \<Rightarrow> (nat \<Rightarrow> byte) \<Rightarrow> (nat \<Rightarrow> byte) \<Rightarrow> bool" where
  "same_outside cs idx d d' \<longleftrightarrow> (\<forall>i. i div cs \<noteq> idx \<longrightarrow> d' i = d i)"

definition lists_chunks :: "nat \<Rightarrow> (nat \<Rightarrow> byte) \<Rightarrow> nat list \<Rightarrow> bool" where
  "lists_chunks cs d xs \<longleftrightarrow>
     sorted xs \<and> distinct xs \<and> (\<forall>i \<in> set xs. i < 2 ^ 64) \<and> (\<forall>i. i \<notin> set xs \<longrightarrow> chunk_zero cs d i)"

text \<open>
  The chunk contents a write leaves in the chunks it touches. A content-addressed store keeps its
  promise only for contents whose hashes do not collide; \<open>adm\<close> says which contents those are.
\<close>

definition touches :: "nat \<Rightarrow> nat \<Rightarrow> nat \<Rightarrow> nat \<Rightarrow> bool" where
  "touches cs off n idx \<longleftrightarrow> idx * cs < off + n \<and> off < idx * cs + cs"

definition adm_write :: "(bytes \<Rightarrow> bool) \<Rightarrow> nat \<Rightarrow> (nat \<Rightarrow> byte) \<Rightarrow> nat \<Rightarrow> bytes \<Rightarrow> bool" where
  "adm_write adm cs d off bs \<longleftrightarrow>
     (\<forall>idx. touches cs off (length bs) idx \<longrightarrow> adm (disk_read (disk_write d off bs) (idx * cs) cs))"

lemma adm_write_True [simp]: "adm_write (\<lambda>_. True) cs d off bs"
  by (simp add: adm_write_def)

lemma zero_beyond_disk_write:
  "zero_beyond cap d \<Longrightarrow> off + length bs \<le> cap \<Longrightarrow> zero_beyond cap (disk_write d off bs)"
  by (simp add: zero_beyond_def disk_write_def)

lemma zero_beyond_torn:
  "zero_beyond cap d \<Longrightarrow> torn d d' off bs \<Longrightarrow> off + length bs \<le> cap \<Longrightarrow> zero_beyond cap d'"
  unfolding zero_beyond_def by (metis le_trans torn_outside)

lemma zero_beyond_clear: "zero_beyond cap d \<Longrightarrow> zero_beyond cap (clear_chunk cs d idx)"
  by (simp add: zero_beyond_def clear_chunk_def)

lemma zero_beyond_mono: "zero_beyond cap d \<Longrightarrow> cap \<le> cap' \<Longrightarrow> zero_beyond cap' d"
  by (simp add: zero_beyond_def)

lemma chunk_below:
  assumes "idx * cs < cap" and "cap < (2 :: nat) ^ 64" and "0 < cs"
  shows "idx < 2 ^ 64"
proof -
  have "idx * 1 \<le> idx * cs" using assms(3) by (intro mult_le_mono2) simp
  with assms show ?thesis by linarith
qed

lemma same_outside_refl [simp]: "same_outside cs idx d d"
  by (simp add: same_outside_def)

lemma same_outside_clear: "same_outside cs idx d (clear_chunk cs d idx)"
  by (simp add: same_outside_def clear_chunk_def)

locale block_store =
  fixes B :: "('s, 'm) store_ops_scheme"
    and Rep :: "(nat \<Rightarrow> byte) \<Rightarrow> geometry \<Rightarrow> 's \<Rightarrow> bool"
    and adm :: "bytes \<Rightarrow> bool"
  assumes geom: "Rep d g s \<Longrightarrow>
      bs_capacity B s = g_cap g \<and> bs_chunk_size B s = g_chunk g \<and> bs_block_size B s = g_block g"
    and wf: "Rep d g s \<Longrightarrow> wf_geom g \<and> zero_beyond (g_cap g) d"
    and read_at: "hoare (Rep d g) (bs_read_at B off n)
      (\<lambda>bs s. Rep d g s \<and> off + n \<le> g_cap g \<and> bs = disk_read d off n) (Rep d g)"
    and write_at: "adm_write adm (g_chunk g) d off bs \<Longrightarrow> hoare (Rep d g) (bs_write_at B off bs)
      (\<lambda>_ s. off + length bs \<le> g_cap g \<and> Rep (disk_write d off bs) g s) (\<lambda>_. True)"
    and set_capacity: "c < 2 ^ 64 \<Longrightarrow> hoare (Rep d g) (bs_set_capacity B c)
      (\<lambda>_ s. g_cap g \<le> c \<and> Rep d (g\<lparr>g_cap := c\<rparr>) s) (\<lambda>_. True)"
    and flush: "hoare (Rep d g) (bs_flush B) (\<lambda>_. Rep d g) (\<lambda>_. True)"
    and present: "hoare (Rep d g) (bs_present_chunks B)
      (\<lambda>xs s. Rep d g s \<and> lists_chunks (g_chunk g) d xs) (Rep d g)"
    and delete: "idx < 2 ^ 64 \<Longrightarrow> hoare (Rep d g) (bs_delete_chunk B idx)
      (\<lambda>_. Rep (clear_chunk (g_chunk g) d idx) g) (\<lambda>_. True)"

locale torn_block_store = block_store +
  assumes write_torn: "adm_write adm (g_chunk g) d off bs \<Longrightarrow> hoare (Rep d g) (bs_write_at B off bs) (\<lambda>_ _. True)
      (\<lambda>s. \<exists>d'. torn d d' off bs \<and> Rep d' g s)"
    and flush_torn: "hoare (Rep d g) (bs_flush B) (\<lambda>_ _. True) (Rep d g)"
    and delete_torn: "idx < 2 ^ 64 \<Longrightarrow> hoare (Rep d g) (bs_delete_chunk B idx) (\<lambda>_ _. True)
      (\<lambda>s. \<exists>d'. same_outside (g_chunk g) idx d d' \<and> Rep d' g s)"
    and resize_torn: "c < 2 ^ 64 \<Longrightarrow> hoare (Rep d g) (bs_set_capacity B c) (\<lambda>_ _. True) (Rep d g)"

locale atomic_block_store = torn_block_store +
  assumes write_atomic: "adm_write adm (g_chunk g) d off bs \<Longrightarrow> hoare (Rep d g) (bs_write_at B off bs) (\<lambda>_ _. True) (Rep d g)"
    and delete_atomic: "idx < 2 ^ 64 \<Longrightarrow> hoare (Rep d g) (bs_delete_chunk B idx) (\<lambda>_ _. True) (Rep d g)"

locale reliable_block_store = block_store +
  assumes read_ok: "off + n \<le> g_cap g \<Longrightarrow> hoare (Rep d g) (bs_read_at B off n) (\<lambda>_ _. True) (\<lambda>_. False)"
    and write_ok: "off + length bs \<le> g_cap g \<Longrightarrow> adm_write adm (g_chunk g) d off bs \<Longrightarrow>
      hoare (Rep d g) (bs_write_at B off bs) (\<lambda>_ _. True) (\<lambda>_. False)"
    and flush_ok: "hoare (Rep d g) (bs_flush B) (\<lambda>_ _. True) (\<lambda>_. False)"
    and present_ok: "hoare (Rep d g) (bs_present_chunks B) (\<lambda>_ _. True) (\<lambda>_. False)"
    and delete_ok: "idx < 2 ^ 64 \<Longrightarrow> hoare (Rep d g) (bs_delete_chunk B idx) (\<lambda>_ _. True) (\<lambda>_. False)"

context block_store
begin

lemma cap_bound: "Rep d g s \<Longrightarrow> g_cap g < 2 ^ 64"
  using wf by (auto simp: wf_geom_def)

lemma chunk_pos': "Rep d g s \<Longrightarrow> 0 < g_chunk g"
  using wf by (auto simp: wf_geom_def)

lemma beyond: "Rep d g s \<Longrightarrow> g_cap g \<le> i \<Longrightarrow> d i = 0"
  using wf by (auto simp: zero_beyond_def)

lemma write_then_read:
  assumes "Rep d g s" and "adm_write adm (g_chunk g) d off bs"
    and "bs_write_at B off bs s = (Ok (), s1)" and "bs_read_at B off' n s1 = (Ok out, s2)"
  shows "out = disk_read (disk_write d off bs) off' n \<and> Rep (disk_write d off bs) g s2"
  using hoareD(2) [OF write_at [OF assms(2)] assms(1,3)] hoareD(2) [OF read_at _ assms(4)] by auto

end

context reliable_block_store
begin

lemma read_total:
  "off + n \<le> g_cap g \<Longrightarrow>
     hoare (Rep d g) (bs_read_at B off n) (\<lambda>bs s. bs = disk_read d off n \<and> Rep d g s) (\<lambda>_. False)"
  by (rule hoare_conseq [OF hoare_and [OF read_at read_ok]]) auto

lemma write_total:
  "off + length bs \<le> g_cap g \<Longrightarrow> adm_write adm (g_chunk g) d off bs \<Longrightarrow>
     hoare (Rep d g) (bs_write_at B off bs) (\<lambda>_. Rep (disk_write d off bs) g) (\<lambda>_. False)"
  by (rule hoare_conseq [OF hoare_and [OF write_at write_ok]]) auto

lemma flush_total: "hoare (Rep d g) (bs_flush B) (\<lambda>_. Rep d g) (\<lambda>_. False)"
  by (rule hoare_conseq [OF hoare_and [OF flush flush_ok]]) auto

lemma present_total:
  "hoare (Rep d g) (bs_present_chunks B)
     (\<lambda>xs s. Rep d g s \<and> lists_chunks (g_chunk g) d xs) (\<lambda>_. False)"
  by (rule hoare_conseq [OF hoare_and [OF present present_ok]]) auto

lemma delete_total:
  "idx < 2 ^ 64 \<Longrightarrow> hoare (Rep d g) (bs_delete_chunk B idx) (\<lambda>_. Rep (clear_chunk (g_chunk g) d idx) g) (\<lambda>_. False)"
  by (rule hoare_conseq [OF hoare_and [OF delete delete_ok]]) auto

end

end
