(* ===== verification/MemoryStore.thy ===== *)
theory MemoryStore
  imports BlockStore
begin

text \<open>
  \<open>MemoryStore\<close> of \<open>src/store/memory.rs\<close>: a sparse table of chunks. It is the reference
  implementation of the \<open>BlockStore\<close> contract and the store under the wrappers in the tests.
  The hash map is an association list with distinct keys.
\<close>

record memory_store =
  m_capacity :: nat
  m_chunks :: "(nat \<times> bytes) list"
  m_block_size :: nat
  m_chunk_size :: nat

definition memory_new :: "nat \<Rightarrow> nat \<Rightarrow> nat \<Rightarrow> memory_store result" where
  "memory_new capacity block_size chunk_size =
     (if block_size = 0 \<or> chunk_size = 0 \<or> chunk_size mod block_size \<noteq> 0
      then Err (GeometryMismatch ''invalid block_size/chunk_size'')
      else if capacity = 0 \<or> capacity mod block_size \<noteq> 0
      then Err (GeometryMismatch ''capacity must be multiple of block_size'')
      else Ok \<lparr>m_capacity = capacity, m_chunks = [], m_block_size = block_size,
               m_chunk_size = chunk_size\<rparr>)"

definition memory_fetch :: "nat \<Rightarrow> nat \<Rightarrow> nat \<Rightarrow> nat \<Rightarrow> (memory_store, bytes) op" where
  "memory_fetch idx within pos tk s =
     (case map_of (m_chunks s) idx of
        None \<Rightarrow> (Ok (zeros tk), s)
      | Some chunk \<Rightarrow>
          (case sub_slice chunk within tk of Some p \<Rightarrow> (Ok p, s) | None \<Rightarrow> (Panic, s)))"

definition memory_read_at :: "nat \<Rightarrow> nat \<Rightarrow> (memory_store, bytes) op" where
  "memory_read_at offset n s =
     guard_op (check_range (m_capacity s) offset n)
       (read_loop (m_chunk_size s) memory_fetch offset n 0 (zeros n)) s"

definition memory_store_piece :: "nat \<Rightarrow> nat \<Rightarrow> nat \<Rightarrow> bytes \<Rightarrow> (memory_store, unit) op" where
  "memory_store_piece idx within pos p s =
     (let chunk = (case map_of (m_chunks s) idx of Some c \<Rightarrow> c | None \<Rightarrow> zeros (m_chunk_size s))
      in if within + length p \<le> length chunk
         then (Ok (), s\<lparr>m_chunks := AList.update idx (patch chunk within p) (m_chunks s)\<rparr>)
         else (Panic, s\<lparr>m_chunks := AList.update idx chunk (m_chunks s)\<rparr>))"

definition memory_write_at :: "nat \<Rightarrow> bytes \<Rightarrow> (memory_store, unit) op" where
  "memory_write_at offset data s =
     guard_op (check_range (m_capacity s) offset (length data))
       (write_loop (m_chunk_size s) memory_store_piece offset data 0) s"

definition memory_set_capacity :: "nat \<Rightarrow> (memory_store, unit) op" where
  "memory_set_capacity new_capacity s =
     (if m_block_size s = 0 then (Panic, s)
      else if new_capacity mod m_block_size s \<noteq> 0
      then (Err (GeometryMismatch ''capacity must be multiple of block_size''), s)
      else if new_capacity < m_capacity s
      then (Err (ShrinkRefused (m_capacity s) new_capacity), s)
      else (Ok (), s\<lparr>m_capacity := new_capacity\<rparr>))"

definition memory_present_chunks :: "(memory_store, nat list) op" where
  "memory_present_chunks s = (Ok (sort (map fst (m_chunks s))), s)"

definition memory_delete_chunk :: "nat \<Rightarrow> (memory_store, unit) op" where
  "memory_delete_chunk index s = (Ok (), s\<lparr>m_chunks := AList.delete index (m_chunks s)\<rparr>)"

definition memory_ops :: "memory_store store_ops" where
  "memory_ops =
     \<lparr>bs_read_at = memory_read_at, bs_write_at = memory_write_at,
      bs_capacity = m_capacity, bs_set_capacity = memory_set_capacity,
      bs_flush = ret_op (), bs_block_size = m_block_size, bs_chunk_size = m_chunk_size,
      bs_present_chunks = memory_present_chunks, bs_delete_chunk = memory_delete_chunk\<rparr>"

section \<open>The disk a memory store stands for\<close>

definition memory_rep :: "(nat \<Rightarrow> byte) \<Rightarrow> geometry \<Rightarrow> memory_store \<Rightarrow> bool" where
  "memory_rep d g s \<longleftrightarrow>
     table_ok (m_chunk_size s) (m_chunks s) \<and>
     d = chunk_disk (m_chunk_size s) (map_of (m_chunks s)) \<and>
     g = \<lparr>g_cap = m_capacity s, g_chunk = m_chunk_size s, g_block = m_block_size s\<rparr> \<and>
     wf_geom g \<and> zero_beyond (m_capacity s) d \<and> (\<forall>i. map_of (m_chunks s) i \<noteq> None \<longrightarrow> i < 2 ^ 64)"

lemma memory_rep_geom:
  "memory_rep d g s \<Longrightarrow>
     m_capacity s = g_cap g \<and> m_chunk_size s = g_chunk g \<and> m_block_size s = g_block g \<and>
     wf_geom g \<and> 0 < g_chunk g \<and> g_cap g < 2 ^ 64"
  by (auto simp: memory_rep_def wf_geom_def)

lemma memory_fetch_ok:
  assumes "in_piece (g_chunk g) off n idx w a t"
  shows "hoare (memory_rep d g) (memory_fetch idx w a t)
           (\<lambda>p s. p = disk_read d a t \<and> memory_rep d g s) (\<lambda>_. False)"
  unfolding hoare_def
proof (intro allI impI)
  fix s assume rep: "memory_rep d g s"
  let ?cs = "m_chunk_size s"
  have pc: "a = idx * ?cs + w" "w + t \<le> ?cs"
    using assms memory_rep_geom [OF rep] by (auto simp: in_piece_def)
  have d: "d = chunk_disk ?cs (map_of (m_chunks s))" and tab: "table_ok ?cs (m_chunks s)"
    using rep by (auto simp: memory_rep_def)
  show "post (\<lambda>p s. p = disk_read d a t \<and> memory_rep d g s) (\<lambda>_. False) (memory_fetch idx w a t s)"
  proof (cases "map_of (m_chunks s) idx")
    case None
    then have "zeros t = disk_read d a t"
      unfolding d pc(1) by (intro disk_read_eqI) (use pc in \<open>auto simp: chunk_disk_def add.assoc\<close>)
    with None rep show ?thesis by (simp add: memory_fetch_def)
  next
    case (Some c)
    then have "c = disk_read d (idx * ?cs) ?cs"
      using table_ok_length [OF tab Some] by (simp add: d chunk_disk_chunk)
    with Some rep pc show ?thesis by (simp add: memory_fetch_def)
  qed
qed

lemma memory_store_piece_ok:
  assumes "in_piece (g_chunk g) off n idx w a (length p)" and "off + n \<le> g_cap g"
  shows "hoare (memory_rep d g) (memory_store_piece idx w a p)
           (\<lambda>_. memory_rep (disk_write d a p) g) (\<lambda>_. False)"
  unfolding hoare_def
proof (intro allI impI)
  fix s assume rep: "memory_rep d g s"
  let ?cs = "m_chunk_size s"
  let ?c = "case map_of (m_chunks s) idx of Some c \<Rightarrow> c | None \<Rightarrow> zeros ?cs"
  have pc: "a = idx * ?cs + w" "w + length p \<le> ?cs" "a + length p \<le> m_capacity s"
    using assms memory_rep_geom [OF rep] by (auto simp: in_piece_def)
  have "idx * g_chunk g < g_cap g" using assms unfolding in_piece_def by linarith
  then have idx: "idx < 2 ^ 64" using memory_rep_geom [OF rep] chunk_below by blast
  have tab: "table_ok ?cs (m_chunks s)"
    using rep by (simp add: memory_rep_def)
  have len: "length ?c = ?cs"
    using table_ok_length [OF tab] by (simp split: option.splits)
  have "chunk_disk ?cs ((map_of (m_chunks s))(idx \<mapsto> patch ?c w p)) = disk_write d a p"
    using chunk_disk_update [OF _ pc(2) len] memory_rep_geom [OF rep] rep pc(1)
    by (simp add: memory_rep_def)
  then have "memory_rep (disk_write d a p) g
      (s\<lparr>m_chunks := AList.update idx (patch ?c w p) (m_chunks s)\<rparr>)"
    using rep pc len idx by (auto simp: memory_rep_def update_conv' table_ok_update zero_beyond_disk_write)
  then show "post (\<lambda>_. memory_rep (disk_write d a p) g) (\<lambda>_. False) (memory_store_piece idx w a p s)"
    using len pc by (simp add: memory_store_piece_def Let_def)
qed

lemma memory_read_hoare:
  "hoare (memory_rep d g) (memory_read_at off n)
     (\<lambda>bs s. memory_rep d g s \<and> off + n \<le> g_cap g \<and> bs = disk_read d off n)
     (\<lambda>s. memory_rep d g s \<and> \<not> off + n \<le> g_cap g)"
  unfolding hoare_def
proof (intro allI impI)
  fix s assume rep: "memory_rep d g s"
  note G = memory_rep_geom [OF rep]
  have "hoare (memory_rep d g) (guard_op (check_range (g_cap g) off n)
          (read_loop (g_chunk g) memory_fetch off n 0 (zeros n)))
     (\<lambda>bs s. memory_rep d g s \<and> off + n \<le> g_cap g \<and> bs = disk_read d off n)
     (\<lambda>s. memory_rep d g s \<and> \<not> off + n \<le> g_cap g)"
    using G by (intro hoare_guard_range hoare_conseq [OF read_loop_whole [OF _ memory_fetch_ok]]) auto
  from hoare_post [OF this rep] show "post (\<lambda>bs s. memory_rep d g s \<and> off + n \<le> g_cap g \<and> bs = disk_read d off n)
     (\<lambda>s. memory_rep d g s \<and> \<not> off + n \<le> g_cap g) (memory_read_at off n s)"
    using G by (simp add: memory_read_at_def)
qed

lemma memory_write_hoare:
  "hoare (memory_rep d g) (memory_write_at off bs)
     (\<lambda>_ s. off + length bs \<le> g_cap g \<and> memory_rep (disk_write d off bs) g s)
     (\<lambda>s. memory_rep d g s \<and> \<not> off + length bs \<le> g_cap g)"
  unfolding hoare_def
proof (intro allI impI)
  fix s assume rep: "memory_rep d g s"
  note G = memory_rep_geom [OF rep]
  have "hoare (memory_rep d g) (guard_op (check_range (g_cap g) off (length bs))
          (write_loop (g_chunk g) memory_store_piece off bs 0))
     (\<lambda>_ s. off + length bs \<le> g_cap g \<and> memory_rep (disk_write d off bs) g s)
     (\<lambda>s. memory_rep d g s \<and> \<not> off + length bs \<le> g_cap g)"
    using G
    by (intro hoare_guard_range
        hoare_conseq [OF write_loop_total [where P = "\<lambda>d. memory_rep d g", OF _ memory_store_piece_ok]]) auto
  from hoare_post [OF this rep] show "post (\<lambda>_ s. off + length bs \<le> g_cap g \<and> memory_rep (disk_write d off bs) g s)
     (\<lambda>s. memory_rep d g s \<and> \<not> off + length bs \<le> g_cap g) (memory_write_at off bs s)"
    using G by (simp add: memory_write_at_def)
qed

lemma memory_new_rep:
  assumes "memory_new cap bs cs = Ok s" and "cap < 2 ^ 64"
  shows "memory_rep (\<lambda>_. 0) \<lparr>g_cap = cap, g_chunk = cs, g_block = bs\<rparr> s"
  using assms
  by (auto simp: memory_new_def memory_rep_def wf_geom_def zero_beyond_def chunk_disk_def fun_eq_iff
      split: if_splits)

section \<open>The store implements the contract\<close>

lemma memory_set_capacity_hoare:
  assumes "c < 2 ^ 64"
  shows "hoare (memory_rep d g) (memory_set_capacity c)
     (\<lambda>_ s. g_cap g \<le> c \<and> memory_rep d (g\<lparr>g_cap := c\<rparr>) s) (memory_rep d g)"
  using assms
  by (auto simp: hoare_def memory_set_capacity_def memory_rep_def wf_geom_def elim: zero_beyond_mono)

lemma memory_present_hoare:
  "hoare (memory_rep d g) memory_present_chunks
     (\<lambda>xs s. memory_rep d g s \<and> lists_chunks (g_chunk g) d xs) (\<lambda>_. False)"
  by (auto simp: hoare_def memory_present_chunks_def lists_chunks_def memory_rep_def table_ok_def
      map_of_eq_None_iff rev_image_eqI intro: chunk_disk_zero)

lemma memory_delete_hoare:
  "hoare (memory_rep d g) (memory_delete_chunk idx)
     (\<lambda>_. memory_rep (clear_chunk (g_chunk g) d idx) g) (\<lambda>_. False)"
  by (auto simp: hoare_def memory_delete_chunk_def memory_rep_def delete_conv' table_ok_delete
      chunk_disk_delete zero_beyond_clear)

lemma memory_ops_sel [simp]:
  "bs_read_at memory_ops = memory_read_at" "bs_write_at memory_ops = memory_write_at"
  "bs_capacity memory_ops = m_capacity" "bs_set_capacity memory_ops = memory_set_capacity"
  "bs_flush memory_ops = ret_op ()" "bs_block_size memory_ops = m_block_size"
  "bs_chunk_size memory_ops = m_chunk_size" "bs_present_chunks memory_ops = memory_present_chunks"
  "bs_delete_chunk memory_ops = memory_delete_chunk"
  by (simp_all add: memory_ops_def)

lemmas memory_ops_hoare =
  memory_read_hoare [folded memory_ops_sel] memory_write_hoare [folded memory_ops_sel]
  memory_present_hoare [folded memory_ops_sel] memory_delete_hoare [folded memory_ops_sel]

lemma memory_block_store: "block_store memory_ops memory_rep (\<lambda>_. True)"
proof (unfold_locales, goal_cases)
  case (3 d g off n)
  show ?case by (rule hoare_conseq [OF memory_ops_hoare(1) [of d g off n]]) auto
next
  case (4 g d off bs)
  show ?case by (rule hoare_conseq [OF memory_ops_hoare(2) [of d g off bs]]) auto
next
  case (5 c d g)
  then show ?case by (simp, intro hoare_conseq [OF memory_set_capacity_hoare]) auto
next
  case (6 d g)
  show ?case by (simp add: hoare_def ret_op_def)
next
  case (7 d g)
  show ?case by (rule hoare_conseq [OF memory_ops_hoare(3) [of d g]]) auto
next
  case (8 idx d g)
  show ?case by (rule hoare_conseq [OF memory_ops_hoare(4) [of d g idx]]) auto
qed (auto simp: memory_rep_def)

interpretation mem: reliable_block_store memory_ops memory_rep "\<lambda>_. True"
proof (rule reliable_block_store.intro [OF memory_block_store], unfold_locales, goal_cases)
  case (1 off n g d)
  then show ?case by (intro hoare_conseq [OF memory_ops_hoare(1) [of d g off n]]) auto
next
  case (2 off bs g d)
  then show ?case by (intro hoare_conseq [OF memory_ops_hoare(2) [of d g off bs]]) auto
next
  case (4 d g)
  show ?case by (rule hoare_conseq [OF memory_ops_hoare(3) [of d g]]) auto
next
  case (5 idx d g)
  show ?case by (rule hoare_conseq [OF memory_ops_hoare(4) [of d g idx]]) auto
qed (simp add: hoare_ret)

interpretation mem: atomic_block_store memory_ops memory_rep "\<lambda>_. True"
proof (unfold_locales, goal_cases)
  case (1 g d off bs)
  show ?case by (rule hoare_conseq [OF memory_ops_hoare(2) [of d g off bs]]) (auto intro: torn_refl)
next
  case (2 d g)
  show ?case by (simp add: hoare_ret)
next
  case (3 idx d g)
  show ?case by (rule hoare_conseq [OF memory_ops_hoare(4) [of d g idx]]) auto
next
  case (4 c d g)
  then show ?case by (simp, intro hoare_conseq [OF memory_set_capacity_hoare]) auto
next
  case (5 g d off bs)
  show ?case by (rule hoare_conseq [OF memory_ops_hoare(2) [of d g off bs]]) auto
next
  case (6 idx d g)
  show ?case by (rule hoare_conseq [OF memory_ops_hoare(4) [of d g idx]]) auto
qed

end
