(* ===== verification/ChunkCache.thy ===== *)
theory ChunkCache
  imports Prelude
begin

text \<open>
  \<open>ChunkCache\<close> of \<open>src/cache.rs\<close>: the process-wide pool of whole chunks, keyed by volume and
  chunk index, with a byte budget and approximate least-recently-used eviction. The hash map is
  an association list; its order stands for the iteration order of the map. \<open>cache_inv\<close> says
  that keys and ticks are unique, that the byte counter is exact and within the budget; every
  operation keeps it, and eviction removes exactly the entries with the oldest ticks.
  \<open>used_bytes\<close> counts bytes held in memory and \<open>tick\<close> counts accesses, so neither sum reaches
  \<open>2 ^ 64\<close> and both are written with plain addition.
\<close>

section \<open>State\<close>

record cache_entry =
  ce_data :: bytes
  ce_tick :: nat

type_synonym cache_key = "string \<times> nat"
type_synonym cache_table = "(cache_key \<times> cache_entry) list"

record chunk_cache =
  cc_entries :: cache_table
  cc_max_bytes :: nat
  cc_last_nonzero_max_bytes :: nat
  cc_used_bytes :: nat
  cc_tick :: nat

definition default_cache_max :: nat where
  "default_cache_max = 256 * 1024 * 1024"

definition cache_new :: "nat \<Rightarrow> chunk_cache" where
  "cache_new max_bytes =
     \<lparr>cc_entries = [], cc_max_bytes = max_bytes,
      cc_last_nonzero_max_bytes = (if max_bytes > 0 then max_bytes else default_cache_max),
      cc_used_bytes = 0, cc_tick = 0\<rparr>"

definition cache_stats :: "chunk_cache \<Rightarrow> nat \<times> nat" where
  "cache_stats c = (cc_used_bytes c, length (cc_entries c))"

definition cache_is_enabled :: "chunk_cache \<Rightarrow> bool" where
  "cache_is_enabled c \<longleftrightarrow> cc_max_bytes c > 0"

section \<open>Operations\<close>

text \<open>\<open>entries.iter().min_by_key(|(_, e)| e.tick)\<close>: the first entry with the least tick.\<close>

fun lru_victim :: "('k \<times> cache_entry) list \<Rightarrow> ('k \<times> cache_entry) option" where
  "lru_victim [] = None"
| "lru_victim (e # es) =
     (case lru_victim es of
        None \<Rightarrow> Some e
      | Some v \<Rightarrow> if ce_tick (snd v) < ce_tick (snd e) then Some v else Some e)"

lemma lru_victim_None [simp]: "lru_victim es = None \<longleftrightarrow> es = []"
  by (cases es) (auto split: option.splits)

lemma lru_victim_Some:
  "lru_victim es = Some v \<Longrightarrow> v \<in> set es \<and> (\<forall>e \<in> set es. ce_tick (snd v) \<le> ce_tick (snd e))"
proof (induction es arbitrary: v)
  case (Cons e es)
  show ?case
  proof (cases "lru_victim es")
    case None
    with Cons.prems show ?thesis by simp
  next
    case (Some w)
    with Cons.IH [OF Some] Cons.prems show ?thesis
      by (auto split: if_splits intro: le_trans less_imp_le)
  qed
qed simp

text \<open>
  The eviction loop of \<open>put\<close> (with the size of the new chunk) and of \<open>set_max_bytes\<close> (with 0):
  while the budget is exceeded and entries are left, drop the entry with the least tick.
\<close>

function evict_until :: "nat \<Rightarrow> nat \<Rightarrow> ('k \<times> cache_entry) list \<times> nat \<Rightarrow> ('k \<times> cache_entry) list \<times> nat" where
  "evict_until size' max' (es, used) =
     (if used + size' > max' \<and> es \<noteq> [] then
        (case lru_victim es of
           None \<Rightarrow> (es, used)
         | Some (k, e) \<Rightarrow> evict_until size' max' (AList.delete k es, used - length (ce_data e)))
      else (es, used))"
  by pat_completeness auto
termination
proof (relation "measure (\<lambda>(_, _, es, _). length es)", goal_cases)
  case (2 size' max' es used v k e)
  then have "k \<in> fst ` set es"
    using lru_victim_Some [of es "(k, e)"] by force
  then have "length (AList.delete k es) < length es"
    by (auto simp: AList.delete_eq intro!: length_filter_less)
  then show ?case by simp
qed simp

declare evict_until.simps [simp del]

definition cache_set_max_bytes :: "nat \<Rightarrow> chunk_cache \<Rightarrow> chunk_cache" where
  "cache_set_max_bytes max_bytes c =
     (let c1 = (if max_bytes > 0 then c\<lparr>cc_last_nonzero_max_bytes := max_bytes\<rparr> else c);
          c2 = c1\<lparr>cc_max_bytes := max_bytes\<rparr>
      in if max_bytes = 0 then c2\<lparr>cc_entries := [], cc_used_bytes := 0\<rparr>
         else (case evict_until 0 max_bytes (cc_entries c2, cc_used_bytes c2) of
                 (es, used) \<Rightarrow> c2\<lparr>cc_entries := es, cc_used_bytes := used\<rparr>))"

definition cache_clear :: "chunk_cache \<Rightarrow> chunk_cache" where
  "cache_clear c = c\<lparr>cc_entries := [], cc_used_bytes := 0\<rparr>"

definition cache_invalidate_volume :: "string \<Rightarrow> chunk_cache \<Rightarrow> chunk_cache" where
  "cache_invalidate_volume volume c =
     (let remove_bytes =
            sum_list (map (\<lambda>(k, e). length (ce_data e)) (filter (\<lambda>(k, e). fst k = volume) (cc_entries c)))
      in c\<lparr>cc_entries := filter (\<lambda>(k, e). fst k \<noteq> volume) (cc_entries c),
           cc_used_bytes := cc_used_bytes c - remove_bytes\<rparr>)"

definition cache_disable :: "chunk_cache \<Rightarrow> chunk_cache" where
  "cache_disable c = cache_set_max_bytes 0 c"

definition cache_enable :: "nat option \<Rightarrow> chunk_cache \<Rightarrow> chunk_cache" where
  "cache_enable max_bytes c =
     (let budget = (case max_bytes of
                      Some b \<Rightarrow> if b > 0 then b else cc_last_nonzero_max_bytes c
                    | None \<Rightarrow> cc_last_nonzero_max_bytes c)
      in cache_set_max_bytes budget (cache_clear c))"

definition cache_get :: "string \<Rightarrow> nat \<Rightarrow> chunk_cache \<Rightarrow> bytes option \<times> chunk_cache" where
  "cache_get volume chunk_idx c =
     (let tick = cc_tick c + 1; c1 = c\<lparr>cc_tick := tick\<rparr>
      in case map_of (cc_entries c1) (volume, chunk_idx) of
           None \<Rightarrow> (None, c1)
         | Some e \<Rightarrow>
             (Some (ce_data e),
              c1\<lparr>cc_entries := AList.update (volume, chunk_idx) (e\<lparr>ce_tick := tick\<rparr>) (cc_entries c1)\<rparr>))"

definition cache_remove :: "cache_key \<Rightarrow> chunk_cache \<Rightarrow> chunk_cache" where
  "cache_remove key c =
     (case map_of (cc_entries c) key of
        None \<Rightarrow> c
      | Some old \<Rightarrow>
          c\<lparr>cc_entries := AList.delete key (cc_entries c),
            cc_used_bytes := cc_used_bytes c - length (ce_data old)\<rparr>)"

definition cache_put :: "string \<Rightarrow> nat \<Rightarrow> bytes \<Rightarrow> chunk_cache \<Rightarrow> chunk_cache" where
  "cache_put volume chunk_idx data c =
     (let key = (volume, chunk_idx); size' = length data;
          c1 = cache_remove key (c\<lparr>cc_tick := cc_tick c + 1\<rparr>)
      in case evict_until size' (cc_max_bytes c1) (cc_entries c1, cc_used_bytes c1) of
           (es, used) \<Rightarrow>
             if size' \<le> cc_max_bytes c1 then
               c1\<lparr>cc_used_bytes := used + size',
                  cc_entries := AList.update key \<lparr>ce_data = data, ce_tick = cc_tick c1\<rparr> es\<rparr>
             else c1\<lparr>cc_entries := es, cc_used_bytes := used\<rparr>)"

definition cache_invalidate :: "string \<Rightarrow> nat \<Rightarrow> chunk_cache \<Rightarrow> chunk_cache" where
  "cache_invalidate volume chunk_idx c = cache_remove (volume, chunk_idx) c"

section \<open>The invariant\<close>

definition table_bytes :: "('k \<times> cache_entry) list \<Rightarrow> nat" where
  "table_bytes es = sum_list (map (\<lambda>(k, e). length (ce_data e)) es)"

definition entries_ok :: "nat \<Rightarrow> ('k \<times> cache_entry) list \<Rightarrow> bool" where
  "entries_ok t es \<longleftrightarrow>
     distinct (map fst es) \<and> distinct (map (\<lambda>x. ce_tick (snd x)) es) \<and> (\<forall>(k, e) \<in> set es. ce_tick e \<le> t)"

definition cache_inv :: "chunk_cache \<Rightarrow> bool" where
  "cache_inv c \<longleftrightarrow>
     entries_ok (cc_tick c) (cc_entries c) \<and> cc_used_bytes c = table_bytes (cc_entries c) \<and>
     cc_used_bytes c \<le> cc_max_bytes c \<and> 0 < cc_last_nonzero_max_bytes c"

definition cache_lookup :: "chunk_cache \<Rightarrow> cache_key \<Rightarrow> bytes option" where
  "cache_lookup c k = map_option ce_data (map_of (cc_entries c) k)"

lemma table_bytes_simps [simp]:
  "table_bytes [] = 0" "table_bytes (x # es) = length (ce_data (snd x)) + table_bytes es"
  by (auto simp: table_bytes_def case_prod_beta)

lemma table_bytes_delete:
  "distinct (map fst es) \<Longrightarrow> map_of es k = Some e \<Longrightarrow>
     table_bytes (AList.delete k es) + length (ce_data e) = table_bytes es"
  by (induction es) auto

lemma table_bytes_update:
  "distinct (map fst es) \<Longrightarrow>
     table_bytes (AList.update k e es) = table_bytes (AList.delete k es) + length (ce_data e)"
  by (induction es) auto

lemma table_bytes_filter:
  "table_bytes (filter P es) + table_bytes (filter (\<lambda>x. \<not> P x) es) = table_bytes es"
  by (induction es) auto

lemma set_update_subset: "set (AList.update k e es) \<subseteq> insert (k, e) (set es)"
  by (induction es) auto

lemma entries_ok_Nil [simp]: "entries_ok t []"
  by (simp add: entries_ok_def)

lemma entries_ok_filter: "entries_ok t es \<Longrightarrow> entries_ok t (filter P es)"
  by (auto simp: entries_ok_def distinct_map intro: inj_on_subset)

lemma entries_ok_delete: "entries_ok t es \<Longrightarrow> entries_ok t (AList.delete k es)"
  by (simp add: AList.delete_eq entries_ok_filter)

lemma entries_ok_mono: "entries_ok t es \<Longrightarrow> t \<le> t' \<Longrightarrow> entries_ok t' es"
  by (auto simp: entries_ok_def intro: order_trans)

lemma entries_ok_update:
  assumes "entries_ok t es" and "t < ce_tick e"
  shows "entries_ok (ce_tick e) (AList.update k e es)"
proof -
  have "distinct (map (\<lambda>x. ce_tick (snd x)) (AList.update k e es))"
    using assms unfolding entries_ok_def
  proof (induction es)
    case (Cons x es)
    then have IH: "distinct (map (\<lambda>x. ce_tick (snd x)) (AList.update k e es))" by auto
    have "ce_tick (snd x) \<le> t" "ce_tick (snd x) \<notin> (\<lambda>x. ce_tick (snd x)) ` set es"
      "ce_tick e \<notin> (\<lambda>x. ce_tick (snd x)) ` set es"
      using Cons.prems by auto
    moreover have "(\<lambda>x. ce_tick (snd x)) ` set (AList.update k e es) \<subseteq> insert (ce_tick e) ((\<lambda>x. ce_tick (snd x)) ` set es)"
      using set_update_subset [of k e es] by auto
    ultimately show ?case
      using IH Cons.prems by (cases x) auto
  qed simp
  moreover have "ce_tick e' \<le> ce_tick e" if "(k', e') \<in> set (AList.update k e es)" for k' e'
    using that set_update_subset [of k e es] assms by (fastforce simp: entries_ok_def)
  ultimately show ?thesis
    using assms by (auto simp: entries_ok_def distinct_update)
qed

section \<open>Eviction\<close>

text \<open>
  \<open>kept\<close> is what eviction leaves of \<open>es\<close>: a consistent subset, within the budget or empty, all
  of it used more recently than anything that was dropped.
\<close>

definition kept :: "nat \<Rightarrow> nat \<Rightarrow> nat \<Rightarrow> ('k \<times> cache_entry) list \<Rightarrow> ('k \<times> cache_entry) list \<times> nat \<Rightarrow> bool" where
  "kept t size' max' es r \<longleftrightarrow>
     (case r of (es', used') \<Rightarrow>
        entries_ok t es' \<and> used' = table_bytes es' \<and> set es' \<subseteq> set es \<and>
        (es' = [] \<or> used' + size' \<le> max') \<and>
        (\<forall>x \<in> set es - set es'. \<forall>y \<in> set es'. ce_tick (snd x) < ce_tick (snd y)))"

lemma entries_ok_tick_inj:
  "entries_ok t es \<Longrightarrow> x \<in> set es \<Longrightarrow> y \<in> set es \<Longrightarrow> ce_tick (snd x) = ce_tick (snd y) \<Longrightarrow> x = y"
  by (auto simp: entries_ok_def distinct_map inj_on_def)

lemma set_delete: "set (AList.delete k es) = {x \<in> set es. fst x \<noteq> k}"
  by (auto simp: AList.delete_eq)

lemma set_insert_delete:
  "distinct (map fst es) \<Longrightarrow> (k, e) \<in> set es \<Longrightarrow> set es = insert (k, e) (set (AList.delete k es))"
  by (auto simp: set_delete dest: eq_key_imp_eq_value)

lemma kept_insert:
  assumes "kept t size' max' es r" and "set es0 = insert v (set es)"
    and "\<forall>y \<in> set es. ce_tick (snd v) < ce_tick (snd y)"
  shows "kept t size' max' es0 r"
proof -
  obtain es' used' where r: "r = (es', used')" by fastforce
  have "ce_tick (snd x) < ce_tick (snd y)" if "x \<in> set es0 - set es'" "y \<in> set es'" for x y
    using that assms unfolding r kept_def by auto
  then show ?thesis
    using assms unfolding r kept_def by auto
qed

lemma evict_until_kept:
  assumes "entries_ok t es" and "used = table_bytes es"
  shows "kept t size' max' es (evict_until size' max' (es, used))"
  using assms
proof (induction "length es" arbitrary: es used rule: less_induct)
  case less
  show ?case
  proof (cases "used + size' > max' \<and> es \<noteq> []")
    case False
    then have "evict_until size' max' (es, used) = (es, used)"
      by (subst evict_until.simps) simp
    with False less.prems show ?thesis
      by (auto simp: kept_def)
  next
    case True
    then obtain k e where v: "lru_victim es = Some (k, e)"
      by (cases "lru_victim es") auto
    let ?es = "AList.delete k es"
    note V = lru_victim_Some [OF v]
    have m: "map_of es k = Some e"
      using V less.prems by (auto simp: entries_ok_def)
    have len: "length ?es < length es"
      using V by (auto simp: AList.delete_eq intro!: length_filter_less)
    have "used - length (ce_data e) = table_bytes ?es"
      using table_bytes_delete [OF _ m] less.prems by (auto simp: entries_ok_def)
    then have IH: "kept t size' max' ?es (evict_until size' max' (?es, used - length (ce_data e)))"
      using less.hyps [OF len entries_ok_delete [OF less.prems(1)]] by simp
    have older: "ce_tick e < ce_tick (snd y)" if "y \<in> set ?es" for y
    proof -
      have "y \<in> set es" "fst y \<noteq> k"
        using that by (auto simp: set_delete)
      moreover from this have "ce_tick e \<noteq> ce_tick (snd y)"
        using V entries_ok_tick_inj [OF less.prems(1), of "(k, e)" y] by (metis fst_conv snd_conv)
      ultimately show ?thesis
        using V by (simp add: le_neq_implies_less)
    qed
    have ins: "set es = insert (k, e) (set ?es)"
      using V less.prems(1) by (intro set_insert_delete) (simp_all add: entries_ok_def)
    have "evict_until size' max' (es, used) = evict_until size' max' (?es, used - length (ce_data e))"
      by (subst evict_until.simps) (simp add: True v)
    then show ?thesis
      using kept_insert [OF IH ins] older by simp
  qed
qed

lemma kept_lookup:
  assumes "kept t size' max' es (es', used')" and "entries_ok t es" and "map_of es' k = Some e"
  shows "map_of es k = Some e"
proof -
  have "(k, e) \<in> set es"
    using assms(1) map_of_SomeD [OF assms(3)] by (auto simp: kept_def)
  then show ?thesis
    using assms(2) by (simp add: entries_ok_def)
qed

section \<open>Every operation keeps the invariant\<close>

lemma cache_new_inv: "cache_inv (cache_new n)"
  by (simp add: cache_inv_def cache_new_def default_cache_max_def)

lemma cache_clear_inv: "cache_inv c \<Longrightarrow> cache_inv (cache_clear c)"
  by (simp add: cache_inv_def cache_clear_def)

lemma cache_set_max_bytes_inv: "cache_inv c \<Longrightarrow> cache_inv (cache_set_max_bytes n c)"
  using evict_until_kept [of "cc_tick c" "cc_entries c" "cc_used_bytes c" 0 n]
  by (auto simp: cache_inv_def cache_set_max_bytes_def kept_def Let_def split: prod.splits)

lemma cache_enable_inv: "cache_inv c \<Longrightarrow> cache_inv (cache_enable b c)"
  by (simp add: cache_enable_def cache_set_max_bytes_inv cache_clear_inv Let_def)

lemma cache_disable_inv: "cache_inv c \<Longrightarrow> cache_inv (cache_disable c)"
  by (simp add: cache_disable_def cache_set_max_bytes_inv)

lemma cache_remove_eq:
  assumes "entries_ok n (cc_entries c)" and "cc_used_bytes c = table_bytes (cc_entries c)"
  shows "cache_remove k c =
    c\<lparr>cc_entries := AList.delete k (cc_entries c),
      cc_used_bytes := table_bytes (AList.delete k (cc_entries c))\<rparr>"
proof (cases "map_of (cc_entries c) k")
  case None
  then have "AList.delete k (cc_entries c) = cc_entries c"
    by (simp add: map_of_eq_None_iff)
  with None assms(2) show ?thesis
    by (simp add: cache_remove_def)
next
  case (Some e)
  with assms show ?thesis
    using table_bytes_delete [OF _ Some] by (simp add: cache_remove_def entries_ok_def)
qed

lemma table_bytes_delete_le: "table_bytes (AList.delete k es) \<le> table_bytes es"
  by (induction es) auto

lemma cache_remove_inv: "cache_inv c \<Longrightarrow> cache_inv (cache_remove k c)"
  using table_bytes_delete_le [of k "cc_entries c"]
  by (auto simp: cache_inv_def cache_remove_eq entries_ok_delete)

lemma cache_invalidate_inv: "cache_inv c \<Longrightarrow> cache_inv (cache_invalidate v i c)"
  by (simp add: cache_invalidate_def cache_remove_inv)

lemma cache_invalidate_volume_inv:
  assumes "cache_inv c"
  shows "cache_inv (cache_invalidate_volume v c)"
proof -
  have "table_bytes (filter (\<lambda>(k, e). fst k = v) (cc_entries c)) +
      table_bytes (filter (\<lambda>(k, e). fst k \<noteq> v) (cc_entries c)) = cc_used_bytes c"
    using table_bytes_filter [of "\<lambda>(k, e). fst k = v" "cc_entries c"] assms
    by (simp add: cache_inv_def case_prod_unfold)
  then show ?thesis
    using assms
    by (auto simp: cache_inv_def cache_invalidate_volume_def Let_def table_bytes_def [symmetric] entries_ok_filter)
qed

lemma cache_get_inv:
  assumes "cache_inv c"
  shows "cache_inv (snd (cache_get v i c))"
proof (cases "map_of (cc_entries c) (v, i)")
  case None
  then show ?thesis
    using assms entries_ok_mono [of "cc_tick c" "cc_entries c" "Suc (cc_tick c)"]
    by (simp add: cache_get_def cache_inv_def Let_def)
next
  case (Some e)
  have "table_bytes (AList.update (v, i) (e\<lparr>ce_tick := Suc (cc_tick c)\<rparr>) (cc_entries c)) =
      table_bytes (cc_entries c)"
    using assms table_bytes_delete [OF _ Some]
    by (auto simp: cache_inv_def entries_ok_def table_bytes_update)
  moreover have "entries_ok (Suc (cc_tick c))
      (AList.update (v, i) (e\<lparr>ce_tick := Suc (cc_tick c)\<rparr>) (cc_entries c))"
    using assms entries_ok_update [of "cc_tick c" "cc_entries c" "e\<lparr>ce_tick := Suc (cc_tick c)\<rparr>"]
    by (simp add: cache_inv_def)
  ultimately show ?thesis
    using Some assms by (simp add: cache_get_def cache_inv_def Let_def)
qed

text \<open>\<open>put\<close> in two steps: make room, then insert when the chunk fits the budget at all.\<close>

definition put_room :: "chunk_cache \<Rightarrow> cache_key \<Rightarrow> nat \<Rightarrow> cache_table \<times> nat" where
  "put_room c k n =
     (let es = AList.delete k (cc_entries c) in evict_until n (cc_max_bytes c) (es, table_bytes es))"

lemma put_room_kept:
  "cache_inv c \<Longrightarrow>
     kept (cc_tick c) n (cc_max_bytes c) (AList.delete k (cc_entries c)) (put_room c k n)"
  by (simp add: put_room_def Let_def evict_until_kept entries_ok_delete cache_inv_def)

lemma cache_put_eq:
  assumes "cache_inv c" and "put_room c (v, i) (length data) = (es, used)"
  shows "cache_put v i data c =
      (if length data \<le> cc_max_bytes c
       then c\<lparr>cc_tick := Suc (cc_tick c), cc_used_bytes := used + length data,
              cc_entries := AList.update (v, i) \<lparr>ce_data = data, ce_tick = Suc (cc_tick c)\<rparr> es\<rparr>
       else c\<lparr>cc_tick := Suc (cc_tick c), cc_entries := es, cc_used_bytes := used\<rparr>)"
proof -
  have "cache_remove (v, i) (c\<lparr>cc_tick := cc_tick c + 1\<rparr>) =
    c\<lparr>cc_tick := Suc (cc_tick c), cc_entries := AList.delete (v, i) (cc_entries c),
      cc_used_bytes := table_bytes (AList.delete (v, i) (cc_entries c))\<rparr>"
    using assms(1) by (subst cache_remove_eq [where n = "cc_tick c"]) (simp_all add: cache_inv_def)
  then show ?thesis
    using assms(2) by (simp add: cache_put_def put_room_def Let_def)
qed

lemma cache_put_inv:
  assumes "cache_inv c"
  shows "cache_inv (cache_put v i data c)"
proof -
  obtain es used where r: "put_room c (v, i) (length data) = (es, used)" by fastforce
  have k: "kept (cc_tick c) (length data) (cc_max_bytes c) (AList.delete (v, i) (cc_entries c)) (es, used)"
    using put_room_kept [OF assms, of "length data" "(v, i)"] r by simp
  then have ok: "entries_ok (cc_tick c) es" and ub: "used = table_bytes es"
    and fresh: "(v, i) \<notin> fst ` set es" and fit: "es = [] \<or> used + length data \<le> cc_max_bytes c"
    by (auto simp: kept_def set_delete)
  have "entries_ok (Suc (cc_tick c)) (AList.update (v, i) \<lparr>ce_data = data, ce_tick = Suc (cc_tick c)\<rparr> es)"
    using entries_ok_update [OF ok, of "\<lparr>ce_data = data, ce_tick = Suc (cc_tick c)\<rparr>"] by simp
  moreover have "table_bytes (AList.update (v, i) \<lparr>ce_data = data, ce_tick = Suc (cc_tick c)\<rparr> es) =
      used + length data"
    using ok fresh ub by (simp add: table_bytes_update entries_ok_def)
  moreover have "used \<le> cc_max_bytes c"
    using fit ub by auto
  ultimately show ?thesis
    unfolding cache_put_eq [OF assms r]
    using assms fit ub entries_ok_mono [OF ok, of "Suc (cc_tick c)"] by (auto simp: cache_inv_def)
qed

section \<open>What a lookup returns\<close>

lemma cache_get_fst: "fst (cache_get v i c) = cache_lookup c (v, i)"
  by (auto simp: cache_get_def cache_lookup_def Let_def split: option.splits)

lemma cache_get_lookup [simp]: "cache_lookup (snd (cache_get v i c)) k = cache_lookup c k"
  by (auto simp: cache_get_def cache_lookup_def Let_def update_conv' split: option.splits)

lemma cache_put_same:
  assumes "cache_inv c"
  shows "cache_lookup (cache_put v i data c) (v, i) =
     (if length data \<le> cc_max_bytes c then Some data else None)"
proof -
  obtain es used where r: "put_room c (v, i) (length data) = (es, used)" by fastforce
  have "(v, i) \<notin> fst ` set es"
    using put_room_kept [OF assms, of "length data" "(v, i)", unfolded r]
    by (auto simp: kept_def set_delete)
  then have "map_of es (v, i) = None"
    by (simp add: map_of_eq_None_iff)
  then show ?thesis
    unfolding cache_put_eq [OF assms r] by (simp add: cache_lookup_def update_conv')
qed

lemma cache_put_other:
  assumes "cache_inv c" and "k \<noteq> (v, i)" and "cache_lookup (cache_put v i data c) k = Some x"
  shows "cache_lookup c k = Some x"
proof -
  obtain es used where r: "put_room c (v, i) (length data) = (es, used)" by fastforce
  have "map_of es k = Some e \<Longrightarrow> map_of (cc_entries c) k = Some e" for e
    using kept_lookup [OF put_room_kept [OF assms(1), of "length data" "(v, i)", unfolded r], of k e] assms(1,2)
    by (simp add: cache_inv_def entries_ok_delete)
  then show ?thesis
    using assms(2,3) unfolding cache_put_eq [OF assms(1) r]
    by (auto simp: cache_lookup_def update_conv' split: if_splits)
qed

lemma cache_remove_lookup:
  "cache_lookup (cache_remove k c) k' = (if k' = k then None else cache_lookup c k')"
  by (auto simp: cache_remove_def cache_lookup_def delete_conv' split: option.splits)

lemma cache_invalidate_lookup:
  "cache_lookup (cache_invalidate v i c) k = (if k = (v, i) then None else cache_lookup c k)"
  by (simp add: cache_invalidate_def cache_remove_lookup)

lemma cache_invalidate_volume_lookup:
  "cache_lookup (cache_invalidate_volume v c) k = (if fst k = v then None else cache_lookup c k)"
proof -
  have "map_of (filter (\<lambda>(k, e). fst k \<noteq> v) es) k = (if fst k = v then None else map_of es k)"
    for es :: cache_table
    by (induction es) auto
  then show ?thesis
    by (simp add: cache_invalidate_volume_def cache_lookup_def Let_def)
qed

lemma cache_clear_lookup [simp]: "cache_lookup (cache_clear c) k = None"
  by (simp add: cache_clear_def cache_lookup_def)

lemmas cache_op_inv =
  cache_new_inv cache_clear_inv cache_set_max_bytes_inv cache_enable_inv cache_disable_inv
  cache_remove_inv cache_invalidate_inv cache_invalidate_volume_inv cache_get_inv cache_put_inv

end
