(* ===== verification/CachedStore.thy ===== *)
theory CachedStore
  imports MemoryStore ChunkCache
begin

text \<open>
  \<open>CachedStore<S>\<close> of \<open>src/cache.rs\<close>: the write-through chunk cache in front of an inner store,
  and the I/O lock that \<open>lock_io\<close> sets for migrations and snapshots. The operations take the inner
  store as a dictionary \<open>B\<close>, as the Rust code takes it as a type parameter. \<open>cached_rep\<close> says
  that every cached chunk of this volume equals the inner disk; the wrapper then implements the
  contract of the inner store. The pool is shared: entries of other volumes are left alone.
\<close>

section \<open>State and operations\<close>

record 's cached_store =
  cst_inner :: 's
  cst_cache :: chunk_cache
  cst_volume :: string
  cst_hits :: nat
  cst_misses :: nat
  cst_io_locked :: bool

definition cached_new :: "'s \<Rightarrow> chunk_cache \<Rightarrow> string \<Rightarrow> 's cached_store" where
  "cached_new inner cache volume =
     \<lparr>cst_inner = inner, cst_cache = cache, cst_volume = volume, cst_hits = 0, cst_misses = 0,
      cst_io_locked = False\<rparr>"

definition cached_lock_io :: "'s cached_store \<Rightarrow> 's cached_store" where
  "cached_lock_io s =
     s\<lparr>cst_io_locked := True, cst_cache := cache_invalidate_volume (cst_volume s) (cst_cache s)\<rparr>"

definition cached_unlock_io :: "'s cached_store \<Rightarrow> 's cached_store" where
  "cached_unlock_io s = s\<lparr>cst_io_locked := False\<rparr>"

definition ensure_unlocked :: "'s cached_store \<Rightarrow> unit result" where
  "ensure_unlocked s =
     (if cst_io_locked s then
        Err (Other (''volume '' @ cst_volume s @
          '' is locked (migration in progress); wait for migrate-cow to finish''))
      else Ok ())"

definition on_inner :: "('s, 'a) op \<Rightarrow> ('s cached_store, 'a) op" where
  "on_inner m s = (case m (cst_inner s) of (r, i) \<Rightarrow> (r, s\<lparr>cst_inner := i\<rparr>))"

definition load_miss :: "('s, 'm) store_ops_scheme \<Rightarrow> nat \<Rightarrow> ('s cached_store, bytes) op" where
  "load_miss B chunk_idx s =
     (let chunk_size = bs_chunk_size B (cst_inner s);
          offset = wrap_mul chunk_idx chunk_size;
          capacity = bs_capacity B (cst_inner s)
      in if offset \<ge> capacity then (Err (OutOfRange offset chunk_size capacity), s)
         else bind_op (on_inner (bs_read_at B offset (min (capacity - offset) chunk_size)))
           (\<lambda>p s2.
              let buf = patch (zeros chunk_size) 0 p
              in (Ok buf, s2\<lparr>cst_cache := cache_put (cst_volume s2) chunk_idx buf (cst_cache s2)\<rparr>))
           s)"

definition load_cached :: "('s, 'm) store_ops_scheme \<Rightarrow> nat \<Rightarrow> ('s cached_store, bytes) op" where
  "load_cached B chunk_idx s =
     (case cache_get (cst_volume s) chunk_idx (cst_cache s) of
        (Some data, c) \<Rightarrow> (Ok data, s\<lparr>cst_cache := c, cst_hits := cst_hits s + 1\<rparr>)
      | (None, c) \<Rightarrow> load_miss B chunk_idx (s\<lparr>cst_cache := c, cst_misses := cst_misses s + 1\<rparr>))"

definition load_chunk :: "('s, 'm) store_ops_scheme \<Rightarrow> nat \<Rightarrow> ('s cached_store, bytes) op" where
  "load_chunk B chunk_idx s = guard_op (ensure_unlocked s) (load_cached B chunk_idx) s"

definition cached_fetch ::
  "('s, 'm) store_ops_scheme \<Rightarrow> nat \<Rightarrow> nat \<Rightarrow> nat \<Rightarrow> nat \<Rightarrow> ('s cached_store, bytes) op" where
  "cached_fetch B idx within pos tk =
     bind_op (load_chunk B idx)
       (\<lambda>chunk. case sub_slice chunk within tk of Some p \<Rightarrow> ret_op p | None \<Rightarrow> panic_op)"

definition cached_read_at :: "('s, 'm) store_ops_scheme \<Rightarrow> nat \<Rightarrow> nat \<Rightarrow> ('s cached_store, bytes) op" where
  "cached_read_at B offset n s =
     guard_op (ensure_unlocked s)
       (guard_op (check_range (bs_capacity B (cst_inner s)) offset n)
         (read_loop (bs_chunk_size B (cst_inner s)) (cached_fetch B) offset n 0 (zeros n))) s"

definition cached_update_piece :: "nat \<Rightarrow> nat \<Rightarrow> nat \<Rightarrow> bytes \<Rightarrow> ('s cached_store, unit) op" where
  "cached_update_piece idx within pos p s =
     (case cache_get (cst_volume s) idx (cst_cache s) of
        (Some cached, c) \<Rightarrow>
          if within + length p \<le> length cached
          then (Ok (), s\<lparr>cst_cache := cache_put (cst_volume s) idx (patch cached within p) c\<rparr>)
          else (Panic, s\<lparr>cst_cache := c\<rparr>)
      | (None, c) \<Rightarrow> (Ok (), s\<lparr>cst_cache := cache_invalidate (cst_volume s) idx c\<rparr>))"

definition cached_write_at :: "('s, 'm) store_ops_scheme \<Rightarrow> nat \<Rightarrow> bytes \<Rightarrow> ('s cached_store, unit) op" where
  "cached_write_at B offset data s =
     guard_op (ensure_unlocked s)
       (bind_op (on_inner (bs_write_at B offset data))
         (\<lambda>_ s1. write_loop (bs_chunk_size B (cst_inner s1)) cached_update_piece offset data 0 s1)) s"

definition cached_set_capacity :: "('s, 'm) store_ops_scheme \<Rightarrow> nat \<Rightarrow> ('s cached_store, unit) op" where
  "cached_set_capacity B new_capacity s =
     guard_op (ensure_unlocked s) (on_inner (bs_set_capacity B new_capacity)) s"

definition cached_flush :: "('s, 'm) store_ops_scheme \<Rightarrow> ('s cached_store, unit) op" where
  "cached_flush B s = guard_op (ensure_unlocked s) (on_inner (bs_flush B)) s"

definition cached_present_chunks :: "('s, 'm) store_ops_scheme \<Rightarrow> ('s cached_store, nat list) op" where
  "cached_present_chunks B s = guard_op (ensure_unlocked s) (on_inner (bs_present_chunks B)) s"

definition cached_delete_chunk :: "('s, 'm) store_ops_scheme \<Rightarrow> nat \<Rightarrow> ('s cached_store, unit) op" where
  "cached_delete_chunk B index s =
     guard_op (ensure_unlocked s)
       (bind_op (on_inner (bs_delete_chunk B index))
         (\<lambda>_ s1. (Ok (), s1\<lparr>cst_cache := cache_invalidate (cst_volume s1) index (cst_cache s1)\<rparr>))) s"

definition cached_ops :: "('s, 'm) store_ops_scheme \<Rightarrow> 's cached_store store_ops" where
  "cached_ops B =
     \<lparr>bs_read_at = cached_read_at B, bs_write_at = cached_write_at B,
      bs_capacity = (\<lambda>s. bs_capacity B (cst_inner s)), bs_set_capacity = cached_set_capacity B,
      bs_flush = cached_flush B, bs_block_size = (\<lambda>s. bs_block_size B (cst_inner s)),
      bs_chunk_size = (\<lambda>s. bs_chunk_size B (cst_inner s)),
      bs_present_chunks = cached_present_chunks B, bs_delete_chunk = cached_delete_chunk B\<rparr>"

lemma cached_ops_sel [simp]:
  "bs_read_at (cached_ops B) = cached_read_at B" "bs_write_at (cached_ops B) = cached_write_at B"
  "bs_capacity (cached_ops B) = (\<lambda>s. bs_capacity B (cst_inner s))"
  "bs_set_capacity (cached_ops B) = cached_set_capacity B"
  "bs_flush (cached_ops B) = cached_flush B"
  "bs_block_size (cached_ops B) = (\<lambda>s. bs_block_size B (cst_inner s))"
  "bs_chunk_size (cached_ops B) = (\<lambda>s. bs_chunk_size B (cst_inner s))"
  "bs_present_chunks (cached_ops B) = cached_present_chunks B"
  "bs_delete_chunk (cached_ops B) = cached_delete_chunk B"
  by (simp_all add: cached_ops_def)

section \<open>Coherence\<close>

definition cache_agrees :: "nat \<Rightarrow> string \<Rightarrow> (nat \<Rightarrow> byte) \<Rightarrow> chunk_cache \<Rightarrow> bool" where
  "cache_agrees cs v d c \<longleftrightarrow>
     cache_inv c \<and> (\<forall>i x. cache_lookup c (v, i) = Some x \<longrightarrow> x = disk_read d (i * cs) cs)"

definition cached_rep ::
  "((nat \<Rightarrow> byte) \<Rightarrow> geometry \<Rightarrow> 's \<Rightarrow> bool) \<Rightarrow> (nat \<Rightarrow> byte) \<Rightarrow> geometry \<Rightarrow> 's cached_store \<Rightarrow> bool" where
  "cached_rep R d g s \<longleftrightarrow>
     R d g (cst_inner s) \<and> cache_agrees (g_chunk g) (cst_volume s) d (cst_cache s)"

text \<open>The same with the volume's lock state fixed; the lock is not touched by block I/O.\<close>

definition cached_rep_at ::
  "bool \<Rightarrow> ((nat \<Rightarrow> byte) \<Rightarrow> geometry \<Rightarrow> 's \<Rightarrow> bool) \<Rightarrow> (nat \<Rightarrow> byte) \<Rightarrow> geometry \<Rightarrow> 's cached_store \<Rightarrow> bool" where
  "cached_rep_at l R d g s \<longleftrightarrow> cached_rep R d g s \<and> cst_io_locked s = l"

lemma cache_agrees_get: "cache_agrees cs v d c \<Longrightarrow> cache_agrees cs v d (snd (cache_get v' i c))"
  by (simp add: cache_agrees_def cache_get_inv)

lemma cache_agrees_invalidate: "cache_agrees cs v d c \<Longrightarrow> cache_agrees cs v d (cache_invalidate v' i c)"
  by (simp add: cache_agrees_def cache_invalidate_inv cache_invalidate_lookup)

lemma cache_agrees_put:
  assumes "cache_agrees cs v d c" and "x = disk_read d (i * cs) cs"
  shows "cache_agrees cs v d (cache_put v i x c)"
  unfolding cache_agrees_def
proof (intro conjI allI impI)
  show "cache_inv (cache_put v i x c)"
    using assms(1) by (simp add: cache_agrees_def cache_put_inv)
  fix j y assume "cache_lookup (cache_put v i x c) (v, j) = Some y"
  then show "y = disk_read d (j * cs) cs"
    using assms cache_put_same [of c v i x] cache_put_other [of c "(v, j)" v i x y]
    by (cases "j = i") (auto simp: cache_agrees_def split: if_splits)
qed

lemma cache_agrees_change:
  assumes "cache_agrees cs v d c" and "cache_lookup c (v, i) = None"
    and "\<And>k. k div cs \<noteq> i \<Longrightarrow> d' k = d k"
  shows "cache_agrees cs v d' c"
  unfolding cache_agrees_def
proof (intro conjI allI impI)
  show "cache_inv c" using assms(1) by (simp add: cache_agrees_def)
  fix j x assume look: "cache_lookup c (v, j) = Some x"
  with assms(2) have "j \<noteq> i" by auto
  then have "disk_read d' (j * cs) cs = disk_read d (j * cs) cs"
    using assms(3) chunk_of_range [of j cs] by (intro disk_read_cong) metis
  then show "x = disk_read d' (j * cs) cs"
    using assms(1) look by (simp add: cache_agrees_def)
qed

lemma cache_agrees_put_fresh:
  assumes "cache_inv c" and "cache_agrees cs v d (cache_remove (v, i) c)" and "x = disk_read d (i * cs) cs"
  shows "cache_agrees cs v d (cache_put v i x c)"
  unfolding cache_agrees_def
proof (intro conjI allI impI)
  show "cache_inv (cache_put v i x c)"
    using assms(1) by (rule cache_put_inv)
  fix j y assume "cache_lookup (cache_put v i x c) (v, j) = Some y"
  then show "y = disk_read d (j * cs) cs"
    using assms cache_put_same [of c v i x] cache_put_other [of c "(v, j)" v i x y]
    by (cases "j = i") (auto simp: cache_agrees_def cache_remove_lookup split: if_splits)
qed

lemma on_inner_hoare:
  assumes "hoare (R d g) m (\<lambda>a. Q a) E"
    and "\<And>a s i. cached_rep_at l R d g s \<Longrightarrow> Q a i \<Longrightarrow> Q' a (s\<lparr>cst_inner := i\<rparr>)"
    and "\<And>s i. cached_rep_at l R d g s \<Longrightarrow> E i \<Longrightarrow> E' (s\<lparr>cst_inner := i\<rparr>)"
  shows "hoare (cached_rep_at l R d g) (on_inner m) Q' E'"
  unfolding hoare_def
proof (intro allI impI)
  fix s assume rep: "cached_rep_at l R d g s"
  then have "post Q E (m (cst_inner s))"
    using assms(1) by (simp add: hoare_def cached_rep_at_def cached_rep_def)
  then show "post Q' E' (on_inner m s)"
    using assms(2,3) rep by (cases "m (cst_inner s)"; cases "fst (m (cst_inner s))") (auto simp: on_inner_def)
qed

lemma hoare_guard_unlocked:
  assumes "\<not> l \<Longrightarrow> hoare (cached_rep_at l R d g) m Q E"
    and "\<And>s. l \<Longrightarrow> cached_rep_at l R d g s \<Longrightarrow> E s"
  shows "hoare (cached_rep_at l R d g) (\<lambda>s. guard_op (ensure_unlocked s) m s) Q E"
  unfolding hoare_def
proof (intro allI impI)
  fix s assume rep: "cached_rep_at l R d g s"
  then have "cst_io_locked s = l"
    by (simp add: cached_rep_at_def)
  then show "post Q E (guard_op (ensure_unlocked s) m s)"
    using assms rep by (cases l) (auto simp: guard_op_def ensure_unlocked_def hoare_def)
qed

section \<open>The wrapper keeps the contract\<close>

text \<open>
  \<open>fails\<close> says whether inner reads may fail: it is true for any inner store, and false for a
  reliable one.
\<close>

context block_store
begin

lemma load_chunk_hoare:
  assumes rd: "\<And>off n. off + n \<le> g_cap g \<Longrightarrow>
      hoare (Rep d g) (bs_read_at B off n) (\<lambda>p s. p = disk_read d off n \<and> Rep d g s) (\<lambda>s. fails \<and> Rep d g s)"
    and idx: "idx * g_chunk g < g_cap g"
  shows "hoare (cached_rep_at l Rep d g) (load_chunk B idx)
    (\<lambda>c s. c = disk_read d (idx * g_chunk g) (g_chunk g) \<and> cached_rep_at l Rep d g s)
    (\<lambda>s. (fails \<or> l) \<and> cached_rep_at l Rep d g s)"
  unfolding load_chunk_def
proof (rule hoare_guard_unlocked)
  let ?cs = "g_chunk g" let ?off = "idx * g_chunk g" let ?n = "min (g_cap g - idx * g_chunk g) (g_chunk g)"
  let ?Q = "\<lambda>c s. c = disk_read d ?off ?cs \<and> cached_rep_at l Rep d g s"
  let ?E = "\<lambda>s. (fails \<or> l) \<and> cached_rep_at l Rep d g s"
  have inner: "hoare (cached_rep_at l Rep d g) (on_inner (bs_read_at B ?off ?n))
      (\<lambda>p s. p = disk_read d ?off ?n \<and> cached_rep_at l Rep d g s) ?E"
    by (rule on_inner_hoare [where R = Rep and d = d and g = g, OF rd])
      (use idx in \<open>auto simp: cached_rep_at_def cached_rep_def\<close>)
  have buf: "patch (zeros ?cs) 0 (disk_read d ?off ?n) = disk_read d ?off ?cs"
    if "Rep d g i" for i
    by (rule nth_equalityI) (use beyond [OF that] in \<open>auto simp: patch_nth\<close>)
  have miss: "hoare (cached_rep_at l Rep d g)
      (bind_op (on_inner (bs_read_at B ?off ?n))
        (\<lambda>p s2. let buf = patch (zeros ?cs) 0 p
           in (Ok buf, s2\<lparr>cst_cache := cache_put (cst_volume s2) idx buf (cst_cache s2)\<rparr>))) ?Q ?E"
    by (rule hoare_bind [OF inner])
      (auto simp: hoare_def Let_def cached_rep_at_def cached_rep_def buf intro: cache_agrees_put)
  show "hoare (cached_rep_at l Rep d g) (load_cached B idx) ?Q ?E"
    unfolding hoare_def
  proof (intro allI impI)
    fix s assume rep: "cached_rep_at l Rep d g s"
    let ?s = "s\<lparr>cst_cache := snd (cache_get (cst_volume s) idx (cst_cache s)), cst_misses := cst_misses s + 1\<rparr>"
    have R: "Rep d g (cst_inner s)" and agr: "cache_agrees ?cs (cst_volume s) d (cst_cache s)"
      using rep by (auto simp: cached_rep_at_def cached_rep_def)
    have s': "cached_rep_at l Rep d g ?s"
      using rep by (simp add: cached_rep_at_def cached_rep_def cache_agrees_get)
    have g: "bs_chunk_size B (cst_inner s) = ?cs" "bs_capacity B (cst_inner s) = g_cap g"
      "wrap_mul idx ?cs = ?off"
      using geom [OF R] cap_bound [OF R] idx by auto
    obtain o' c where get: "cache_get (cst_volume s) idx (cst_cache s) = (o', c)" by fastforce
    show "post ?Q ?E (load_cached B idx s)"
    proof (cases o')
      case None
      then show ?thesis
        using hoare_post [OF miss s'] idx by (simp add: get g load_cached_def load_miss_def Let_def)
    next
      case (Some x)
      then have "x = disk_read d ?off ?cs"
        using agr cache_get_fst [of "cst_volume s" idx "cst_cache s"] get by (simp add: cache_agrees_def)
      with Some s' show ?thesis
        by (simp add: get cached_rep_at_def cached_rep_def load_cached_def)
    qed
  qed
qed simp

lemma cached_fetch_hoare:
  assumes "\<And>off n. off + n \<le> g_cap g \<Longrightarrow>
      hoare (Rep d g) (bs_read_at B off n) (\<lambda>p s. p = disk_read d off n \<and> Rep d g s) (\<lambda>s. fails \<and> Rep d g s)"
    and "in_piece (g_chunk g) off n idx w a t" and "off + n \<le> g_cap g"
  shows "hoare (cached_rep_at l Rep d g) (cached_fetch B idx w a t)
    (\<lambda>p s. p = disk_read d a t \<and> cached_rep_at l Rep d g s)
    (\<lambda>s. (fails \<or> l) \<and> cached_rep_at l Rep d g s)"
proof -
  have pc: "a = idx * g_chunk g + w" "w + t \<le> g_chunk g" "idx * g_chunk g < g_cap g"
    using assms(2,3) by (auto simp: in_piece_def)
  show ?thesis
    unfolding cached_fetch_def
    by (rule hoare_bind [OF load_chunk_hoare [OF assms(1) pc(3)]])
      (use pc in \<open>auto simp: hoare_def ret_op_def\<close>)
qed

lemma cached_read_hoare:
  assumes "\<And>off n. off + n \<le> g_cap g \<Longrightarrow>
      hoare (Rep d g) (bs_read_at B off n) (\<lambda>p s. p = disk_read d off n \<and> Rep d g s) (\<lambda>s. fails \<and> Rep d g s)"
  shows "hoare (cached_rep_at l Rep d g) (cached_read_at B off n)
    (\<lambda>p s. off + n \<le> g_cap g \<and> p = disk_read d off n \<and> cached_rep_at l Rep d g s)
    (\<lambda>s. (fails \<or> l \<or> \<not> off + n \<le> g_cap g) \<and> cached_rep_at l Rep d g s)"
  unfolding hoare_def
proof (intro allI impI)
  fix s assume rep: "cached_rep_at l Rep d g s"
  then have R: "Rep d g (cst_inner s)" by (simp add: cached_rep_at_def cached_rep_def)
  let ?Q = "\<lambda>p s. off + n \<le> g_cap g \<and> p = disk_read d off n \<and> cached_rep_at l Rep d g s"
  let ?E = "\<lambda>s. (fails \<or> l \<or> \<not> off + n \<le> g_cap g) \<and> cached_rep_at l Rep d g s"
  have "hoare (cached_rep_at l Rep d g) (guard_op (check_range (g_cap g) off n)
      (read_loop (g_chunk g) (cached_fetch B) off n 0 (zeros n))) ?Q ?E"
  proof (rule hoare_guard_range [OF cap_bound [OF R]])
    assume "off + n \<le> g_cap g"
    then show "hoare (cached_rep_at l Rep d g)
        (read_loop (g_chunk g) (cached_fetch B) off n 0 (zeros n)) ?Q ?E"
      using chunk_pos' [OF R]
      by (intro hoare_conseq [OF read_loop_whole [OF _ cached_fetch_hoare [OF assms]]]) auto
  qed auto
  then have "hoare (cached_rep_at l Rep d g) (\<lambda>s. guard_op (ensure_unlocked s)
      (guard_op (check_range (g_cap g) off n)
        (read_loop (g_chunk g) (cached_fetch B) off n 0 (zeros n))) s) ?Q ?E"
    by (intro hoare_guard_unlocked) auto
  from hoare_post [OF this rep] show "post ?Q ?E (cached_read_at B off n s)"
    using geom [OF R] by (simp add: cached_read_at_def)
qed

text \<open>
  The loop after a write, seen by the cache alone: the inner store already holds the new disk
  \<open>D\<close> while the cache still has to follow, chunk by chunk.
\<close>

lemma cached_update_piece_hoare:
  assumes "in_piece (g_chunk g) off n idx w a (length p)"
  shows "hoare (\<lambda>s. Rep D g (cst_inner s) \<and> cst_io_locked s = l \<and>
        cache_agrees (g_chunk g) (cst_volume s) d (cst_cache s))
      (cached_update_piece idx w a p)
      (\<lambda>_ s. Rep D g (cst_inner s) \<and> cst_io_locked s = l \<and>
        cache_agrees (g_chunk g) (cst_volume s) (disk_write d a p) (cst_cache s))
      (\<lambda>_. False)"
  unfolding hoare_def
proof (intro allI impI, elim conjE)
  fix s :: "'s cached_store" let ?cs = "g_chunk g" let ?v = "cst_volume s"
  assume rep: "Rep D g (cst_inner s)" "cst_io_locked s = l"
    and agr: "cache_agrees ?cs ?v d (cst_cache s)"
  have pc: "a = idx * ?cs + w" "w + length p \<le> ?cs"
    using assms by (auto simp: in_piece_def)
  obtain o' c where get: "cache_get ?v idx (cst_cache s) = (o', c)" by fastforce
  have agr': "cache_agrees ?cs ?v d c"
    using cache_agrees_get [OF agr, of ?v idx] get by simp
  have o': "o' = cache_lookup c (?v, idx)"
    using cache_get_fst [of ?v idx "cst_cache s"] cache_get_lookup [of ?v idx "cst_cache s" "(?v, idx)"] get by simp
  have out: "disk_write d a p k = d k" if "k div ?cs \<noteq> idx" for k
    using that pc chunk_of_range [of idx ?cs k] by (intro disk_write_outside) linarith
  show "post (\<lambda>_ s. Rep D g (cst_inner s) \<and> cst_io_locked s = l \<and>
        cache_agrees ?cs (cst_volume s) (disk_write d a p) (cst_cache s)) (\<lambda>_. False)
      (cached_update_piece idx w a p s)"
  proof (cases o')
    case None
    have "cache_agrees ?cs ?v (disk_write d a p) (cache_invalidate ?v idx c)"
      by (rule cache_agrees_change [OF cache_agrees_invalidate [OF agr'], where i = idx])
        (simp_all add: cache_invalidate_lookup out)
    with None rep show ?thesis
      by (simp add: cached_update_piece_def get)
  next
    case (Some x)
    then have x: "x = disk_read d (idx * ?cs) ?cs"
      using agr' o' by (simp add: cache_agrees_def)
    have "patch x w p = disk_read (disk_write d a p) (idx * ?cs) ?cs"
      using pc by (simp add: x patch_disk_read)
    moreover have "cache_agrees ?cs ?v (disk_write d a p) (cache_remove (?v, idx) c)"
      by (rule cache_agrees_change [OF cache_agrees_invalidate [OF agr', unfolded cache_invalidate_def], where i = idx])
        (simp_all add: cache_remove_lookup out)
    ultimately have "cache_agrees ?cs ?v (disk_write d a p) (cache_put ?v idx (patch x w p) c)"
      using agr' by (intro cache_agrees_put_fresh) (simp_all add: cache_agrees_def)
    with Some rep x pc show ?thesis
      by (simp add: cached_update_piece_def get)
  qed
qed

lemma cached_write_hoare:
  assumes wr: "hoare (Rep d g) (bs_write_at B off data)
      (\<lambda>_ s. off + length data \<le> g_cap g \<and> Rep (disk_write d off data) g s) E"
    and E: "\<And>s i. cached_rep_at l Rep d g s \<Longrightarrow> \<not> l \<Longrightarrow> E i \<Longrightarrow> E' (s\<lparr>cst_inner := i\<rparr>)"
    and L: "\<And>s. l \<Longrightarrow> cached_rep_at l Rep d g s \<Longrightarrow> E' s"
  shows "hoare (cached_rep_at l Rep d g) (cached_write_at B off data)
    (\<lambda>_ s. off + length data \<le> g_cap g \<and> cached_rep_at l Rep (disk_write d off data) g s) E'"
  unfolding cached_write_at_def
proof (rule hoare_guard_unlocked)
  let ?D = "disk_write d off data"
  let ?P = "\<lambda>d' (s :: 's cached_store). Rep ?D g (cst_inner s) \<and> cst_io_locked s = l \<and>
      cache_agrees (g_chunk g) (cst_volume s) d' (cst_cache s)"
  assume l: "\<not> l"
  have inner: "hoare (cached_rep_at l Rep d g) (on_inner (bs_write_at B off data))
      (\<lambda>_ s. off + length data \<le> g_cap g \<and> ?P d s) E'"
    by (rule on_inner_hoare [where R = Rep and d = d and g = g, OF wr])
      (use E l in \<open>auto simp: cached_rep_at_def cached_rep_def\<close>)
  have loop: "hoare (?P d) (\<lambda>s. write_loop (bs_chunk_size B (cst_inner s)) cached_update_piece off data 0 s)
      (\<lambda>_. ?P ?D) (\<lambda>_. False)"
    unfolding hoare_def
  proof (intro allI impI)
    fix s :: "'s cached_store" assume P: "?P d s"
    then have cs: "bs_chunk_size B (cst_inner s) = g_chunk g" "0 < g_chunk g"
      using geom chunk_pos' by auto
    have "hoare (?P d) (write_loop (g_chunk g) cached_update_piece off data 0) (\<lambda>_. ?P ?D) (\<lambda>_. False)"
      by (rule write_loop_total [OF cs(2)]) (rule cached_update_piece_hoare)
    from hoare_post [OF this P] show "post (\<lambda>_. ?P ?D) (\<lambda>_. False)
        (write_loop (bs_chunk_size B (cst_inner s)) cached_update_piece off data 0 s)"
      by (simp add: cs)
  qed
  show "hoare (cached_rep_at l Rep d g)
     (bind_op (on_inner (bs_write_at B off data))
       (\<lambda>_ s1. write_loop (bs_chunk_size B (cst_inner s1)) cached_update_piece off data 0 s1))
     (\<lambda>_ s. off + length data \<le> g_cap g \<and> cached_rep_at l Rep ?D g s) E'"
  proof (rule hoare_bind [OF inner], cases "off + length data \<le> g_cap g")
    case True
    show "hoare (\<lambda>s. off + length data \<le> g_cap g \<and> ?P d s)
        (\<lambda>s1. write_loop (bs_chunk_size B (cst_inner s1)) cached_update_piece off data 0 s1)
        (\<lambda>_ s. off + length data \<le> g_cap g \<and> cached_rep_at l Rep ?D g s) E'"
      by (rule hoare_conseq [OF loop]) (use True in \<open>auto simp: cached_rep_at_def cached_rep_def\<close>)
  qed (simp add: hoare_def)
qed (rule L)

lemma cached_delete_hoare:
  assumes del: "hoare (Rep d g) (bs_delete_chunk B idx) (\<lambda>_. Rep (clear_chunk (g_chunk g) d idx) g) E"
    and E: "\<And>s i. cached_rep_at l Rep d g s \<Longrightarrow> \<not> l \<Longrightarrow> E i \<Longrightarrow> E' (s\<lparr>cst_inner := i\<rparr>)"
    and L: "\<And>s. l \<Longrightarrow> cached_rep_at l Rep d g s \<Longrightarrow> E' s"
  shows "hoare (cached_rep_at l Rep d g) (cached_delete_chunk B idx)
    (\<lambda>_. cached_rep_at l Rep (clear_chunk (g_chunk g) d idx) g) E'"
  unfolding cached_delete_chunk_def
proof (rule hoare_guard_unlocked)
  let ?D = "clear_chunk (g_chunk g) d idx"
  let ?M = "\<lambda>s. Rep ?D g (cst_inner s) \<and> cst_io_locked s = l \<and>
      cache_agrees (g_chunk g) (cst_volume s) d (cst_cache s)"
  assume l: "\<not> l"
  have inner: "hoare (cached_rep_at l Rep d g) (on_inner (bs_delete_chunk B idx)) (\<lambda>_. ?M) E'"
    by (rule on_inner_hoare [where R = Rep and d = d and g = g, OF del])
      (use E l in \<open>auto simp: cached_rep_at_def cached_rep_def\<close>)
  have agr: "cache_agrees (g_chunk g) v ?D (cache_invalidate v idx c)"
    if "cache_agrees (g_chunk g) v d c" for v c
    by (rule cache_agrees_change [OF cache_agrees_invalidate [OF that], where i = idx])
      (simp_all add: cache_invalidate_lookup clear_chunk_def)
  show "hoare (cached_rep_at l Rep d g)
     (bind_op (on_inner (bs_delete_chunk B idx))
       (\<lambda>_ s1. (Ok (), s1\<lparr>cst_cache := cache_invalidate (cst_volume s1) idx (cst_cache s1)\<rparr>)))
     (\<lambda>_. cached_rep_at l Rep ?D g) E'"
    by (rule hoare_bind [OF inner]) (auto simp: hoare_def cached_rep_at_def cached_rep_def agr)
qed (rule L)

lemma cached_pass_hoare:
  assumes "hoare (Rep d g) m Q E"
    and "\<And>a s i. cached_rep_at l Rep d g s \<Longrightarrow> Q a i \<Longrightarrow> Q' a (s\<lparr>cst_inner := i\<rparr>)"
    and "\<And>s i. cached_rep_at l Rep d g s \<Longrightarrow> \<not> l \<Longrightarrow> E i \<Longrightarrow> E' (s\<lparr>cst_inner := i\<rparr>)"
    and "\<And>s. l \<Longrightarrow> cached_rep_at l Rep d g s \<Longrightarrow> E' s"
  shows "hoare (cached_rep_at l Rep d g) (\<lambda>s. guard_op (ensure_unlocked s) (on_inner m) s) Q' E'"
  by (rule hoare_guard_unlocked, rule on_inner_hoare [where R = Rep and d = d and g = g, OF assms(1)])
    (use assms(2-4) in auto)

lemma cached_rep_inner: "cached_rep_at l Rep d g s \<Longrightarrow> Rep d g i \<Longrightarrow> cached_rep_at l Rep d g (s\<lparr>cst_inner := i\<rparr>)"
  by (simp add: cached_rep_at_def cached_rep_def)

lemma cached_rep_resize:
  "cached_rep_at l Rep d g s \<Longrightarrow> Rep d (g\<lparr>g_cap := c\<rparr>) i \<Longrightarrow>
     cached_rep_at l Rep d (g\<lparr>g_cap := c\<rparr>) (s\<lparr>cst_inner := i\<rparr>)"
  by (simp add: cached_rep_at_def cached_rep_def)

lemma cached_block_store: "block_store (cached_ops B) (cached_rep_at l Rep) adm"
proof (unfold_locales, goal_cases)
  case (1 d g s)
  then show ?case using geom [of d g "cst_inner s"] by (simp add: cached_rep_at_def cached_rep_def)
next
  case (2 d g s)
  then show ?case using wf by (auto simp: cached_rep_at_def cached_rep_def)
next
  case (3 d g off n)
  have "hoare (Rep d g) (bs_read_at B off n) (\<lambda>p s. p = disk_read d off n \<and> Rep d g s) (\<lambda>s. True \<and> Rep d g s)" for off n
    by (rule hoare_conseq [OF read_at]) auto
  from cached_read_hoare [OF this, of l off n] show ?case
    by (simp, elim hoare_conseq) auto
next
  case (4 g d off bs)
  then show ?case using cached_write_hoare [OF write_at [OF 4]] by simp
next
  case (5 c d g)
  show ?case
    unfolding cached_ops_sel cached_set_capacity_def
    by (rule cached_pass_hoare [OF set_capacity [OF 5]]) (auto intro: cached_rep_inner cached_rep_resize)
next
  case (6 d g)
  show ?case
    unfolding cached_ops_sel cached_flush_def
    by (rule cached_pass_hoare [OF flush]) (auto intro: cached_rep_inner)
next
  case (7 d g)
  show ?case
    unfolding cached_ops_sel cached_present_chunks_def
    by (rule cached_pass_hoare [OF present]) (auto intro: cached_rep_inner)
next
  case (8 idx d g)
  show ?case using cached_delete_hoare [OF delete [OF 8]] by simp
qed

end

context atomic_block_store
begin

lemma write_unchanged:
  "adm_write adm (g_chunk g) d off bs \<Longrightarrow> hoare (Rep d g) (bs_write_at B off bs)
     (\<lambda>_ s. off + length bs \<le> g_cap g \<and> Rep (disk_write d off bs) g s) (Rep d g)"
  by (rule hoare_conseq [OF hoare_and [OF write_at write_atomic]]) auto

lemma delete_unchanged:
  "idx < 2 ^ 64 \<Longrightarrow> hoare (Rep d g) (bs_delete_chunk B idx) (\<lambda>_. Rep (clear_chunk (g_chunk g) d idx) g) (Rep d g)"
  by (rule hoare_conseq [OF hoare_and [OF delete delete_atomic]]) auto

lemma cached_atomic_store: "atomic_block_store (cached_ops B) (cached_rep_at l Rep) adm"
proof (intro atomic_block_store.intro torn_block_store.intro cached_block_store, unfold_locales, goal_cases)
  case (1 g d off bs)
  show ?case
    by (rule hoare_conseq [OF cached_write_hoare [OF write_unchanged [OF 1], where E' = "cached_rep_at l Rep d g"],
          folded cached_ops_sel]) (auto intro: cached_rep_inner torn_refl)
next
  case (2 d g)
  show ?case
    unfolding cached_ops_sel cached_flush_def
    by (rule cached_pass_hoare [OF flush_torn]) (auto intro: cached_rep_inner)
next
  case (3 idx d g)
  show ?case
    by (rule hoare_conseq [OF cached_delete_hoare [OF delete_unchanged [OF 3], where E' = "cached_rep_at l Rep d g"],
          folded cached_ops_sel]) (auto intro: cached_rep_inner same_outside_refl)
next
  case (4 c d g)
  show ?case
    unfolding cached_ops_sel cached_set_capacity_def
    by (rule cached_pass_hoare [OF resize_torn [OF 4]]) (auto intro: cached_rep_inner)
next
  case (5 g d off bs)
  show ?case
    by (rule hoare_conseq [OF cached_write_hoare [OF write_unchanged [OF 5], where E' = "cached_rep_at l Rep d g"],
          folded cached_ops_sel]) (auto intro: cached_rep_inner)
next
  case (6 idx d g)
  show ?case
    by (rule hoare_conseq [OF cached_delete_hoare [OF delete_unchanged [OF 6], where E' = "cached_rep_at l Rep d g"],
          folded cached_ops_sel]) (auto intro: cached_rep_inner)
qed

end

context reliable_block_store
begin

lemma cached_reliable_store: "reliable_block_store (cached_ops B) (cached_rep_at False Rep) adm"
proof (rule reliable_block_store.intro [OF cached_block_store], unfold_locales, goal_cases)
  case (1 off n g d)
  have "hoare (Rep d g) (bs_read_at B off n) (\<lambda>p s. p = disk_read d off n \<and> Rep d g s) (\<lambda>s. False \<and> Rep d g s)"
    if "off + n \<le> g_cap g" for off n
    by (rule hoare_conseq [OF read_total [OF that]]) auto
  from cached_read_hoare [OF this, of False off n] 1 show ?case
    by (simp, elim hoare_conseq) auto
next
  case (2 off bs g d)
  have "hoare (Rep d g) (bs_write_at B off bs)
      (\<lambda>_ s. off + length bs \<le> g_cap g \<and> Rep (disk_write d off bs) g s) (\<lambda>_. False)"
    by (rule hoare_conseq [OF write_total [OF 2]]) (use 2 in auto)
  from cached_write_hoare [OF this, where l = False and E' = "\<lambda>_. False"] show ?case
    by (simp, elim hoare_conseq) auto
next
  case (3 d g)
  show ?case
    unfolding cached_ops_sel cached_flush_def
    by (rule cached_pass_hoare [OF flush_ok]) auto
next
  case (4 d g)
  show ?case
    unfolding cached_ops_sel cached_present_chunks_def
    by (rule cached_pass_hoare [OF present_ok]) auto
next
  case (5 idx d g)
  show ?case
    by (rule hoare_conseq [OF cached_delete_hoare [OF delete_total [OF 5], where l = False and E' = "\<lambda>_. False"],
          folded cached_ops_sel]) auto
qed

end

section \<open>The lock, and the wrapper over a memory store\<close>

lemma cached_new_rep:
  assumes "R d g i" and "cache_inv c" and "\<And>k. cache_lookup c (v, k) = None"
  shows "cached_rep_at False R d g (cached_new i c v)"
  using assms by (simp add: cached_rep_at_def cached_rep_def cached_new_def cache_agrees_def)

lemma cached_lock_rep: "cached_rep_at l R d g s \<Longrightarrow> cached_rep_at True R d g (cached_lock_io s)"
  by (simp add: cached_rep_at_def cached_rep_def cached_lock_io_def cache_agrees_def
      cache_invalidate_volume_inv cache_invalidate_volume_lookup)

lemma cached_unlock_rep: "cached_rep_at l R d g s \<Longrightarrow> cached_rep_at False R d g (cached_unlock_io s)"
  by (simp add: cached_rep_at_def cached_rep_def cached_unlock_io_def)

text \<open>
  While the lock is held an operation beneath the wrapper may change the inner disk (restore,
  migration): the emptied cache agrees with whatever disk it leaves.
\<close>

lemma cached_locked_swap:
  assumes "cache_inv (cst_cache s)" and "R d' g' i"
  shows "cached_rep_at True R d' g' ((cached_lock_io s)\<lparr>cst_inner := i\<rparr>)"
  using assms by (simp add: cached_rep_at_def cached_rep_def cached_lock_io_def cache_agrees_def
      cache_invalidate_volume_inv cache_invalidate_volume_lookup)

interpretation cmem: reliable_block_store "cached_ops memory_ops" "cached_rep_at False memory_rep" "\<lambda>_. True"
  by (rule mem.cached_reliable_store)

interpretation cmem: atomic_block_store "cached_ops memory_ops" "cached_rep_at False memory_rep" "\<lambda>_. True"
  by (rule mem.cached_atomic_store)

end
