(* ===== verification/Codec.thy ===== *)
theory Codec
  imports Prelude
begin

text \<open>
  The number formats of the program: fixed-width hexadecimal (\<open>format!("{:016x}")\<close>,
  \<open>format!("{:02x}")\<close>, \<open>format!("{:016X}")\<close>), \<open>from_str_radix(_, 16)\<close> with what it really
  accepts (upper case and a leading plus sign), and big-endian byte arrays (\<open>to_be_bytes\<close>,
  \<open>from_be_bytes\<close>). A width is enough for the integer type printed with it (16 digits for
  \<open>u64\<close>, 2 for \<open>u8\<close>), so the formats never widen. Strings are lists of bytes, written as
  \<open>string\<close>.
\<close>

section \<open>Hexadecimal\<close>

definition hex_digit :: "nat \<Rightarrow> char" where
  "hex_digit n = char_of (if n < 10 then 48 + n else 87 + n)"

definition hex_digit_upper :: "nat \<Rightarrow> char" where
  "hex_digit_upper n = char_of (if n < 10 then 48 + n else 55 + n)"

fun hex_fixed :: "(nat \<Rightarrow> char) \<Rightarrow> nat \<Rightarrow> nat \<Rightarrow> string" where
  "hex_fixed dg 0 n = []"
| "hex_fixed dg (Suc w) n = hex_fixed dg w (n div 16) @ [dg (n mod 16)]"

definition to_digit16 :: "char \<Rightarrow> nat option" where
  "to_digit16 c =
     (let k = of_char c :: nat in
      if 48 \<le> k \<and> k \<le> 57 then Some (k - 48)
      else if 97 \<le> k \<and> k \<le> 102 then Some (k - 87)
      else if 65 \<le> k \<and> k \<le> 70 then Some (k - 55)
      else None)"

definition is_ascii_hexdigit :: "char \<Rightarrow> bool" where
  "is_ascii_hexdigit c \<longleftrightarrow> to_digit16 c \<noteq> None"

text \<open>\<open>digits_val\<close> accumulates with the overflow check of \<open>from_str_radix\<close>.\<close>

fun digits_val :: "nat \<Rightarrow> nat \<Rightarrow> string \<Rightarrow> nat option" where
  "digits_val lim acc [] = Some acc"
| "digits_val lim acc (c # cs) =
     (case to_digit16 c of
        None \<Rightarrow> None
      | Some v \<Rightarrow> if acc * 16 + v < lim then digits_val lim (acc * 16 + v) cs else None)"

definition from_str_radix16 :: "nat \<Rightarrow> string \<Rightarrow> nat option" where
  "from_str_radix16 lim s =
     (case s of
        [] \<Rightarrow> None
      | c # cs \<Rightarrow>
          if c = CHR ''+'' then (if cs = [] then None else digits_val lim 0 cs)
          else digits_val lim 0 s)"

lemma length_hex_fixed [simp]: "length (hex_fixed dg w n) = w"
  by (induction w arbitrary: n) auto

lemma to_digit16_hex_digit [simp]: "n < 16 \<Longrightarrow> to_digit16 (hex_digit n) = Some n"
  by (simp add: to_digit16_def hex_digit_def Let_def of_char_of take_bit_eq_mod)

lemma to_digit16_hex_digit_upper [simp]: "n < 16 \<Longrightarrow> to_digit16 (hex_digit_upper n) = Some n"
  by (simp add: to_digit16_def hex_digit_upper_def Let_def of_char_of take_bit_eq_mod)

lemma to_digit16_less: "to_digit16 c = Some v \<Longrightarrow> v < 16"
  by (auto simp: to_digit16_def Let_def split: if_splits)

lemma to_digit16_none [simp]:
  "to_digit16 (CHR ''+'') = None" "to_digit16 (CHR ''/'') = None" "to_digit16 (CHR ''.'') = None"
  by (simp_all add: to_digit16_def)

definition hex_alphabet :: "(nat \<Rightarrow> char) \<Rightarrow> bool" where
  "hex_alphabet dg \<longleftrightarrow> (\<forall>n < 16. to_digit16 (dg n) = Some n)"

lemma hex_alphabets [simp]: "hex_alphabet hex_digit" "hex_alphabet hex_digit_upper"
  by (simp_all add: hex_alphabet_def)

lemma hex_fixed_digits: "hex_alphabet dg \<Longrightarrow> c \<in> set (hex_fixed dg w n) \<Longrightarrow> to_digit16 c \<noteq> None"
  by (induction w arbitrary: n) (auto simp: hex_alphabet_def)

lemma hex_fixed_notin:
  "hex_alphabet dg \<Longrightarrow> to_digit16 c = None \<Longrightarrow> c \<notin> set (hex_fixed dg w n)"
  using hex_fixed_digits by blast

lemma digits_val_append:
  "digits_val lim acc (xs @ ys) = (case digits_val lim acc xs of None \<Rightarrow> None | Some a \<Rightarrow> digits_val lim a ys)"
  by (induction xs arbitrary: acc) (auto split: option.splits)

lemma digits_val_hex_fixed:
  assumes "hex_alphabet dg" and "n < 16 ^ w" and "acc * 16 ^ w + n < lim"
  shows "digits_val lim acc (hex_fixed dg w n) = Some (acc * 16 ^ w + n)"
  using assms(2,3)
proof (induction w arbitrary: n)
  case (Suc w)
  have n: "n = n div 16 * 16 + n mod 16" by simp
  have le: "acc * 16 ^ w + n div 16 \<le> acc * 16 ^ Suc w + n" by simp
  have "digits_val lim acc (hex_fixed dg w (n div 16)) = Some (acc * 16 ^ w + n div 16)"
    using Suc.prems le by (intro Suc.IH) (auto simp: less_mult_imp_div_less mult.commute)
  moreover have "(acc * 16 ^ w + n div 16) * 16 + n mod 16 = acc * 16 ^ Suc w + n"
    by (simp add: algebra_simps)
  ultimately have "digits_val lim acc (hex_fixed dg w (n div 16) @ [dg (n mod 16)]) =
      (if acc * 16 ^ Suc w + n < lim then Some (acc * 16 ^ Suc w + n) else None)"
    using assms(1) unfolding digits_val_append hex_alphabet_def by simp
  then show ?case
    using Suc.prems(2) by simp
qed simp

lemma digits_val_less: "acc < lim \<Longrightarrow> digits_val lim acc cs = Some v \<Longrightarrow> v < lim"
  by (induction cs arbitrary: acc) (auto split: option.splits if_splits)

lemma from_str_radix16_less: "0 < lim \<Longrightarrow> from_str_radix16 lim s = Some v \<Longrightarrow> v < lim"
  using digits_val_less [of 0 lim]
  by (auto simp: from_str_radix16_def simp del: digits_val.simps split: list.splits if_splits)

theorem from_str_radix16_hex_fixed:
  assumes "hex_alphabet dg" and "n < 16 ^ w" and "n < lim" and "0 < w"
  shows "from_str_radix16 lim (hex_fixed dg w n) = Some n"
proof -
  obtain c cs where s: "hex_fixed dg w n = c # cs"
    using assms(4) length_hex_fixed [of dg w n] by (cases "hex_fixed dg w n") auto
  then have "c \<noteq> CHR ''+''"
    using hex_fixed_digits [OF assms(1), of c w n] by auto
  with s show ?thesis
    using digits_val_hex_fixed [OF assms(1,2), of 0 lim] assms(3) by (simp add: from_str_radix16_def)
qed

lemma hex_fixed_inject:
  assumes "hex_alphabet dg" and "m < 16 ^ w" and "n < 16 ^ w" and "hex_fixed dg w m = hex_fixed dg w n"
  shows "m = n"
proof -
  have "0 * 16 ^ w + m < Suc (m + n)" "0 * 16 ^ w + n < Suc (m + n)"
    by simp_all
  from digits_val_hex_fixed [OF assms(1,2) this(1)] digits_val_hex_fixed [OF assms(1,3) this(2)]
  show ?thesis
    unfolding assms(4) by (simp only: option.inject mult_zero_left add_0_left)
qed

text \<open>Decimal, for messages and S3 keys.\<close>

fun nat_str :: "nat \<Rightarrow> string" where
  "nat_str n = (if n < 10 then [char_of (48 + n)] else nat_str (n div 10) @ [char_of (48 + n mod 10)])"

declare nat_str.simps [simp del]

section \<open>Big-endian integers\<close>

fun be_bytes :: "nat \<Rightarrow> nat \<Rightarrow> bytes" where
  "be_bytes 0 n = []"
| "be_bytes (Suc k) n = be_bytes k (n div 256) @ [of_nat (n mod 256)]"

definition from_be_bytes :: "bytes \<Rightarrow> nat" where
  "from_be_bytes bs = foldl (\<lambda>acc b. acc * 256 + unat b) 0 bs"

lemma length_be_bytes [simp]: "length (be_bytes k n) = k"
  by (induction k arbitrary: n) auto

lemma unat_byte_less: "unat (b :: byte) < 256"
  using unsigned_less [of b] by simp

lemma unat_byte_of_nat [simp]: "n < 256 \<Longrightarrow> unat (of_nat n :: byte) = n"
  by (simp add: unat_of_nat)

lemma from_be_bytes_be_bytes: "n < 256 ^ k \<Longrightarrow> from_be_bytes (be_bytes k n) = n"
proof (induction k arbitrary: n)
  case (Suc k)
  then have "from_be_bytes (be_bytes k (n div 256)) = n div 256"
    by (intro Suc.IH) (simp add: less_mult_imp_div_less mult.commute)
  then show ?case by (simp add: from_be_bytes_def)
qed (simp add: from_be_bytes_def)

lemma from_be_bytes_snoc [simp]: "from_be_bytes (bs @ [b]) = from_be_bytes bs * 256 + unat b"
  by (simp add: from_be_bytes_def)

lemma from_be_bytes_less: "from_be_bytes bs < 256 ^ length bs"
proof (induction bs rule: rev_induct)
  case (snoc b bs)
  with unat_byte_less [of b] show ?case by simp
qed (simp add: from_be_bytes_def)

lemma be_bytes_from_be_bytes: "be_bytes (length bs) (from_be_bytes bs) = bs"
proof (induction bs rule: rev_induct)
  case (snoc b bs)
  with unat_byte_less [of b] show ?case by simp
qed simp

section \<open>Byte literals\<close>

definition str_bytes :: "string \<Rightarrow> bytes" where
  "str_bytes s = map of_char s"

lemma length_str_bytes [simp]: "length (str_bytes s) = length s"
  by (simp add: str_bytes_def)

end
