(* ===== verification/Compression.thy ===== *)
theory Compression
  imports Codec
begin

text \<open>
  \<open>src/compression.rs\<close> and \<open>src/storage_mode.rs\<close>: the framing of a compressed chunk. The
  compression libraries (\<open>lz4_flex\<close>, \<open>zstd\<close>, \<open>flate2\<close>) are the parameter \<open>codec_lib\<close>;
  \<open>codec_laws\<close> is what their documentation promises, that decompression inverts compression.
  The 32-bit length field of the frame is written out: \<open>encode_chunk\<close> truncates the length to 32
  bits, so a frame of a chunk of 4 GiB or more declares the wrong length.
\<close>

datatype compression = CNone | CLz4 | CZstd | CDeflate

datatype storage_mode = Legacy | Cow

fun storage_as_str :: "storage_mode \<Rightarrow> string" where
  "storage_as_str Legacy = ''legacy''"
| "storage_as_str Cow = ''cow''"

definition supports_snapshots :: "storage_mode \<Rightarrow> bool" where
  "supports_snapshots m \<longleftrightarrow> m = Cow"

record codec_lib =
  lz4_compress :: "bytes \<Rightarrow> bytes"
  lz4_decompress :: "bytes \<Rightarrow> string + bytes"
  zstd_compress :: "bytes \<Rightarrow> string + bytes"
  zstd_decompress :: "bytes \<Rightarrow> nat \<Rightarrow> string + bytes"
  deflate_write_all :: "bytes \<Rightarrow> string + unit"
  deflate_finish :: "bytes \<Rightarrow> string + bytes"
  deflate_decompress :: "bytes \<Rightarrow> string + bytes"

definition codec_laws :: "codec_lib \<Rightarrow> bool" where
  "codec_laws L \<longleftrightarrow>
     (\<forall>x. length x < 2 ^ 32 \<longrightarrow> lz4_decompress L (lz4_compress L x) = Inr x) \<and>
     (\<forall>x y. zstd_compress L x = Inr y \<longrightarrow> zstd_decompress L y (length x) = Inr x) \<and>
     (\<forall>x y. deflate_finish L x = Inr y \<longrightarrow> deflate_decompress L y = Inr x)"

text \<open>\<open>map_err\<close> into \<open>StoreError::Other\<close> with a prefix.\<close>

fun map_err_other :: "string \<Rightarrow> string + 'a \<Rightarrow> 'a result" where
  "map_err_other what (Inl e) = Err (Other (what @ e))"
| "map_err_other what (Inr a) = Ok a"

section \<open>Frames\<close>

fun compression_as_str :: "compression \<Rightarrow> string" where
  "compression_as_str CNone = ''none''"
| "compression_as_str CLz4 = ''lz4''"
| "compression_as_str CZstd = ''zstd''"
| "compression_as_str CDeflate = ''deflate''"

fun wire_id :: "compression \<Rightarrow> byte option" where
  "wire_id CNone = None"
| "wire_id CLz4 = Some 1"
| "wire_id CZstd = Some 2"
| "wire_id CDeflate = Some 3"

definition from_wire_id :: "byte \<Rightarrow> compression result" where
  "from_wire_id i =
     (if i = 1 then Ok CLz4 else if i = 2 then Ok CZstd else if i = 3 then Ok CDeflate
      else Err (Other (''unknown compression wire id '' @ nat_str (unat i))))"

definition chunk_magic :: bytes where
  "chunk_magic = str_bytes ''ISC3''"

definition header_len :: nat where
  "header_len = 10"

fun compress :: "codec_lib \<Rightarrow> compression \<Rightarrow> bytes \<Rightarrow> bytes result" where
  "compress L CNone data = Ok data"
| "compress L CLz4 data = Ok (lz4_compress L data)"
| "compress L CZstd data = map_err_other ''zstd compress: '' (zstd_compress L data)"
| "compress L CDeflate data =
     (case deflate_write_all L data of
        Inl e \<Rightarrow> Err (Other (''deflate compress: '' @ e))
      | Inr _ \<Rightarrow> map_err_other ''deflate finish: '' (deflate_finish L data))"

fun decompress :: "codec_lib \<Rightarrow> compression \<Rightarrow> bytes \<Rightarrow> nat \<Rightarrow> bytes result" where
  "decompress L CNone data n = Ok data"
| "decompress L CLz4 data n = map_err_other ''lz4 decompress: '' (lz4_decompress L data)"
| "decompress L CZstd data n = map_err_other ''zstd decompress: '' (zstd_decompress L data n)"
| "decompress L CDeflate data n = map_err_other ''deflate decompress: '' (deflate_decompress L data)"

definition encode_chunk :: "codec_lib \<Rightarrow> compression \<Rightarrow> bytes \<Rightarrow> bytes result" where
  "encode_chunk L algo plaintext =
     (if algo = CNone then Ok plaintext
      else case compress L algo plaintext of
        Err e \<Rightarrow> Err e
      | Panic \<Rightarrow> Panic
      | Ok compressed \<Rightarrow>
          (case wire_id algo of
             None \<Rightarrow> Panic
           | Some i \<Rightarrow>
               Ok (chunk_magic @ [i] @ [0] @ be_bytes 4 (length plaintext mod 2 ^ 32) @ compressed)))"

definition decode_chunk :: "codec_lib \<Rightarrow> compression \<Rightarrow> bytes \<Rightarrow> nat \<Rightarrow> bytes result" where
  "decode_chunk L algo stored expected_len =
     (if algo = CNone then
        (if length stored \<noteq> expected_len then
           Err (S3 (''uncompressed chunk length '' @ nat_str (length stored) @ '', expected '' @ nat_str expected_len))
         else Ok stored)
      else if length stored < header_len \<or> take 4 stored \<noteq> chunk_magic then
        Err (S3 ''compressed chunk missing ISC3 header (geometry/compression mismatch?)'')
      else case from_wire_id (stored ! 4) of
        Err e \<Rightarrow> Err e
      | Panic \<Rightarrow> Panic
      | Ok wire_algo \<Rightarrow>
          if wire_algo \<noteq> algo then
            Err (S3 (''chunk compression '' @ [CHR 34] @ compression_as_str wire_algo @ [CHR 34] @
              '' != volume '' @ [CHR 34] @ compression_as_str algo @ [CHR 34]))
          else let uncomp_len = from_be_bytes (take 4 (drop 6 stored)) in
            if uncomp_len \<noteq> expected_len then
              Err (S3 (''compressed chunk declares length '' @ nat_str uncomp_len @ '', expected '' @ nat_str expected_len))
            else case decompress L algo (drop header_len stored) expected_len of
              Err e \<Rightarrow> Err e
            | Panic \<Rightarrow> Panic
            | Ok plain \<Rightarrow>
                if length plain \<noteq> expected_len then
                  Err (S3 (''decompressed length '' @ nat_str (length plain) @ '', expected '' @ nat_str expected_len))
                else Ok plain)"

section \<open>Round trip\<close>

lemma chunk_magic_length [simp]: "length chunk_magic = 4"
  by (simp add: chunk_magic_def)

lemma wire_id_roundtrip: "wire_id a = Some i \<Longrightarrow> from_wire_id i = Ok a"
  by (cases a) (auto simp: from_wire_id_def)

lemma wire_id_Some: "a \<noteq> CNone \<Longrightarrow> \<exists>i. wire_id a = Some i"
  by (cases a) auto

lemma decompress_compress:
  assumes "codec_laws L" and "compress L a x = Ok y" and "length x < 2 ^ 32"
  shows "decompress L a y (length x) = Ok x"
  using assms
  by (cases a; cases "zstd_compress L x"; cases "deflate_finish L x"; cases "deflate_write_all L x") (auto simp: codec_laws_def)

lemma encode_chunk_frame:
  assumes "a \<noteq> CNone" and "encode_chunk L a x = Ok f"
  obtains i y where "wire_id a = Some i" and "compress L a x = Ok y"
    and "f = chunk_magic @ [i, 0] @ be_bytes 4 (length x mod 2 ^ 32) @ y"
  using assms by (auto simp: encode_chunk_def split: result.splits option.splits)

lemma decode_encode_chunk:
  assumes "codec_laws L" and "encode_chunk L a x = Ok f" and "length x < 2 ^ 32"
  shows "decode_chunk L a f (length x) = Ok x"
proof (cases "a = CNone")
  case True
  with assms(2) show ?thesis by (simp add: encode_chunk_def decode_chunk_def)
next
  case False
  then obtain i y where i: "wire_id a = Some i" and y: "compress L a x = Ok y"
    and f: "f = chunk_magic @ [i, 0] @ be_bytes 4 (length x mod 2 ^ 32) @ y"
    using assms(2) by (rule encode_chunk_frame)
  have parts: "length f \<ge> header_len" "take 4 f = chunk_magic" "f ! 4 = i"
    "take 4 (drop 6 f) = be_bytes 4 (length x)" "drop header_len f = y"
    using assms(3) by (simp_all add: f header_len_def nth_append)
  then show ?thesis
    using False wire_id_roundtrip [OF i] decompress_compress [OF assms(1) y assms(3)] assms(3)
    by (simp add: decode_chunk_def Let_def from_be_bytes_be_bytes)
qed

lemma decode_chunk_length: "decode_chunk L a f n = Ok x \<Longrightarrow> length x = n"
  by (auto simp: decode_chunk_def Let_def split: if_splits result.splits)

lemma decode_chunk_no_panic: "decode_chunk L a f n \<noteq> Panic"
  by (cases a; cases "lz4_decompress L (drop header_len f)"; cases "zstd_decompress L (drop header_len f) n";
      cases "deflate_decompress L (drop header_len f)")
    (auto simp: decode_chunk_def Let_def from_wire_id_def split: result.splits)

lemma encode_chunk_no_panic: "encode_chunk L a x \<noteq> Panic"
  by (cases a; cases "zstd_compress L x"; cases "deflate_finish L x"; cases "deflate_write_all L x") (auto simp: encode_chunk_def)

text \<open>
  A compressed chunk of \<open>2 ^ 32\<close> bytes or more is written without an error and can never be read
  back: the declared length is the length modulo \<open>2 ^ 32\<close>.
\<close>

lemma decode_encode_big:
  assumes "a \<noteq> CNone" and "encode_chunk L a x = Ok f" and "2 ^ 32 \<le> length x"
  shows "\<exists>e. decode_chunk L a f (length x) = Err e"
proof -
  obtain i y where i: "wire_id a = Some i" and y: "compress L a x = Ok y"
    and f: "f = chunk_magic @ [i, 0] @ be_bytes 4 (length x mod 2 ^ 32) @ y"
    using assms(1,2) by (rule encode_chunk_frame)
  have parts: "length f \<ge> header_len" "take 4 f = chunk_magic" "f ! 4 = i"
    "take 4 (drop 6 f) = be_bytes 4 (length x mod 2 ^ 32)"
    by (simp_all add: f header_len_def nth_append)
  moreover have "length x mod 2 ^ 32 \<noteq> length x"
    using assms(3) mod_less_divisor [of "2 ^ 32" "length x"] by simp
  ultimately show ?thesis
    using assms(1) wire_id_roundtrip [OF i]
    by (simp add: decode_chunk_def Let_def from_be_bytes_be_bytes)
qed

end
