(* ===== verification/Snapshot.thy ===== *)
theory Snapshot
  imports Compression
begin

text \<open>
  \<open>src/snapshot.rs\<close>: the pointer object of a copy-on-write chunk, the hexadecimal object names
  with two directory levels, the snapshot manifest and the \<open>chunks.bin\<close> index. Each encoder is
  inverted by its decoder; the decoder of the index is total on any input except that a forged
  record count can exceed what \<open>Vec::with_capacity\<close> accepts, where Rust panics.
\<close>

section \<open>Constants and data\<close>

definition hash_len :: nat where "hash_len = 32"
definition snap_magic :: bytes where "snap_magic = str_bytes ''ISC3SNAP''"
definition snap_index_version :: nat where "snap_index_version = 1"
definition ptr_magic :: bytes where "ptr_magic = str_bytes ''ISCP''"
definition ptr_algo_blake3 :: byte where "ptr_algo_blake3 = 1"
definition ptr_len :: nat where "ptr_len = 4 + 1 + hash_len"

type_synonym hash = bytes

datatype snapshot_state = Creating | Ready | Deleting

record snapshot_manifest =
  sm_id :: string
  sm_created_at_unix :: nat
  sm_parent :: "string option"
  sm_source_volume :: string
  sm_capacity_bytes :: nat
  sm_chunk_size :: nat
  sm_block_size :: nat
  sm_compression :: compression
  sm_chunk_count :: nat
  sm_chunks_object :: string
  sm_hash_algo :: string
  sm_state :: snapshot_state
  sm_format_version :: nat

definition manifest_new_creating ::
  "nat \<Rightarrow> string \<Rightarrow> string \<Rightarrow> nat \<Rightarrow> nat \<Rightarrow> nat \<Rightarrow> compression \<Rightarrow> snapshot_manifest" where
  "manifest_new_creating now i source_volume capacity_bytes chunk_size block_size algo =
     \<lparr>sm_id = i, sm_created_at_unix = now, sm_parent = None, sm_source_volume = source_volume,
      sm_capacity_bytes = capacity_bytes, sm_chunk_size = chunk_size, sm_block_size = block_size,
      sm_compression = algo, sm_chunk_count = 0, sm_chunks_object = ''chunks.bin'',
      sm_hash_algo = ''blake3'', sm_state = Creating, sm_format_version = 1\<rparr>"

record chunk_ref =
  cr_index :: nat
  cr_hash :: hash

definition wf_ref :: "chunk_ref \<Rightarrow> bool" where
  "wf_ref r \<longleftrightarrow> cr_index r < 2 ^ 64 \<and> length (cr_hash r) = hash_len"

section \<open>Pointers\<close>

definition encode_pointer :: "hash \<Rightarrow> bytes" where
  "encode_pointer h = ptr_magic @ [ptr_algo_blake3] @ h"

definition decode_pointer :: "bytes \<Rightarrow> hash result" where
  "decode_pointer bytes =
     (if length bytes \<noteq> ptr_len then
        Err (Other (''invalid cow pointer length '' @ nat_str (length bytes)))
      else if take 4 bytes \<noteq> ptr_magic then Err (Other ''invalid cow pointer magic'')
      else if bytes ! 4 \<noteq> ptr_algo_blake3 then
        Err (Other (''unsupported pointer hash algo '' @ nat_str (unat (bytes ! 4))))
      else Ok (drop 5 bytes))"

section \<open>Object names\<close>

definition hash_hex :: "hash \<Rightarrow> string" where
  "hash_hex h = concat (map (\<lambda>b. hex_fixed hex_digit 2 (unat b)) h)"

definition shard_object_name :: "string \<Rightarrow> string" where
  "shard_object_name name =
     (if length name < 4 then name
      else take 2 name @ ''/'' @ take 2 (drop 2 name) @ ''/'' @ drop 4 name)"

definition object_relpath :: "hash \<Rightarrow> string" where
  "object_relpath h = shard_object_name (hash_hex h)"

definition split_sharded_name :: "string \<Rightarrow> (string \<times> string \<times> string) option" where
  "split_sharded_name rel =
     (if length rel < 6 \<or> rel ! 2 \<noteq> CHR ''/'' \<or> rel ! 5 \<noteq> CHR ''/'' then None
      else if CHR ''/'' \<in> set (drop 6 rel) then None
      else Some (take 2 rel, take 2 (drop 3 rel), drop 6 rel))"

text \<open>
  Rust slices a string only at character boundaries: a slice that would end inside a multi-byte
  character panics. A byte continues a character when it lies in \<open>0x80..0xBF\<close>.
\<close>

definition continues_char :: "char \<Rightarrow> bool" where
  "continues_char c \<longleftrightarrow> 128 \<le> (of_char c :: nat) \<and> (of_char c :: nat) < 192"

definition starts_at_boundary :: "string \<Rightarrow> bool" where
  "starts_at_boundary s \<longleftrightarrow> s = [] \<or> \<not> continues_char (hd s)"

fun parse_hex_pairs :: "nat \<Rightarrow> string \<Rightarrow> hash result" where
  "parse_hex_pairs 0 s = Ok []"
| "parse_hex_pairs (Suc n) s =
     (if \<not> starts_at_boundary (drop 2 s) then Panic
      else case from_str_radix16 256 (take 2 s) of
        None \<Rightarrow> Err (Other ''invalid blake3 hex: invalid digit found in string'')
      | Some v \<Rightarrow>
          (case parse_hex_pairs n (drop 2 s) of
             Ok h \<Rightarrow> Ok (of_nat v # h) | Err e \<Rightarrow> Err e | Panic \<Rightarrow> Panic))"

definition parse_hash_hex :: "string \<Rightarrow> hash result" where
  "parse_hash_hex s =
     (if length s \<noteq> hash_len * 2 then Err (Other (''invalid blake3 hex length '' @ nat_str (length s)))
      else parse_hex_pairs hash_len s)"

definition hash_from_object_relpath :: "string \<Rightarrow> hash option result" where
  "hash_from_object_relpath rel =
     (case split_sharded_name rel of
        None \<Rightarrow> Ok None
      | Some (a, b, rest) \<Rightarrow>
          (case parse_hash_hex (a @ b @ rest) of
             Ok h \<Rightarrow> Ok (Some h) | Err _ \<Rightarrow> Ok None | Panic \<Rightarrow> Panic))"

section \<open>The index \<open>chunks.bin\<close>\<close>

definition write_chunks_bin :: "chunk_ref list \<Rightarrow> bytes" where
  "write_chunks_bin refs =
     snap_magic @ be_bytes 4 snap_index_version @ be_bytes 8 (length refs) @
     concat (map (\<lambda>r. be_bytes 8 (cr_index r) @ cr_hash r) refs)"

definition read_exact :: "nat \<Rightarrow> string \<Rightarrow> bytes \<Rightarrow> (bytes \<times> bytes) result" where
  "read_exact n what bs =
     (if n \<le> length bs then Ok (take n bs, drop n bs)
      else Err (Other (what @ '': failed to fill whole buffer'')))"

fun read_refs :: "nat \<Rightarrow> bytes \<Rightarrow> chunk_ref list result" where
  "read_refs 0 bs = Ok []"
| "read_refs (Suc n) bs =
     (case read_exact 8 ''read chunk index'' bs of
        Err e \<Rightarrow> Err e | Panic \<Rightarrow> Panic
      | Ok (idx_buf, bs1) \<Rightarrow>
          (case read_exact hash_len ''read chunk hash'' bs1 of
             Err e \<Rightarrow> Err e | Panic \<Rightarrow> Panic
           | Ok (h, bs2) \<Rightarrow>
               (case read_refs n bs2 of
                  Err e \<Rightarrow> Err e | Panic \<Rightarrow> Panic
                | Ok rs \<Rightarrow> Ok (\<lparr>cr_index = from_be_bytes idx_buf, cr_hash = h\<rparr> # rs))))"

text \<open>A \<open>ChunkRef\<close> takes 40 bytes; \<open>Vec::with_capacity\<close> panics beyond \<open>isize::MAX\<close> bytes.\<close>

definition vec_capacity_ok :: "nat \<Rightarrow> bool" where
  "vec_capacity_ok count \<longleftrightarrow> count * 40 \<le> 2 ^ 63 - 1"

definition read_chunks_bin :: "bytes \<Rightarrow> chunk_ref list result" where
  "read_chunks_bin bs =
     (case read_exact 8 ''read chunks.bin magic'' bs of
        Err e \<Rightarrow> Err e | Panic \<Rightarrow> Panic
      | Ok (magic, bs1) \<Rightarrow>
        if magic \<noteq> snap_magic then Err (Other ''bad chunks.bin magic'')
        else case read_exact 4 ''read chunks.bin version'' bs1 of
          Err e \<Rightarrow> Err e | Panic \<Rightarrow> Panic
        | Ok (ver, bs2) \<Rightarrow>
          if from_be_bytes ver \<noteq> snap_index_version then
            Err (Other (''unsupported chunks.bin version '' @ nat_str (from_be_bytes ver)))
          else case read_exact 8 ''read chunks.bin count'' bs2 of
            Err e \<Rightarrow> Err e | Panic \<Rightarrow> Panic
          | Ok (count_buf, bs3) \<Rightarrow>
            if vec_capacity_ok (from_be_bytes count_buf) then read_refs (from_be_bytes count_buf) bs3
            else Panic)"

definition require_cow :: "storage_mode \<Rightarrow> string \<Rightarrow> string + unit" where
  "require_cow mode volume =
     (if supports_snapshots mode then Inr ()
      else Inl (''volume '' @ volume @ '' uses storage='' @ storage_as_str mode @
        ''; set storage='' @ [CHR 34] @ ''cow'' @ [CHR 34] @ '' (and migrate) to use snapshots''))"

section \<open>Round trips\<close>

lemma constants_length [simp]:
  "length ptr_magic = 4" "length snap_magic = 8" "hash_len = 32" "ptr_len = 37"
  by (simp_all add: ptr_magic_def snap_magic_def hash_len_def ptr_len_def)

lemma decode_encode_pointer: "length h = hash_len \<Longrightarrow> decode_pointer (encode_pointer h) = Ok h"
  by (simp add: decode_pointer_def encode_pointer_def nth_append)

lemma length_encode_pointer: "length h = hash_len \<Longrightarrow> length (encode_pointer h) = ptr_len"
  by (simp add: encode_pointer_def)

lemma decode_pointer_Ok:
  assumes "decode_pointer bs = Ok h"
  shows "bs = encode_pointer h" and "length h = hash_len"
proof -
  have len: "length bs = 37" and m: "take 4 bs = ptr_magic" and a: "bs ! 4 = ptr_algo_blake3"
    and h: "h = drop 5 bs"
    using assms by (auto simp: decode_pointer_def split: if_splits)
  have "bs = take 4 bs @ bs ! 4 # drop (Suc 4) bs"
    by (rule id_take_nth_drop) (simp add: len)
  then show "bs = encode_pointer h"
    by (simp add: encode_pointer_def m a h)
  show "length h = hash_len"
    using len h by simp
qed

lemma decode_pointer_no_panic: "decode_pointer bs \<noteq> Panic"
  by (simp add: decode_pointer_def)

lemma length_hash_hex [simp]: "length (hash_hex h) = 2 * length h"
  by (induction h) (auto simp: hash_hex_def)

lemma hash_hex_Cons: "hash_hex (b # h) = hex_fixed hex_digit 2 (unat b) @ hash_hex h"
  by (simp add: hash_hex_def)

lemma hash_hex_digits: "c \<in> set (hash_hex h) \<Longrightarrow> to_digit16 c \<noteq> None"
  using hex_fixed_digits [of hex_digit] by (auto simp: hash_hex_def)

lemma digit_boundary: "to_digit16 c \<noteq> None \<Longrightarrow> \<not> continues_char c"
  by (auto simp: to_digit16_def continues_char_def Let_def split: if_splits)

lemma hash_hex_boundary: "starts_at_boundary (hash_hex h)"
  using hash_hex_digits [of "hd (hash_hex h)" h] digit_boundary
  by (auto simp: starts_at_boundary_def)

lemma parse_hex_pairs_hash_hex: "parse_hex_pairs (length h) (hash_hex h) = Ok h"
proof (induction h)
  case (Cons b h)
  have "from_str_radix16 256 (hex_fixed hex_digit 2 (unat b)) = Some (unat b)"
    using unat_byte_less [of b] by (intro from_str_radix16_hex_fixed) auto
  then show ?case
    using Cons hash_hex_boundary by (simp add: hash_hex_Cons)
qed simp

lemma parse_hash_hex_hash_hex: "length h = hash_len \<Longrightarrow> parse_hash_hex (hash_hex h) = Ok h"
  using parse_hex_pairs_hash_hex [of h] by (simp add: parse_hash_hex_def)

lemma split_shard_object_name:
  assumes "4 \<le> length s" and "CHR ''/'' \<notin> set s"
  shows "split_sharded_name (shard_object_name s) = Some (take 2 s, take 2 (drop 2 s), drop 4 s)"
proof -
  have "CHR ''/'' \<notin> set (drop 4 s)"
    using assms(2) by (meson in_set_dropD)
  then show ?thesis
    using assms(1) by (simp add: shard_object_name_def split_sharded_name_def nth_append)
qed

lemma hash_from_object_relpath_inverse:
  assumes "length h = hash_len"
  shows "hash_from_object_relpath (object_relpath h) = Ok (Some h)"
proof -
  let ?s = "hash_hex h"
  have "CHR ''/'' \<notin> set ?s"
    using hash_hex_digits [of "CHR ''/''" h] by auto
  then have "split_sharded_name (object_relpath h) = Some (take 2 ?s, take 2 (drop 2 ?s), drop 4 ?s)"
    using assms by (simp add: object_relpath_def split_shard_object_name)
  moreover have "take 2 ?s @ take 2 (drop 2 ?s) @ drop 4 ?s = ?s"
    by (metis append_assoc append_take_drop_id drop_drop numeral_Bit0 take_add)
  ultimately show ?thesis
    using parse_hash_hex_hash_hex [OF assms] by (simp add: hash_from_object_relpath_def)
qed

lemma object_relpath_inject:
  "length h = hash_len \<Longrightarrow> length h' = hash_len \<Longrightarrow> object_relpath h = object_relpath h' \<longleftrightarrow> h = h'"
  by (metis hash_from_object_relpath_inverse option.inject result.inject(1))

lemma read_exact_append: "length a = n \<Longrightarrow> read_exact n w (a @ b) = Ok (a, b)"
  by (simp add: read_exact_def)

lemma read_refs_written:
  "\<forall>r \<in> set refs. wf_ref r \<Longrightarrow>
     read_refs (length refs) (concat (map (\<lambda>r. be_bytes 8 (cr_index r) @ cr_hash r) refs) @ rest) = Ok refs"
proof (induction refs)
  case (Cons r refs)
  then have "from_be_bytes (be_bytes 8 (cr_index r)) = cr_index r" "length (cr_hash r) = 32"
    by (auto simp: wf_ref_def intro!: from_be_bytes_be_bytes)
  with Cons show ?case
    by (simp add: read_exact_append)
qed simp

lemma read_write_chunks_bin:
  assumes "\<forall>r \<in> set refs. wf_ref r" and "vec_capacity_ok (length refs)"
  shows "read_chunks_bin (write_chunks_bin refs) = Ok refs"
proof -
  have "from_be_bytes (be_bytes 4 snap_index_version) = snap_index_version"
    by (rule from_be_bytes_be_bytes) (simp add: snap_index_version_def)
  moreover have "from_be_bytes (be_bytes 8 (length refs)) = length refs"
    using assms(2) by (intro from_be_bytes_be_bytes) (simp add: vec_capacity_ok_def)
  ultimately show ?thesis
    using read_refs_written [OF assms(1), of "[]"] assms(2)
    by (simp add: read_chunks_bin_def write_chunks_bin_def read_exact_append)
qed

lemma read_refs_wf: "read_refs n bs = Ok rs \<Longrightarrow> length rs = n \<and> (\<forall>r \<in> set rs. wf_ref r)"
proof (induction n arbitrary: bs rs)
  case (Suc n)
  then obtain rs' where rs: "rs = \<lparr>cr_index = from_be_bytes (take 8 bs), cr_hash = take 32 (drop 8 bs)\<rparr> # rs'"
    and "read_refs n (drop 32 (drop 8 bs)) = Ok rs'" and len: "8 \<le> length bs" "32 \<le> length bs - 8"
    by (auto simp: read_exact_def split: if_splits result.splits)
  moreover have "from_be_bytes (take 8 bs) < 2 ^ 64"
    using from_be_bytes_less [of "take 8 bs"] len(1) by simp
  ultimately show ?case
    using Suc.IH [of "drop 32 (drop 8 bs)" rs'] by (auto simp: wf_ref_def)
qed simp

end
