(* ===== verification/Identity.thy ===== *)
theory Identity
  imports Codec
begin

text \<open>
  \<open>src/identity.rs\<close>: the SCSI serial number and the NAA identifier derived from the IQN by a
  64-bit FNV-1a hash. Every instance that serves a volume derives the same identity, and the hash
  step is a permutation of the hash state, so IQNs that differ in their last byte only
  (\<open>...:disk0\<close>, \<open>...:disk1\<close>) never share an identity.
\<close>

unbundle bit_operations_syntax

definition fnv_offset :: "64 word" where "fnv_offset = 0xcbf29ce484222325"
definition fnv_prime :: "64 word" where "fnv_prime = 0x100000001b3"

definition fnv_step :: "64 word \<Rightarrow> byte \<Rightarrow> 64 word" where
  "fnv_step hash b = (hash XOR ucast b) * fnv_prime"

definition fnv1a64 :: "bytes \<Rightarrow> 64 word" where
  "fnv1a64 data = foldl fnv_step fnv_offset data"

definition serial_from_iqn :: "string \<Rightarrow> string" where
  "serial_from_iqn iqn = hex_fixed hex_digit_upper 16 (unat (fnv1a64 (str_bytes iqn)))"

definition naa_from_iqn :: "string \<Rightarrow> bytes" where
  "naa_from_iqn iqn =
     (let h = fnv1a64 (str_bytes iqn) in
      [0x60 OR (ucast (drop_bit 56 h) AND 0x0F), ucast (drop_bit 48 h), ucast (drop_bit 40 h),
       ucast (drop_bit 32 h), ucast (drop_bit 24 h), ucast (drop_bit 16 h), ucast (drop_bit 8 h),
       ucast h])"

section \<open>The hash step is a permutation\<close>

definition fnv_prime_inv :: int where "fnv_prime_inv = 0xce965057aff6957b"

lemma uint_take_bit: "uint (take_bit n (w :: 64 word)) = uint w mod 2 ^ n"
  unfolding unsigned_take_bit_eq by (rule take_bit_eq_mod)

lemma fnv_mult_cancel:
  assumes "take_bit 60 (x * fnv_prime) = take_bit 60 (y * fnv_prime)"
  shows "take_bit 60 x = take_bit 60 y"
proof -
  let ?M = "2 ^ 60 :: int" let ?p = "0x100000001b3 :: int"
  have low: "uint (z * fnv_prime) mod ?M = uint z * ?p mod ?M" for z
    by (simp add: fnv_prime_def uint_word_ariths mod_mod_cancel)
  have "uint (x * fnv_prime) mod ?M = uint (y * fnv_prime) mod ?M"
    using arg_cong [OF assms, of uint] by (simp only: uint_take_bit)
  then have eq: "uint x * ?p mod ?M = uint y * ?p mod ?M"
    by (simp only: low)
  have inv: "z mod ?M = ((z * ?p mod ?M) * fnv_prime_inv) mod ?M" for z
  proof -
    have "((z * ?p mod ?M) * fnv_prime_inv) mod ?M = (z * (?p * fnv_prime_inv mod ?M)) mod ?M"
      by (simp only: mod_mult_left_eq mod_mult_right_eq mult.assoc)
    also have "?p * fnv_prime_inv mod ?M = 1"
      by (simp add: fnv_prime_inv_def)
    finally show ?thesis by simp
  qed
  have "uint x mod ?M = uint y mod ?M"
    using inv [of "uint x"] inv [of "uint y"] eq by metis
  then have "uint (take_bit 60 x) = uint (take_bit 60 y)"
    by (simp only: uint_take_bit)
  then show ?thesis
    by (rule unsigned_word_eqI)
qed

lemma fnv_step_low_bits:
  assumes "take_bit 60 (fnv_step h b) = take_bit 60 (fnv_step h b')"
  shows "b = b'"
proof -
  have low: "take_bit 60 (h XOR ucast b) = take_bit 60 (h XOR ucast b')"
    using assms unfolding fnv_step_def by (rule fnv_mult_cancel)
  show ?thesis
  proof (rule bit_word_eqI)
    fix n assume n: "n < LENGTH(8)"
    have "bit (take_bit 60 (h XOR ucast b)) n = bit (take_bit 60 (h XOR ucast b')) n"
      by (simp only: low)
    then show "bit b n = bit b' n"
      using n by (auto simp: bit_take_bit_iff bit_xor_iff bit_ucast_iff)
  qed
qed

lemma fnv1a64_snoc: "fnv1a64 (bs @ [b]) = fnv_step (fnv1a64 bs) b"
  by (simp add: fnv1a64_def)

section \<open>Identities\<close>

lemma byte_bits:
  assumes "(ucast (drop_bit m h) :: byte) = ucast (drop_bit m h')" and "j < 8" and "m + j < 64"
  shows "bit (h :: 64 word) (m + j) = bit h' (m + j)"
proof -
  have "bit (ucast (drop_bit m h) :: byte) j = bit (ucast (drop_bit m h') :: byte) j"
    by (simp add: assms(1))
  then show ?thesis
    using assms(2,3) by (simp add: bit_ucast_iff bit_drop_bit_eq)
qed

lemma serial_inject:
  "serial_from_iqn a = serial_from_iqn b \<longleftrightarrow> fnv1a64 (str_bytes a) = fnv1a64 (str_bytes b)"
proof
  have lt: "unat (h :: 64 word) < 16 ^ 16" for h
    using unsigned_less [of h] by simp
  assume "serial_from_iqn a = serial_from_iqn b"
  then show "fnv1a64 (str_bytes a) = fnv1a64 (str_bytes b)"
    unfolding serial_from_iqn_def
    using hex_fixed_inject [OF hex_alphabets(2) lt lt] unsigned_word_eqI by blast
qed (simp add: serial_from_iqn_def)

lemma naa_low_bits:
  assumes "naa_from_iqn a = naa_from_iqn b"
  shows "take_bit 60 (fnv1a64 (str_bytes a)) = take_bit 60 (fnv1a64 (str_bytes b))"
proof (rule bit_word_eqI)
  let ?h = "fnv1a64 (str_bytes a)" let ?k = "fnv1a64 (str_bytes b)"
  have eqs: "(0x60 OR (ucast (drop_bit 56 ?h) AND 0x0F) :: byte) = 0x60 OR (ucast (drop_bit 56 ?k) AND 0x0F)"
    "\<And>m. m \<in> {0, 8, 16, 24, 32, 40, 48} \<Longrightarrow> (ucast (drop_bit m ?h) :: byte) = ucast (drop_bit m ?k)"
    using assms by (auto simp: naa_from_iqn_def Let_def)
  fix n assume "n < LENGTH(64)"
  show "bit (take_bit 60 ?h) n = bit (take_bit 60 ?k) n"
  proof (cases "n < 56")
    case True
    have m: "n div 8 * 8 \<in> {0, 8, 16, 24, 32, 40, 48}"
      using True by auto
    have "bit ?h (n div 8 * 8 + n mod 8) = bit ?k (n div 8 * 8 + n mod 8)"
      by (rule byte_bits [OF eqs(2) [OF m]]) (use True in auto)
    then show ?thesis
      by (simp add: bit_take_bit_iff)
  next
    case False
    show ?thesis
    proof (cases "n < 60")
      case True
      define j where "j = n - 56"
      have j: "n = 56 + j" "j < 4"
        using False True by (auto simp: j_def)
      have "bit (0x60 OR (ucast (drop_bit 56 ?h) AND 0x0F) :: byte) j =
          bit (0x60 OR (ucast (drop_bit 56 ?k) AND 0x0F) :: byte) j"
        by (simp add: eqs(1))
      moreover have "j = 0 \<or> j = 1 \<or> j = 2 \<or> j = 3"
        using j(2) by auto
      ultimately show ?thesis
        unfolding j(1) by (auto simp: bit_or_iff bit_and_iff bit_ucast_iff bit_drop_bit_eq bit_take_bit_iff)
    qed (simp add: bit_take_bit_iff)
  qed
qed

lemma of_char_byte_inj:
  assumes "(of_char c :: byte) = of_char c'"
  shows "c = c'"
proof -
  have lt: "(of_char x :: nat) < 256" for x
    by (metis of_char_mod_256 mod_less_divisor zero_less_numeral)
  have "(of_nat (of_char c) :: byte) = of_nat (of_char c')"
    using assms by (simp only: of_nat_of_char)
  then have "unat (of_nat (of_char c) :: byte) = unat (of_nat (of_char c') :: byte)"
    by (rule arg_cong)
  then have "(of_char c :: nat) = of_char c'"
    by (simp only: unat_byte_of_nat [OF lt])
  then show ?thesis
    by simp
qed

lemma fnv1a64_last_byte:
  assumes "take_bit 60 (fnv1a64 (str_bytes (s @ [c]))) = take_bit 60 (fnv1a64 (str_bytes (s @ [c'])))"
  shows "c = c'"
  using assms fnv_step_low_bits of_char_byte_inj
  unfolding str_bytes_def map_append list.map fnv1a64_snoc by blast

lemma length_naa [simp]: "length (naa_from_iqn iqn) = 8"
  by (simp add: naa_from_iqn_def Let_def)

lemma naa_nibble: "naa_from_iqn iqn ! 0 AND 0xF0 = 0x60"
proof (rule bit_word_eqI)
  fix n assume "n < LENGTH(8)"
  then have "n = 0 \<or> n = 1 \<or> n = 2 \<or> n = 3 \<or> n = 4 \<or> n = 5 \<or> n = 6 \<or> n = 7"
    by auto
  then show "bit (naa_from_iqn iqn ! 0 AND 0xF0) n = bit (0x60 :: byte) n"
    by (auto simp: naa_from_iqn_def Let_def bit_and_iff bit_or_iff)
qed

text \<open>
  C17: The identities of volumes whose IQNs differ only in the last byte are distinct: neither the
  serial number nor the NAA identifier coincides, and the NAA identifier always carries the format
  nibble 6.
\<close>

theorem identity_distinct:
  assumes "c \<noteq> c'"
  shows "serial_from_iqn (s @ [c]) \<noteq> serial_from_iqn (s @ [c']) \<and>
    naa_from_iqn (s @ [c]) \<noteq> naa_from_iqn (s @ [c']) \<and>
    naa_from_iqn (s @ [c]) ! 0 AND 0xF0 = 0x60"
proof (intro conjI notI)
  assume "serial_from_iqn (s @ [c]) = serial_from_iqn (s @ [c'])"
  then show False
    using fnv1a64_last_byte [of s c c'] assms by (simp add: serial_inject)
next
  assume "naa_from_iqn (s @ [c]) = naa_from_iqn (s @ [c'])"
  then show False
    using naa_low_bits fnv1a64_last_byte [of s c c'] assms by blast
qed (rule naa_nibble)

theorem identity_distinct_witness:
  "serial_from_iqn ''iqn.2026-09.local.iscsi-s3:disk0'' \<noteq> serial_from_iqn ''iqn.2026-09.local.iscsi-s3:disk1'' \<and>
   naa_from_iqn ''iqn.2026-09.local.iscsi-s3:disk0'' \<noteq> naa_from_iqn ''iqn.2026-09.local.iscsi-s3:disk1'' \<and>
   naa_from_iqn ''iqn.2026-09.local.iscsi-s3:disk0'' ! 0 AND 0xF0 = 0x60"
  using identity_distinct [of "CHR ''0''" "CHR ''1''" "''iqn.2026-09.local.iscsi-s3:disk''"]
  by (simp only: append.simps) simp

end
