(* ===== verification/S3Service.thy ===== *)
theory S3Service
  imports Snapshot BlockStore
begin

text \<open>
  What \<open>src/store/s3.rs\<close> uses of the outside world, and its thin wrappers over it.

  \<open>s3_env\<close> holds the parts of the program that are not in the repository: the S3 client
  (\<open>GetObject\<close>, \<open>PutObject\<close>, \<open>DeleteObject\<close>, \<open>ListObjectsV2\<close>, each a function on a service
  state that may also time out), BLAKE3, the compression libraries, the JSON encoders and the
  clock. \<open>s3_laws E objs\<close> collects their documented behaviour over the map \<open>objs\<close> from keys to
  object bodies: a read returns the object, an acknowledged write or delete has taken effect and
  touches one key, a refused conditional write has no effect, the pages of a listing add up to
  the keys with the prefix. A failed write may or may not have taken effect.

  The list loops of the program run until the last page or their 300 second limit; the limit is a
  page budget \<open>e_page_budget\<close>, and running out of it is the time-out error of \<open>run_on_runtime\<close>.
\<close>

section \<open>Strings\<close>

fun is_prefix :: "string \<Rightarrow> string \<Rightarrow> bool" where
  "is_prefix [] s = True"
| "is_prefix (c # p) [] = False"
| "is_prefix (c # p) (x # s) = (c = x \<and> is_prefix p s)"

fun contains_str :: "string \<Rightarrow> string \<Rightarrow> bool" where
  "contains_str p [] = (p = [])"
| "contains_str p (x # s) = (is_prefix p (x # s) \<or> contains_str p s)"

definition strip_prefix :: "string \<Rightarrow> string \<Rightarrow> string option" where
  "strip_prefix p s = (if is_prefix p s then Some (drop (length p) s) else None)"

definition ends_with :: "string \<Rightarrow> string \<Rightarrow> bool" where
  "ends_with suf s \<longleftrightarrow> length suf \<le> length s \<and> drop (length s - length suf) s = suf"

definition trim_slashes :: "string \<Rightarrow> string" where
  "trim_slashes s = rev (dropWhile (\<lambda>c. c = CHR ''/'') (rev (dropWhile (\<lambda>c. c = CHR ''/'') s)))"

lemma is_prefix_iff: "is_prefix p s \<longleftrightarrow> (\<exists>r. s = p @ r)"
  by (induction p s rule: is_prefix.induct) auto

lemma strip_prefix_append [simp]: "strip_prefix p (p @ r) = Some r"
  by (simp add: strip_prefix_def is_prefix_iff)

lemma strip_prefix_Some: "strip_prefix p s = Some r \<longleftrightarrow> s = p @ r"
  by (auto simp: strip_prefix_def is_prefix_iff)

section \<open>The environment\<close>

datatype 'a reply = Done 'a | Timeout

datatype get_reply =
    GetOk bytes "string option"
  | GetBodyErr string
  | GetErr bool string

record s3_object =
  o_key :: "string option"
  o_size :: "int option"

datatype list_reply =
    ListOk "s3_object list" "bool option" "string option"
  | ListErr string

record volume_meta =
  vm_version :: nat
  vm_capacity_bytes :: nat
  vm_chunk_size :: nat
  vm_block_size :: nat
  vm_compression :: compression
  vm_storage :: storage_mode

record 's s3_env =
  e_get :: "string \<Rightarrow> 's \<Rightarrow> get_reply reply \<times> 's"
  e_put :: "string \<Rightarrow> bytes \<Rightarrow> string option \<Rightarrow> string option \<Rightarrow> 's \<Rightarrow> string option reply \<times> 's"
  e_delete :: "string \<Rightarrow> 's \<Rightarrow> string option reply \<times> 's"
  e_list :: "string \<Rightarrow> string option \<Rightarrow> 's \<Rightarrow> list_reply reply \<times> 's"
  e_page_budget :: nat
  e_blake3 :: "bytes \<Rightarrow> hash"
  e_codec :: codec_lib
  e_meta_enc :: "volume_meta \<Rightarrow> string + bytes"
  e_meta_dec :: "bytes \<Rightarrow> string + volume_meta"
  e_man_enc :: "snapshot_manifest \<Rightarrow> string + bytes"
  e_man_dec :: "bytes \<Rightarrow> string + snapshot_manifest"
  e_clock :: "'s \<Rightarrow> nat"

definition timed_out :: store_error where
  "timed_out = S3 ''timed out waiting for S3 operation''"

definition meta_version :: nat where
  "meta_version = 1"

definition says_missing :: "string \<Rightarrow> bool" where
  "says_missing msg \<longleftrightarrow>
     contains_str ''NoSuchKey'' msg \<or> contains_str ''404'' msg \<or> contains_str ''Not Found'' msg"

fun is_precondition_failed :: "store_error \<Rightarrow> bool" where
  "is_precondition_failed (S3 msg) =
     (contains_str ''PreconditionFailed'' msg \<or> contains_str ''412'' msg \<or>
      contains_str ''At least one of the pre-conditions'' msg)"
| "is_precondition_failed _ = False"

section \<open>Wrappers\<close>

definition get_bytes :: "('s, 'm) s3_env_scheme \<Rightarrow> string \<Rightarrow> ('s, (bytes \<times> string option) option) op" where
  "get_bytes E key s =
     (case e_get E key s of
        (Timeout, s') \<Rightarrow> (Err timed_out, s')
      | (Done (GetOk bytes etag), s') \<Rightarrow> (Ok (Some (bytes, etag)), s')
      | (Done (GetBodyErr msg), s') \<Rightarrow> (Err (S3 msg), s')
      | (Done (GetErr no_such_key msg), s') \<Rightarrow>
          if no_such_key \<or> says_missing msg then (Ok None, s') else (Err (S3 msg), s'))"

definition put_bytes ::
  "('s, 'm) s3_env_scheme \<Rightarrow> string \<Rightarrow> bytes \<Rightarrow> string option \<Rightarrow> string option \<Rightarrow> ('s, unit) op" where
  "put_bytes E key body content_type if_match s =
     (case e_put E key body content_type if_match s of
        (Timeout, s') \<Rightarrow> (Err timed_out, s')
      | (Done None, s') \<Rightarrow> (Ok (), s')
      | (Done (Some msg), s') \<Rightarrow> (Err (S3 msg), s'))"

definition delete_object_key :: "('s, 'm) s3_env_scheme \<Rightarrow> string \<Rightarrow> ('s, unit) op" where
  "delete_object_key E key s =
     (case e_delete E key s of
        (Timeout, s') \<Rightarrow> (Err timed_out, s')
      | (Done None, s') \<Rightarrow> (Ok (), s')
      | (Done (Some msg), s') \<Rightarrow> (Err (S3 msg), s'))"

text \<open>\<open>let _ = ...\<close>: the error of an operation is dropped.\<close>

definition ignore_err :: "('s, unit) op \<Rightarrow> ('s, unit) op" where
  "ignore_err m s = (case m s of (Panic, s') \<Rightarrow> (Panic, s') | (_, s') \<Rightarrow> (Ok (), s'))"

text \<open>The paging loop shared by all listings.\<close>

fun list_loop ::
  "('s, 'm) s3_env_scheme \<Rightarrow> string \<Rightarrow> nat \<Rightarrow> string option \<Rightarrow> s3_object list \<Rightarrow> ('s, s3_object list) op" where
  "list_loop E p 0 token acc s = (Err timed_out, s)"
| "list_loop E p (Suc n) token acc s =
     (case e_list E p token s of
        (Timeout, s') \<Rightarrow> (Err timed_out, s')
      | (Done (ListErr msg), s') \<Rightarrow> (Err (S3 msg), s')
      | (Done (ListOk contents truncated next_token), s') \<Rightarrow>
          if truncated = Some True then
            (case next_token of
               None \<Rightarrow> (Ok (acc @ contents), s')
             | Some t \<Rightarrow> list_loop E p n (Some t) (acc @ contents) s')
          else (Ok (acc @ contents), s'))"

definition list_objects :: "('s, 'm) s3_env_scheme \<Rightarrow> string \<Rightarrow> ('s, s3_object list) op" where
  "list_objects E p = list_loop E p (e_page_budget E) None []"

definition list_keys :: "('s, 'm) s3_env_scheme \<Rightarrow> string \<Rightarrow> ('s, string list) op" where
  "list_keys E p = bind_op (list_objects E p) (\<lambda>os. ret_op (List.map_filter o_key os))"

definition get_meta_at :: "('s, 'm) s3_env_scheme \<Rightarrow> string \<Rightarrow> ('s, volume_meta option) op" where
  "get_meta_at E key s =
     (case e_get E key s of
        (Timeout, s') \<Rightarrow> (Err timed_out, s')
      | (Done (GetOk bytes etag), s') \<Rightarrow>
          (case e_meta_dec E bytes of
             Inl e \<Rightarrow> (Err (Meta e), s')
           | Inr meta \<Rightarrow>
               if vm_version meta \<noteq> meta_version
               then (Err (Meta (''unsupported meta version '' @ nat_str (vm_version meta))), s')
               else (Ok (Some meta), s'))
      | (Done (GetBodyErr msg), s') \<Rightarrow> (Err (S3 msg), s')
      | (Done (GetErr no_such_key msg), s') \<Rightarrow>
          if no_such_key \<or> says_missing msg then (Ok None, s') else (Err (S3 msg), s'))"

definition put_meta_at :: "('s, 'm) s3_env_scheme \<Rightarrow> string \<Rightarrow> volume_meta \<Rightarrow> ('s, unit) op" where
  "put_meta_at E key meta s =
     (case e_meta_enc E meta of
        Inl e \<Rightarrow> (Err (Meta e), s)
      | Inr body \<Rightarrow> put_bytes E key body (Some ''application/json'') None s)"

section \<open>Laws\<close>

definition get_law :: "('s, 'm) s3_env_scheme \<Rightarrow> ('s \<Rightarrow> string \<rightharpoonup> bytes) \<Rightarrow> bool" where
  "get_law E objs \<longleftrightarrow>
     (\<forall>k s. objs (snd (e_get E k s)) = objs s \<and>
       (\<forall>b etag. fst (e_get E k s) = Done (GetOk b etag) \<longrightarrow> objs s k = Some b) \<and>
       (\<forall>nsk msg. fst (e_get E k s) = Done (GetErr nsk msg) \<longrightarrow> nsk \<or> says_missing msg \<longrightarrow> objs s k = None))"

definition put_law :: "('s, 'm) s3_env_scheme \<Rightarrow> ('s \<Rightarrow> string \<rightharpoonup> bytes) \<Rightarrow> bool" where
  "put_law E objs \<longleftrightarrow>
     (\<forall>k b ct im s r s'. e_put E k b ct im s = (r, s') \<longrightarrow>
       (r = Done None \<longrightarrow> objs s' = (objs s)(k \<mapsto> b)) \<and>
       (r \<noteq> Done None \<longrightarrow> objs s' = objs s \<or> objs s' = (objs s)(k \<mapsto> b)) \<and>
       (\<forall>msg. r = Done (Some msg) \<longrightarrow> is_precondition_failed (S3 msg) \<longrightarrow> objs s' = objs s))"

definition delete_law :: "('s, 'm) s3_env_scheme \<Rightarrow> ('s \<Rightarrow> string \<rightharpoonup> bytes) \<Rightarrow> bool" where
  "delete_law E objs \<longleftrightarrow>
     (\<forall>k s r s'. e_delete E k s = (r, s') \<longrightarrow>
       (r = Done None \<longrightarrow> objs s' = (objs s)(k := None)) \<and>
       (r \<noteq> Done None \<longrightarrow> objs s' = objs s \<or> objs s' = (objs s)(k := None)))"

definition pages_ok ::
  "('s, 'm) s3_env_scheme \<Rightarrow> ('s \<Rightarrow> string \<rightharpoonup> bytes) \<Rightarrow> (string option \<Rightarrow> nat) \<Rightarrow>
    (string \<Rightarrow> (string \<rightharpoonup> bytes) \<Rightarrow> string list) \<Rightarrow> bool" where
  "pages_ok E objs pos listing \<longleftrightarrow>
     pos None = 0 \<and>
     (\<forall>p s. set (listing p (objs s)) = {k. objs s k \<noteq> None \<and> is_prefix p k}) \<and>
     (\<forall>p t s. objs (snd (e_list E p t s)) = objs s) \<and>
     (\<forall>p t s os tr nx. fst (e_list E p t s) = Done (ListOk os tr nx) \<longrightarrow>
        (\<exists>n. map o_key os = map Some (take n (drop (pos t) (listing p (objs s)))) \<and>
             (tr = Some True \<longleftrightarrow> pos t + n < length (listing p (objs s))) \<and>
             (tr = Some True \<longrightarrow> (\<exists>t'. nx = Some t' \<and> pos (Some t') = pos t + n))))"

definition list_law :: "('s, 'm) s3_env_scheme \<Rightarrow> ('s \<Rightarrow> string \<rightharpoonup> bytes) \<Rightarrow> bool" where
  "list_law E objs \<longleftrightarrow> (\<exists>pos listing. pages_ok E objs pos listing)"

definition s3_laws :: "('s, 'm) s3_env_scheme \<Rightarrow> ('s \<Rightarrow> string \<rightharpoonup> bytes) \<Rightarrow> bool" where
  "s3_laws E objs \<longleftrightarrow>
     get_law E objs \<and> put_law E objs \<and> delete_law E objs \<and> list_law E objs \<and>
     codec_laws (e_codec E) \<and> (\<forall>b. length (e_blake3 E b) = hash_len) \<and>
     (\<forall>m b. e_meta_enc E m = Inr b \<longrightarrow> e_meta_dec E b = Inr m) \<and>
     (\<forall>m b. e_man_enc E m = Inr b \<longrightarrow> e_man_dec E b = Inr m)"

lemma s3_lawsD:
  assumes "s3_laws E objs"
  shows "get_law E objs" "put_law E objs" "delete_law E objs" "list_law E objs" "codec_laws (e_codec E)"
    "length (e_blake3 E b) = hash_len" "e_meta_enc E m = Inr c \<Longrightarrow> e_meta_dec E c = Inr m"
    "e_man_enc E n = Inr c \<Longrightarrow> e_man_dec E c = Inr n"
  using assms by (auto simp: s3_laws_def)

section \<open>Contracts of the wrappers\<close>

lemma get_bytes_hoare:
  assumes "get_law E objs"
  shows "hoare (\<lambda>s. objs s = ob) (get_bytes E k)
    (\<lambda>r s. objs s = ob \<and> map_option fst r = ob k) (\<lambda>s. objs s = ob)"
  unfolding hoare_def
proof (intro allI impI)
  fix s assume s: "objs s = ob"
  obtain r s' where g: "e_get E k s = (r, s')" by fastforce
  have laws: "objs s' = ob" "\<And>b t. r = Done (GetOk b t) \<Longrightarrow> ob k = Some b"
    "\<And>n msg. r = Done (GetErr n msg) \<Longrightarrow> n \<or> says_missing msg \<Longrightarrow> ob k = None"
    using assms g s unfolding get_law_def by (metis fst_conv snd_conv)+
  show "post (\<lambda>r s. objs s = ob \<and> map_option fst r = ob k) (\<lambda>s. objs s = ob) (get_bytes E k s)"
  proof (cases r)
    case (Done x)
    with laws g show ?thesis
      by (cases x) (auto simp: get_bytes_def)
  qed (use laws g in \<open>simp add: get_bytes_def\<close>)
qed

lemma put_bytes_hoare:
  assumes "put_law E objs"
  shows "hoare (\<lambda>s. objs s = ob) (put_bytes E k b ct im)
    (\<lambda>_ s. objs s = ob(k \<mapsto> b)) (\<lambda>s. objs s = ob \<or> objs s = ob(k \<mapsto> b))"
  unfolding hoare_def
proof (intro allI impI)
  fix s assume s: "objs s = ob"
  obtain r s' where g: "e_put E k b ct im s = (r, s')" by fastforce
  have "r = Done None \<longrightarrow> objs s' = ob(k \<mapsto> b)" "r \<noteq> Done None \<longrightarrow> objs s' = ob \<or> objs s' = ob(k \<mapsto> b)"
    using assms g s unfolding put_law_def by blast+
  with g show "post (\<lambda>_ s. objs s = ob(k \<mapsto> b)) (\<lambda>s. objs s = ob \<or> objs s = ob(k \<mapsto> b)) (put_bytes E k b ct im s)"
    by (cases r) (auto simp: put_bytes_def split: option.splits)
qed

lemma timed_out_not_precondition [simp]: "\<not> is_precondition_failed timed_out"
  by (simp add: timed_out_def)

lemma put_bytes_precondition:
  assumes "put_law E objs" and "put_bytes E k b ct im s = (Err e, s')" and "is_precondition_failed e"
  shows "objs s' = objs s"
proof -
  obtain r s1 where g: "e_put E k b ct im s = (r, s1)" by fastforce
  then obtain msg where "r = Done (Some msg)" and "e = S3 msg" and "s1 = s'"
    using assms(2,3) by (auto simp: put_bytes_def split: reply.splits option.splits)
  then show ?thesis
    using assms(1,3) g unfolding put_law_def by blast
qed

lemma delete_object_hoare:
  assumes "delete_law E objs"
  shows "hoare (\<lambda>s. objs s = ob) (delete_object_key E k)
    (\<lambda>_ s. objs s = ob(k := None)) (\<lambda>s. objs s = ob \<or> objs s = ob(k := None))"
  unfolding hoare_def
proof (intro allI impI)
  fix s assume s: "objs s = ob"
  obtain r s' where g: "e_delete E k s = (r, s')" by fastforce
  have "r = Done None \<longrightarrow> objs s' = ob(k := None)" "r \<noteq> Done None \<longrightarrow> objs s' = ob \<or> objs s' = ob(k := None)"
    using assms g s unfolding delete_law_def by blast+
  with g show "post (\<lambda>_ s. objs s = ob(k := None)) (\<lambda>s. objs s = ob \<or> objs s = ob(k := None)) (delete_object_key E k s)"
    by (cases r) (auto simp: delete_object_key_def split: option.splits)
qed

lemma ignore_err_hoare:
  assumes "hoare P m (\<lambda>_. Q) E'" and "\<And>s. E' s \<Longrightarrow> Q' s" and "\<And>s. Q s \<Longrightarrow> Q' s"
  shows "hoare P (ignore_err m) (\<lambda>_. Q') (\<lambda>_. False)"
  unfolding hoare_def
proof (intro allI impI)
  fix s assume "P s"
  with assms(1) have "post (\<lambda>_. Q) E' (m s)" by (simp add: hoare_def)
  then show "post (\<lambda>_. Q') (\<lambda>_. False) (ignore_err m s)"
    using assms(2,3) by (cases "m s"; cases "fst (m s)") (auto simp: ignore_err_def)
qed

lemma ignore_delete_hoare:
  assumes "delete_law E objs"
  shows "hoare (\<lambda>s. objs s = ob) (ignore_err (delete_object_key E k))
    (\<lambda>_ s. objs s = ob \<or> objs s = ob(k := None)) (\<lambda>_. False)"
  by (rule ignore_err_hoare [OF delete_object_hoare [OF assms]]) auto

lemma list_loop_hoare:
  assumes pos: "pos None = (0 :: nat)"
    and page: "\<And>t s os tr nx. fst (e_list E p t s) = Done (ListOk os tr nx) \<Longrightarrow> objs s = ob \<Longrightarrow>
       \<exists>n. map o_key os = map Some (take n (drop (pos t) L)) \<and> (tr = Some True \<longleftrightarrow> pos t + n < length L) \<and>
           (tr = Some True \<longrightarrow> (\<exists>t'. nx = Some t' \<and> pos (Some t') = pos t + n))"
    and same: "\<And>t s. objs (snd (e_list E p t s)) = objs s"
    and acc: "map o_key acc = map Some (take (pos t) L)"
  shows "hoare (\<lambda>s. objs s = ob) (list_loop E p n t acc)
    (\<lambda>os s. objs s = ob \<and> map o_key os = map Some L) (\<lambda>s. objs s = ob)"
  using acc
proof (induction n arbitrary: t acc)
  case (Suc n)
  show ?case
    unfolding hoare_def
  proof (intro allI impI)
    fix s assume s: "objs s = ob"
    obtain r s' where g: "e_list E p t s = (r, s')" by fastforce
    then have s': "objs s' = ob" using same [of t s] s by simp
    show "post (\<lambda>os s. objs s = ob \<and> map o_key os = map Some L) (\<lambda>s. objs s = ob) (list_loop E p (Suc n) t acc s)"
    proof (cases "\<exists>os tr nx. r = Done (ListOk os tr nx)")
      case True
      then obtain os tr nx where r: "r = Done (ListOk os tr nx)" by blast
      with page [of t s] g s obtain m where os: "map o_key os = map Some (take m (drop (pos t) L))"
        and tr: "tr = Some True \<longleftrightarrow> pos t + m < length L"
        and nx: "tr = Some True \<longrightarrow> (\<exists>t'. nx = Some t' \<and> pos (Some t') = pos t + m)"
        by auto
      have acc': "map o_key (acc @ os) = map Some (take (pos t + m) L)"
        using Suc.prems os by (simp add: take_add)
      show ?thesis
      proof (cases "tr = Some True")
        case True
        with nx obtain t' where t': "nx = Some t'" "pos (Some t') = pos t + m" by blast
        have "hoare (\<lambda>s. objs s = ob) (list_loop E p n (Some t') (acc @ os))
            (\<lambda>os s. objs s = ob \<and> map o_key os = map Some L) (\<lambda>s. objs s = ob)"
          using acc' t'(2) by (intro Suc.IH) simp
        from hoare_post [OF this s'] show ?thesis
          using True g r t' by simp
      next
        case False
        then show ?thesis
          using g r acc' tr s' by simp
      qed
    next
      case False
      then show ?thesis
        using g s' by (cases r) (auto split: list_reply.splits)
    qed
  qed
qed (simp add: hoare_def)

lemma list_objects_hoare:
  assumes "list_law E objs"
  shows "hoare (\<lambda>s. objs s = ob) (list_objects E p)
    (\<lambda>os s. objs s = ob \<and> None \<notin> o_key ` set os \<and> Some -` (o_key ` set os) = {k. ob k \<noteq> None \<and> is_prefix p k})
    (\<lambda>s. objs s = ob)"
proof (cases "\<exists>s. objs s = ob")
  case True
  from assms obtain pos listing where L: "pages_ok E objs pos listing"
    unfolding list_law_def by blast
  have A: "hoare (\<lambda>s. objs s = ob) (list_objects E p)
      (\<lambda>os s. objs s = ob \<and> map o_key os = map Some (listing p ob)) (\<lambda>s. objs s = ob)"
    unfolding list_objects_def
    by (rule list_loop_hoare [where pos = pos]) (use L in \<open>auto simp: pages_ok_def\<close>)
  have B: "None \<notin> o_key ` set os \<and> Some -` (o_key ` set os) = {k. ob k \<noteq> None \<and> is_prefix p k}"
    if keys: "map o_key os = map Some (listing p ob)" for os
  proof -
    have "o_key ` set os = Some ` set (listing p ob)"
      using arg_cong [OF keys, of set] by simp
    moreover have "set (listing p ob) = {k. ob k \<noteq> None \<and> is_prefix p k}"
      using True L by (auto simp: pages_ok_def)
    ultimately show ?thesis by auto
  qed
  show ?thesis
    by (rule hoare_conseq [OF A]) (use B in blast)+
qed (simp add: hoare_def)

lemma list_keys_hoare:
  assumes "list_law E objs"
  shows "hoare (\<lambda>s. objs s = ob) (list_keys E p)
    (\<lambda>ks s. objs s = ob \<and> set ks = {k. ob k \<noteq> None \<and> is_prefix p k}) (\<lambda>s. objs s = ob)"
  unfolding list_keys_def
proof (rule hoare_bind [OF list_objects_hoare [OF assms]])
  fix os
  have "set (List.map_filter o_key os) = Some -` (o_key ` set os)"
    by (induction os) (auto simp: List.map_filter_simps split: option.splits)
  then show "hoare (\<lambda>s. objs s = ob \<and> None \<notin> o_key ` set os \<and> Some -` (o_key ` set os) = {k. ob k \<noteq> None \<and> is_prefix p k})
      (ret_op (List.map_filter o_key os))
      (\<lambda>ks s. objs s = ob \<and> set ks = {k. ob k \<noteq> None \<and> is_prefix p k}) (\<lambda>s. objs s = ob)"
    by (simp add: hoare_def ret_op_def)
qed

end
