(* ===== verification/S3Store.thy ===== *)
theory S3Store
  imports S3Service
begin

text \<open>
  \<open>S3ChunkStore\<close> of \<open>src/store/s3.rs\<close> as a \<open>BlockStore\<close>: the two layouts (legacy: one object
  per chunk under a sharded key with a fallback to the older flat key; copy-on-write: a pointer
  object that names a content-addressed object), reading and writing chunks, the conditional-put
  retry loop, grow-only capacity and \<open>meta.json\<close>.

  \<open>chunk_value\<close> is the content that the objects of the bucket give a chunk; \<open>s3_rep\<close> says that
  every chunk of the disk has its content there. Under the laws of the environment the store
  implements the \<open>block_store\<close> contract, for chunk contents whose encodings do not collide under
  BLAKE3: the encodings lie in a set \<open>U\<close> on which the hash is injective.
\<close>

section \<open>Configuration, state and keys\<close>

record s3_conf =
  s3_prefix :: string
  s3_block_size :: nat
  s3_chunk_size :: nat
  s3_compression :: compression
  s3_storage :: storage_mode
  s3_capacity :: nat
  s3_volume :: string

record 's s3_store =
  st_conf :: s3_conf
  st_svc :: 's

definition flat_meta_key :: "s3_conf \<Rightarrow> string" where
  "flat_meta_key c = s3_prefix c @ ''/meta.json''"

definition live_meta_key :: "s3_conf \<Rightarrow> string" where
  "live_meta_key c = s3_prefix c @ ''/live/meta.json''"

definition meta_key :: "s3_conf \<Rightarrow> string" where
  "meta_key c = (case s3_storage c of Legacy \<Rightarrow> flat_meta_key c | Cow \<Rightarrow> live_meta_key c)"

definition chunks_prefix :: "s3_conf \<Rightarrow> string" where
  "chunks_prefix c =
     (case s3_storage c of
        Legacy \<Rightarrow> s3_prefix c @ ''/chunks/''
      | Cow \<Rightarrow> s3_prefix c @ ''/live/chunks/'')"

definition shard_chunk_index :: "nat \<Rightarrow> string" where
  "shard_chunk_index index =
     (let hex = hex_fixed hex_digit 16 index
      in take 2 (drop 14 hex) @ ''/'' @ take 2 (drop 12 hex) @ ''/'' @ take 12 hex)"

definition legacy_chunk_key :: "s3_conf \<Rightarrow> nat \<Rightarrow> string" where
  "legacy_chunk_key c index = s3_prefix c @ ''/chunks/'' @ shard_chunk_index index"

definition legacy_flat_chunk_key :: "s3_conf \<Rightarrow> nat \<Rightarrow> string" where
  "legacy_flat_chunk_key c index = s3_prefix c @ ''/chunks/'' @ hex_fixed hex_digit 16 index"

definition chunk_key :: "s3_conf \<Rightarrow> nat \<Rightarrow> string" where
  "chunk_key c index =
     (case s3_storage c of
        Legacy \<Rightarrow> legacy_chunk_key c index
      | Cow \<Rightarrow> chunks_prefix c @ hex_fixed hex_digit 16 index)"

definition object_key :: "s3_conf \<Rightarrow> hash \<Rightarrow> string" where
  "object_key c h = s3_prefix c @ ''/objects/'' @ object_relpath h"

definition migrating_key :: "s3_conf \<Rightarrow> string" where
  "migrating_key c = s3_prefix c @ ''/live/migrating.json''"

definition split_legacy_shard :: "string \<Rightarrow> (string \<times> string \<times> string) option" where
  "split_legacy_shard rel =
     (if length rel \<noteq> 2 + 1 + 2 + 1 + 12 \<or> rel ! 2 \<noteq> CHR ''/'' \<or> rel ! 5 \<noteq> CHR ''/'' then None
      else Some (take 2 rel, take 2 (drop 3 rel), drop 6 rel))"

definition index_from_chunk_relpath :: "string \<Rightarrow> nat option" where
  "index_from_chunk_relpath rel =
     (let hex = (case split_legacy_shard rel of
                   Some (low, mid, rest) \<Rightarrow> Some (rest @ mid @ low)
                 | None \<Rightarrow> if rel \<noteq> [] \<and> CHR ''/'' \<notin> set rel then Some rel else None)
      in case hex of
           None \<Rightarrow> None
         | Some h \<Rightarrow> if length h \<noteq> 16 then None else from_str_radix16 (2 ^ 64) h)"

definition parse_chunk_index_from_key :: "string \<Rightarrow> string \<Rightarrow> nat option" where
  "parse_chunk_index_from_key p key =
     (case strip_prefix p key of None \<Rightarrow> None | Some rel \<Rightarrow> index_from_chunk_relpath rel)"

definition list_chunk_indices :: "('s, 'm) s3_env_scheme \<Rightarrow> string \<Rightarrow> ('s, nat list) op" where
  "list_chunk_indices E p0 =
     (let p = (if ends_with ''/'' p0 then p0 else p0 @ ''/'')
      in bind_op (list_objects E p)
           (\<lambda>os. ret_op (remdups_adj (sort (List.map_filter
              (\<lambda>obj. parse_chunk_index_from_key p (case o_key obj of Some k \<Rightarrow> k | None \<Rightarrow> [])) os)))))"

section \<open>Chunks\<close>

definition of_result :: "'a result \<Rightarrow> ('s, 'a) op" where
  "of_result r s = (r, s)"

definition get_legacy_chunk ::
  "('s, 'm) s3_env_scheme \<Rightarrow> s3_conf \<Rightarrow> nat \<Rightarrow> ('s, bytes \<times> string option) op" where
  "get_legacy_chunk E c index =
     bind_op (get_bytes E (legacy_chunk_key c index)) (\<lambda>r. case r of
       Some (bytes, etag) \<Rightarrow>
         bind_op (of_result (decode_chunk (e_codec E) (s3_compression c) bytes (s3_chunk_size c)))
           (\<lambda>plain. ret_op (plain, etag))
     | None \<Rightarrow>
         bind_op (get_bytes E (legacy_flat_chunk_key c index)) (\<lambda>r2. case r2 of
           Some (bytes, _) \<Rightarrow>
             bind_op (of_result (decode_chunk (e_codec E) (s3_compression c) bytes (s3_chunk_size c)))
               (\<lambda>plain. ret_op (plain, None))
         | None \<Rightarrow> ret_op (zeros (s3_chunk_size c), None)))"

definition get_chunk ::
  "('s, 'm) s3_env_scheme \<Rightarrow> s3_conf \<Rightarrow> nat \<Rightarrow> ('s, bytes \<times> string option) op" where
  "get_chunk E c index =
     (case s3_storage c of
        Legacy \<Rightarrow> get_legacy_chunk E c index
      | Cow \<Rightarrow>
          bind_op (get_bytes E (chunk_key c index)) (\<lambda>r. case r of
            None \<Rightarrow> ret_op (zeros (s3_chunk_size c), None)
          | Some (ptr_bytes, etag) \<Rightarrow>
              bind_op (of_result (decode_pointer ptr_bytes)) (\<lambda>h.
                bind_op (get_bytes E (object_key c h)) (\<lambda>r2. case r2 of
                  None \<Rightarrow> err_op (Other (''missing cow object for chunk '' @ nat_str index))
                | Some (body, _) \<Rightarrow>
                    bind_op (of_result (decode_chunk (e_codec E) (s3_compression c) body (s3_chunk_size c)))
                      (\<lambda>plain. ret_op (plain, etag))))))"

definition put_chunk ::
  "('s, 'm) s3_env_scheme \<Rightarrow> s3_conf \<Rightarrow> nat \<Rightarrow> bytes \<Rightarrow> string option \<Rightarrow> ('s, unit) op" where
  "put_chunk E c index data if_match =
     (if length data \<noteq> s3_chunk_size c then
        err_op (Other (''put_chunk length '' @ nat_str (length data) @ '' != chunk_size '' @ nat_str (s3_chunk_size c)))
      else
        bind_op (of_result (encode_chunk (e_codec E) (s3_compression c) data)) (\<lambda>body.
          case s3_storage c of
            Legacy \<Rightarrow>
              bind_op (put_bytes E (legacy_chunk_key c index) body None if_match)
                (\<lambda>_. ignore_err (delete_object_key E (legacy_flat_chunk_key c index)))
          | Cow \<Rightarrow>
              (let h = e_blake3 E body
               in bind_op (put_bytes E (object_key c h) body None None)
                    (\<lambda>_. put_bytes E (chunk_key c index) (encode_pointer h) None if_match))))"

definition delete_chunk_object :: "('s, 'm) s3_env_scheme \<Rightarrow> s3_conf \<Rightarrow> nat \<Rightarrow> ('s, unit) op" where
  "delete_chunk_object E c index =
     (case s3_storage c of
        Legacy \<Rightarrow>
          bind_op (delete_object_key E (legacy_chunk_key c index))
            (\<lambda>_. delete_object_key E (legacy_flat_chunk_key c index))
      | Cow \<Rightarrow> delete_object_key E (chunk_key c index))"

text \<open>
  The conditional-put loop of \<open>write_at\<close> for one chunk: at most \<open>MAX_CAS_ATTEMPTS\<close> = 8 rounds of
  read, patch and put; \<open>retries\<close> counts the rounds left. A whole-chunk write reads nothing and is
  unconditional.
\<close>

definition max_cas_attempts :: nat where
  "max_cas_attempts = 8"

definition load_for_patch ::
  "('s, 'm) s3_env_scheme \<Rightarrow> s3_conf \<Rightarrow> nat \<Rightarrow> nat \<Rightarrow> nat \<Rightarrow> ('s, bytes \<times> string option) op" where
  "load_for_patch E c idx within n =
     (if within = 0 \<and> n = s3_chunk_size c then ret_op (zeros (s3_chunk_size c), None)
      else get_chunk E c idx)"

fun cas_loop ::
  "('s, 'm) s3_env_scheme \<Rightarrow> s3_conf \<Rightarrow> nat \<Rightarrow> nat \<Rightarrow> nat \<Rightarrow> bytes \<Rightarrow> ('s, unit) op" where
  "cas_loop E c retries idx within p s =
     (case load_for_patch E c idx within (length p) s of
        (Err e, s1) \<Rightarrow> (Err e, s1)
      | (Panic, s1) \<Rightarrow> (Panic, s1)
      | (Ok (chunk, etag), s1) \<Rightarrow>
          if within + length p \<le> length chunk then
            (case put_chunk E c idx (patch chunk within p) etag s1 of
               (Ok _, s2) \<Rightarrow> (Ok (), s2)
             | (Panic, s2) \<Rightarrow> (Panic, s2)
             | (Err e, s2) \<Rightarrow>
                 if is_precondition_failed e \<and> 0 < retries
                 then cas_loop E c (retries - 1) idx within p s2
                 else (Err e, s2))
          else (Panic, s1))"

declare cas_loop.simps [simp del]

section \<open>The block store\<close>

definition on_svc :: "('s, 'a) op \<Rightarrow> ('s s3_store, 'a) op" where
  "on_svc m s = (case m (st_svc s) of (r, v) \<Rightarrow> (r, s\<lparr>st_svc := v\<rparr>))"

definition s3_fetch ::
  "('s, 'm) s3_env_scheme \<Rightarrow> s3_conf \<Rightarrow> nat \<Rightarrow> nat \<Rightarrow> nat \<Rightarrow> nat \<Rightarrow> ('s, bytes) op" where
  "s3_fetch E c idx within pos tk =
     bind_op (get_chunk E c idx) (\<lambda>(chunk, _).
       case sub_slice chunk within tk of Some p \<Rightarrow> ret_op p | None \<Rightarrow> panic_op)"

definition s3_read_at :: "('s, 'm) s3_env_scheme \<Rightarrow> nat \<Rightarrow> nat \<Rightarrow> ('s s3_store, bytes) op" where
  "s3_read_at E offset n s =
     (let c = st_conf s in
      guard_op (check_range (s3_capacity c) offset n)
        (on_svc (read_loop (s3_chunk_size c) (s3_fetch E c) offset n 0 (zeros n))) s)"

definition s3_store_piece ::
  "('s, 'm) s3_env_scheme \<Rightarrow> s3_conf \<Rightarrow> nat \<Rightarrow> nat \<Rightarrow> nat \<Rightarrow> bytes \<Rightarrow> ('s, unit) op" where
  "s3_store_piece E c idx within pos p = cas_loop E c (max_cas_attempts - 1) idx within p"

definition s3_write_at :: "('s, 'm) s3_env_scheme \<Rightarrow> nat \<Rightarrow> bytes \<Rightarrow> ('s s3_store, unit) op" where
  "s3_write_at E offset data s =
     (let c = st_conf s in
      guard_op (check_range (s3_capacity c) offset (length data))
        (on_svc (write_loop (s3_chunk_size c) (s3_store_piece E c) offset data 0)) s)"

definition s3_set_capacity :: "('s, 'm) s3_env_scheme \<Rightarrow> nat \<Rightarrow> ('s s3_store, unit) op" where
  "s3_set_capacity E new_capacity s =
     (let c = st_conf s; current = s3_capacity c in
      if s3_block_size c = 0 then (Panic, s)
      else if new_capacity mod s3_block_size c \<noteq> 0 then
        (Err (GeometryMismatch ''capacity must be multiple of block_size''), s)
      else if new_capacity < current then (Err (ShrinkRefused current new_capacity), s)
      else if new_capacity = current then (Ok (), s)
      else
        bind_op (on_svc (put_meta_at E (meta_key c)
            \<lparr>vm_version = meta_version, vm_capacity_bytes = new_capacity,
             vm_chunk_size = s3_chunk_size c, vm_block_size = s3_block_size c,
             vm_compression = s3_compression c, vm_storage = s3_storage c\<rparr>))
          (\<lambda>_ s1. (Ok (), s1\<lparr>st_conf := (st_conf s1)\<lparr>s3_capacity := new_capacity\<rparr>\<rparr>)) s)"

definition s3_present_chunks :: "('s, 'm) s3_env_scheme \<Rightarrow> ('s s3_store, nat list) op" where
  "s3_present_chunks E s = on_svc (list_chunk_indices E (chunks_prefix (st_conf s))) s"

definition s3_delete_chunk :: "('s, 'm) s3_env_scheme \<Rightarrow> nat \<Rightarrow> ('s s3_store, unit) op" where
  "s3_delete_chunk E index s = on_svc (delete_chunk_object E (st_conf s) index) s"

definition s3_ops :: "('s, 'm) s3_env_scheme \<Rightarrow> 's s3_store store_ops" where
  "s3_ops E =
     \<lparr>bs_read_at = s3_read_at E, bs_write_at = s3_write_at E,
      bs_capacity = (\<lambda>s. s3_capacity (st_conf s)), bs_set_capacity = s3_set_capacity E,
      bs_flush = ret_op (), bs_block_size = (\<lambda>s. s3_block_size (st_conf s)),
      bs_chunk_size = (\<lambda>s. s3_chunk_size (st_conf s)),
      bs_present_chunks = s3_present_chunks E, bs_delete_chunk = s3_delete_chunk E\<rparr>"

lemma s3_ops_sel [simp]:
  "bs_read_at (s3_ops E) = s3_read_at E" "bs_write_at (s3_ops E) = s3_write_at E"
  "bs_capacity (s3_ops E) = (\<lambda>s. s3_capacity (st_conf s))" "bs_set_capacity (s3_ops E) = s3_set_capacity E"
  "bs_flush (s3_ops E) = ret_op ()" "bs_block_size (s3_ops E) = (\<lambda>s. s3_block_size (st_conf s))"
  "bs_chunk_size (s3_ops E) = (\<lambda>s. s3_chunk_size (st_conf s))"
  "bs_present_chunks (s3_ops E) = s3_present_chunks E" "bs_delete_chunk (s3_ops E) = s3_delete_chunk E"
  by (simp_all add: s3_ops_def)

section \<open>Opening a volume\<close>

definition plan_capacity ::
  "volume_meta option \<Rightarrow> nat \<Rightarrow> nat \<Rightarrow> nat \<Rightarrow> compression \<Rightarrow> storage_mode \<Rightarrow> (nat \<times> volume_meta option) result" where
  "plan_capacity existing config_capacity chunk_size block_size algo storage =
     (case existing of
        None \<Rightarrow>
          Ok (config_capacity,
            Some \<lparr>vm_version = meta_version, vm_capacity_bytes = config_capacity, vm_chunk_size = chunk_size,
                  vm_block_size = block_size, vm_compression = algo, vm_storage = storage\<rparr>)
      | Some meta \<Rightarrow>
          if vm_chunk_size meta \<noteq> chunk_size then
            Err (GeometryMismatch (''chunk_size config '' @ nat_str chunk_size @ '' != meta '' @ nat_str (vm_chunk_size meta)))
          else if vm_block_size meta \<noteq> block_size then
            Err (GeometryMismatch (''block_size config '' @ nat_str block_size @ '' != meta '' @ nat_str (vm_block_size meta)))
          else if vm_compression meta \<noteq> algo then
            Err (GeometryMismatch (''compression config '' @ [CHR 34] @ compression_as_str algo @ [CHR 34] @
              '' != meta '' @ [CHR 34] @ compression_as_str (vm_compression meta) @ [CHR 34]))
          else if vm_storage meta \<noteq> storage then
            Err (GeometryMismatch (''storage config '' @ storage_as_str storage @ '' != meta '' @ storage_as_str (vm_storage meta)))
          else if config_capacity < vm_capacity_bytes meta then
            Err (ShrinkRefused (vm_capacity_bytes meta) config_capacity)
          else if config_capacity > vm_capacity_bytes meta then
            Ok (config_capacity, Some (meta\<lparr>vm_capacity_bytes := config_capacity\<rparr>))
          else Ok (vm_capacity_bytes meta, None))"

definition probe_layout ::
  "('s, 'm) s3_env_scheme \<Rightarrow> s3_conf \<Rightarrow> storage_mode \<Rightarrow> ('s, storage_mode \<times> volume_meta option) op" where
  "probe_layout E c config =
     bind_op (get_meta_at E (live_meta_key c)) (\<lambda>live.
     bind_op (get_meta_at E (flat_meta_key c)) (\<lambda>flat.
       case (live, flat) of
         (Some m, _) \<Rightarrow>
           if vm_storage m \<noteq> Cow then err_op (Meta ''live/meta.json present but storage is not cow'')
           else if config \<noteq> Cow then
             err_op (GeometryMismatch (''volume meta is storage=cow; set volumes[].storage = '' @ [CHR 34] @ ''cow'' @ [CHR 34]))
           else ret_op (Cow, Some m)
       | (None, Some m) \<Rightarrow>
           if vm_storage m = Cow then err_op (Meta ''flat meta.json claims storage=cow; expected live/ layout'')
           else if config = Cow then
             err_op (GeometryMismatch (''volume is storage=legacy on S3; run `iscsi-s3-ctl volume migrate-cow` then set storage='' @
               [CHR 34] @ ''cow'' @ [CHR 34] @ '' and restart''))
           else ret_op (Legacy, Some m)
       | (None, None) \<Rightarrow> ret_op (config, None)))"

definition resolve_meta ::
  "('s, 'm) s3_env_scheme \<Rightarrow> s3_conf \<Rightarrow> nat \<Rightarrow> volume_meta option \<Rightarrow> ('s, nat) op" where
  "resolve_meta E c config_capacity existing =
     bind_op (of_result (plan_capacity existing config_capacity (s3_chunk_size c) (s3_block_size c)
         (s3_compression c) (s3_storage c)))
       (\<lambda>(effective, to_write).
          case to_write of
            None \<Rightarrow> ret_op effective
          | Some meta \<Rightarrow> bind_op (put_meta_at E (meta_key c) meta) (\<lambda>_. ret_op effective))"

definition has_migration_marker :: "('s, 'm) s3_env_scheme \<Rightarrow> s3_conf \<Rightarrow> ('s, bool) op" where
  "has_migration_marker E c =
     bind_op (get_bytes E (migrating_key c)) (\<lambda>r. ret_op (r \<noteq> None))"

end
