(* ===== verification/S3Refine.thy ===== *)
theory S3Refine
  imports S3Store
begin

text \<open>
  The S3 store implements the block-store contract. First the keys: chunk indices and keys
  determine each other, and the families of keys do not overlap. Then the content of a chunk in
  terms of the objects, what each chunk operation does to it, and the contract.
\<close>

section \<open>Keys\<close>

lemma take_2_12_16:
  assumes "length s = 16"
  shows "take 12 s @ take 2 (drop 12 s) @ take 2 (drop 14 s) = s"
proof -
  have "take 2 (drop 14 s) = drop 14 s" using assms by simp
  moreover have "take 2 (drop 12 s) @ drop 14 s = drop 12 s"
    using append_take_drop_id [of 2 "drop 12 s"] by simp
  ultimately show ?thesis by simp
qed

lemma hex16_parse: "i < 2 ^ 64 \<Longrightarrow> from_str_radix16 (2 ^ 64) (hex_fixed hex_digit 16 i) = Some i"
  by (rule from_str_radix16_hex_fixed) auto

lemma length_shard_chunk_index [simp]: "length (shard_chunk_index i) = 18"
  by (simp add: shard_chunk_index_def Let_def)

lemma index_from_shard: "i < 2 ^ 64 \<Longrightarrow> index_from_chunk_relpath (shard_chunk_index i) = Some i"
proof -
  assume i: "i < 2 ^ 64"
  let ?h = "hex_fixed hex_digit 16 i"
  have "split_legacy_shard (shard_chunk_index i) = Some (take 2 (drop 14 ?h), take 2 (drop 12 ?h), take 12 ?h)"
    by (simp add: split_legacy_shard_def shard_chunk_index_def Let_def nth_append)
  then show ?thesis
    using hex16_parse [OF i] take_2_12_16 [of ?h] by (simp add: index_from_chunk_relpath_def)
qed

lemma index_from_flat: "i < 2 ^ 64 \<Longrightarrow> index_from_chunk_relpath (hex_fixed hex_digit 16 i) = Some i"
proof -
  assume i: "i < 2 ^ 64"
  let ?h = "hex_fixed hex_digit 16 i"
  have "split_legacy_shard ?h = None" by (simp add: split_legacy_shard_def)
  moreover have "?h \<noteq> []" using length_hex_fixed [of hex_digit 16 i] by fastforce
  moreover have "CHR ''/'' \<notin> set ?h" by (simp add: hex_fixed_notin)
  ultimately show ?thesis
    using hex16_parse [OF i] by (simp add: index_from_chunk_relpath_def)
qed

definition is_index :: "nat \<Rightarrow> bool" where
  "is_index i \<longleftrightarrow> i < 2 ^ 64"

lemma hex16_inject [simp]:
  "is_index i \<Longrightarrow> is_index j \<Longrightarrow> hex_fixed hex_digit 16 i = hex_fixed hex_digit 16 j \<longleftrightarrow> i = j"
  unfolding is_index_def by (metis index_from_flat option.inject)

lemma shard_inject [simp]:
  "is_index i \<Longrightarrow> is_index j \<Longrightarrow> shard_chunk_index i = shard_chunk_index j \<longleftrightarrow> i = j"
  unfolding is_index_def by (metis index_from_shard option.inject)

lemma shard_neq_flat [simp]: "shard_chunk_index i \<noteq> hex_fixed hex_digit 16 j"
  by (metis length_shard_chunk_index length_hex_fixed numeral_eq_iff num.distinct(5) num.inject(1))

lemmas key_defs = legacy_chunk_key_def legacy_flat_chunk_key_def object_key_def flat_meta_key_def
  live_meta_key_def migrating_key_def

lemma legacy_keys [simp]:
  "is_index i \<Longrightarrow> is_index j \<Longrightarrow> legacy_chunk_key c i = legacy_chunk_key c j \<longleftrightarrow> i = j"
  "is_index i \<Longrightarrow> is_index j \<Longrightarrow> legacy_flat_chunk_key c i = legacy_flat_chunk_key c j \<longleftrightarrow> i = j"
  "legacy_chunk_key c i \<noteq> legacy_flat_chunk_key c j" "legacy_flat_chunk_key c j \<noteq> legacy_chunk_key c i"
  by (simp_all add: key_defs shard_neq_flat [symmetric])

lemma cow_chunk_key: "s3_storage c = Cow \<Longrightarrow> chunk_key c i = s3_prefix c @ ''/live/chunks/'' @ hex_fixed hex_digit 16 i"
  by (simp add: chunk_key_def chunks_prefix_def)

lemma cow_keys [simp]:
  "s3_storage c = Cow \<Longrightarrow> is_index i \<Longrightarrow> is_index j \<Longrightarrow> chunk_key c i = chunk_key c j \<longleftrightarrow> i = j"
  "s3_storage c = Cow \<Longrightarrow> chunk_key c i \<noteq> object_key c h"
  "s3_storage c = Cow \<Longrightarrow> object_key c h \<noteq> chunk_key c i"
  by (simp_all add: cow_chunk_key key_defs)

lemma object_keys [simp]:
  "length h = hash_len \<Longrightarrow> length h' = hash_len \<Longrightarrow> object_key c h = object_key c h' \<longleftrightarrow> h = h'"
  by (simp add: object_key_def object_relpath_inject)

section \<open>The content of a chunk\<close>

fun result_opt :: "'a result \<Rightarrow> 'a option" where
  "result_opt (Ok a) = Some a"
| "result_opt (Err e) = None"
| "result_opt Panic = None"

lemma result_opt_Some [simp]: "result_opt r = Some a \<longleftrightarrow> r = Ok a"
  by (cases r) auto

definition decoded :: "('s, 'm) s3_env_scheme \<Rightarrow> s3_conf \<Rightarrow> bytes \<Rightarrow> bytes option" where
  "decoded E c body = result_opt (decode_chunk (e_codec E) (s3_compression c) body (s3_chunk_size c))"

definition chunk_value :: "('s, 'm) s3_env_scheme \<Rightarrow> s3_conf \<Rightarrow> (string \<rightharpoonup> bytes) \<Rightarrow> nat \<Rightarrow> bytes option" where
  "chunk_value E c ob idx =
     (case s3_storage c of
        Legacy \<Rightarrow>
          (case ob (legacy_chunk_key c idx) of
             Some b \<Rightarrow> decoded E c b
           | None \<Rightarrow>
               (case ob (legacy_flat_chunk_key c idx) of
                  Some b \<Rightarrow> decoded E c b
                | None \<Rightarrow> Some (zeros (s3_chunk_size c))))
      | Cow \<Rightarrow>
          (case ob (chunk_key c idx) of
             None \<Rightarrow> Some (zeros (s3_chunk_size c))
           | Some p \<Rightarrow>
               (case decode_pointer p of
                  Ok h \<Rightarrow> (case ob (object_key c h) of None \<Rightarrow> None | Some b \<Rightarrow> decoded E c b)
                | _ \<Rightarrow> None)))"

text \<open>
  The object pool of a copy-on-write volume is content addressed: every object stands under the
  hash of its body, and its body is one of the encodings in \<open>U\<close>.
\<close>

definition pool_ok :: "('s, 'm) s3_env_scheme \<Rightarrow> s3_conf \<Rightarrow> bytes set \<Rightarrow> (string \<rightharpoonup> bytes) \<Rightarrow> bool" where
  "pool_ok E c U ob \<longleftrightarrow>
     (s3_storage c = Cow \<longrightarrow>
       (\<forall>h b. length h = hash_len \<longrightarrow> ob (object_key c h) = Some b \<longrightarrow> e_blake3 E b = h \<and> b \<in> U))"

definition s3_adm :: "('s, 'm) s3_env_scheme \<Rightarrow> compression \<Rightarrow> bytes set \<Rightarrow> bytes \<Rightarrow> bool" where
  "s3_adm E a U x \<longleftrightarrow> (\<forall>b. encode_chunk (e_codec E) a x = Ok b \<longrightarrow> b \<in> U)"

definition chunks_hold ::
  "('s, 'm) s3_env_scheme \<Rightarrow> s3_conf \<Rightarrow> (string \<rightharpoonup> bytes) \<Rightarrow> (nat \<Rightarrow> byte) \<Rightarrow> bool" where
  "chunks_hold E c ob d \<longleftrightarrow>
     (\<forall>i. is_index i \<longrightarrow> chunk_value E c ob i = Some (disk_read d (i * s3_chunk_size c) (s3_chunk_size c)))"

definition codable :: "s3_conf \<Rightarrow> bool" where
  "codable c \<longleftrightarrow> s3_compression c \<noteq> CNone \<longrightarrow> s3_chunk_size c < 2 ^ 32"

definition s3_rep ::
  "('s, 'm) s3_env_scheme \<Rightarrow> ('s \<Rightarrow> string \<rightharpoonup> bytes) \<Rightarrow> compression \<Rightarrow> bytes set \<Rightarrow>
    (nat \<Rightarrow> byte) \<Rightarrow> geometry \<Rightarrow> 's s3_store \<Rightarrow> bool" where
  "s3_rep E objs a U d g s \<longleftrightarrow>
     (let c = st_conf s; ob = objs (st_svc s) in
      g = \<lparr>g_cap = s3_capacity c, g_chunk = s3_chunk_size c, g_block = s3_block_size c\<rparr> \<and>
      wf_geom g \<and> zero_beyond (g_cap g) d \<and> s3_compression c = a \<and> codable c \<and>
      chunks_hold E c ob d \<and> pool_ok E c U ob)"

lemma decode_encode_codable:
  assumes "codec_laws (e_codec E)" and "codable c" and "encode_chunk (e_codec E) (s3_compression c) x = Ok b"
    and "length x = s3_chunk_size c"
  shows "decoded E c b = Some x"
proof (cases "s3_compression c = CNone")
  case True
  with assms show ?thesis by (simp add: decoded_def encode_chunk_def decode_chunk_def)
next
  case False
  with assms show ?thesis
    using decode_encode_chunk [OF assms(1,3)] by (simp add: decoded_def codable_def)
qed

section \<open>Chunk operations\<close>

lemma hoare_of_result:
  "(\<And>a s. r = Ok a \<Longrightarrow> P s \<Longrightarrow> Q a s) \<Longrightarrow> (\<And>e s. r = Err e \<Longrightarrow> P s \<Longrightarrow> F s) \<Longrightarrow> r \<noteq> Panic \<Longrightarrow>
     hoare P (of_result r) Q F"
  by (cases r) (auto simp: hoare_def of_result_def)

lemma decode_step_hoare:
  assumes "\<And>s. P s \<Longrightarrow> objs s = ob \<and> chunk_value E c ob i = decoded E c b"
  shows "hoare P
     (bind_op (of_result (decode_chunk (e_codec E) (s3_compression c) b (s3_chunk_size c))) (\<lambda>plain. ret_op (plain, t)))
     (\<lambda>(x, etag) s. objs s = ob \<and> chunk_value E c ob i = Some x) (\<lambda>s. objs s = ob)"
  by (rule hoare_bind [OF hoare_of_result [where Q = "\<lambda>x s. objs s = ob \<and> chunk_value E c ob i = Some x"]])
    (use assms in \<open>auto simp: hoare_def ret_op_def decoded_def decode_chunk_no_panic\<close>)

lemma get_chunk_hoare:
  assumes "get_law E objs"
  shows "hoare (\<lambda>s. objs s = ob) (get_chunk E c i)
    (\<lambda>(x, etag) s. objs s = ob \<and> chunk_value E c ob i = Some x) (\<lambda>s. objs s = ob)"
proof (cases "s3_storage c")
  case Legacy
  note G = get_bytes_hoare [OF assms, of ob]
  show ?thesis
    unfolding get_chunk_def get_legacy_chunk_def Legacy storage_mode.case
  proof (rule hoare_bind [OF G], goal_cases)
    case (1 r)
    show ?case
    proof (cases r)
      case None
      have "hoare (\<lambda>s. objs s = ob \<and> map_option fst r = ob (legacy_chunk_key c i))
          (get_bytes E (legacy_flat_chunk_key c i))
          (\<lambda>r2 s. (objs s = ob \<and> map_option fst r2 = ob (legacy_flat_chunk_key c i)) \<and> ob (legacy_chunk_key c i) = None)
          (\<lambda>s. objs s = ob)"
        using G [of "legacy_flat_chunk_key c i"] None by (auto simp: hoare_def elim!: post_mono)
      then show ?thesis
        unfolding None option.case
      proof (rule hoare_bind, goal_cases)
        case (1 r2)
        show ?case
        proof (cases r2)
          case None
          then show ?thesis
            by (auto simp: hoare_def ret_op_def chunk_value_def Legacy)
        next
          case (Some p)
          obtain b t where p: "p = (b, t)" by fastforce
          show ?thesis
            unfolding Some p option.case prod.case
            by (rule decode_step_hoare) (auto simp: chunk_value_def Legacy Some p split: option.splits)
        qed
      qed
    next
      case (Some p)
      obtain b t where p: "p = (b, t)" by fastforce
      show ?thesis
        unfolding Some p option.case prod.case
        by (rule decode_step_hoare) (auto simp: chunk_value_def Legacy Some p split: option.splits)
    qed
  qed
next
  case Cow
  note G = get_bytes_hoare [OF assms, of ob]
  show ?thesis
    unfolding get_chunk_def Cow storage_mode.case
  proof (rule hoare_bind [OF G], goal_cases)
    case (1 r)
    show ?case
    proof (cases r)
      case None
      then show ?thesis
        by (auto simp: hoare_def ret_op_def chunk_value_def Cow)
    next
      case (Some p)
      obtain pb etag where p: "p = (pb, etag)" by fastforce
      let ?P = "\<lambda>s. objs s = ob \<and> ob (chunk_key c i) = Some pb"
      have inner: "hoare (\<lambda>s. ?P s \<and> decode_pointer pb = Ok h) (bind_op (get_bytes E (object_key c h)) (\<lambda>r2. case r2 of
                  None \<Rightarrow> err_op (Other (''missing cow object for chunk '' @ nat_str i))
                | Some (body, _) \<Rightarrow>
                    bind_op (of_result (decode_chunk (e_codec E) (s3_compression c) body (s3_chunk_size c)))
                      (\<lambda>plain. ret_op (plain, etag))))
          (\<lambda>(x, etag) s. objs s = ob \<and> chunk_value E c ob i = Some x) (\<lambda>s. objs s = ob)" for h
      proof (rule hoare_bind [where R = "\<lambda>r2 s. ?P s \<and> decode_pointer pb = Ok h \<and> map_option fst r2 = ob (object_key c h)"], goal_cases)
        case 1
        show ?case
          using G [of "object_key c h"] by (auto simp: hoare_def elim!: post_mono)
      next
        case (2 r2)
        show ?case
        proof (cases r2)
          case None
          then show ?thesis by (simp add: hoare_def err_op_def)
        next
          case (Some q)
          obtain b t where q: "q = (b, t)" by fastforce
          show ?thesis
            unfolding Some q option.case prod.case
            by (rule decode_step_hoare) (auto simp: chunk_value_def Cow Some q split: option.splits)
        qed
      qed
      show ?thesis
        unfolding Some p option.case prod.case
        by (rule hoare_bind [OF hoare_of_result [where Q = "\<lambda>h s. ?P s \<and> decode_pointer pb = Ok h"] inner])
          (auto simp: decode_pointer_no_panic)
    qed
  qed
qed

text \<open>
  \<open>keeps_chunks\<close>: no readable chunk changes its content. \<open>sets_chunk\<close>: one chunk gets a new
  content and the others keep theirs.
\<close>

definition keeps_chunks :: "('s, 'm) s3_env_scheme \<Rightarrow> s3_conf \<Rightarrow> (string \<rightharpoonup> bytes) \<Rightarrow> (string \<rightharpoonup> bytes) \<Rightarrow> bool" where
  "keeps_chunks E c ob ob' \<longleftrightarrow>
     (\<forall>j v. is_index j \<longrightarrow> chunk_value E c ob j = Some v \<longrightarrow> chunk_value E c ob' j = Some v)"

definition sets_chunk ::
  "('s, 'm) s3_env_scheme \<Rightarrow> s3_conf \<Rightarrow> nat \<Rightarrow> bytes \<Rightarrow> (string \<rightharpoonup> bytes) \<Rightarrow> (string \<rightharpoonup> bytes) \<Rightarrow> bool" where
  "sets_chunk E c i x ob ob' \<longleftrightarrow>
     chunk_value E c ob' i = Some x \<and>
     (\<forall>j v. is_index j \<longrightarrow> j \<noteq> i \<longrightarrow> chunk_value E c ob j = Some v \<longrightarrow> chunk_value E c ob' j = Some v)"

lemma keeps_chunks_refl [simp]: "keeps_chunks E c ob ob"
  by (simp add: keeps_chunks_def)

lemma sets_after_keeps: "keeps_chunks E c ob ob1 \<Longrightarrow> sets_chunk E c i x ob1 ob2 \<Longrightarrow> sets_chunk E c i x ob ob2"
  by (auto simp: keeps_chunks_def sets_chunk_def)

lemma legacy_put_sets:
  assumes "s3_storage c = Legacy" and "is_index i" and "decoded E c b = Some x"
    and "ob' = ob(legacy_chunk_key c i \<mapsto> b) \<or> ob' = (ob(legacy_chunk_key c i \<mapsto> b))(legacy_flat_chunk_key c i := None)"
  shows "sets_chunk E c i x ob ob'"
  using assms by (auto simp: sets_chunk_def chunk_value_def split: option.splits)

lemma pool_add:
  assumes "s3_storage c = Cow" and "pool_ok E c U ob" and "inj_on (e_blake3 E) U" and "b \<in> U"
    and "length (e_blake3 E b) = hash_len"
  shows "pool_ok E c U (ob(object_key c (e_blake3 E b) \<mapsto> b))"
    and "keeps_chunks E c ob (ob(object_key c (e_blake3 E b) \<mapsto> b))"
proof -
  let ?h = "e_blake3 E b"
  show "pool_ok E c U (ob(object_key c ?h \<mapsto> b))"
    using assms by (auto simp: pool_ok_def)
  have same: "b0 = b" if "ob (object_key c ?h) = Some b0" for b0
    using assms that by (auto simp: pool_ok_def dest: inj_onD)
  have "chunk_value E c (ob(object_key c ?h \<mapsto> b)) j = Some v" if v: "chunk_value E c ob j = Some v" for j v
  proof (cases "ob (chunk_key c j)")
    case None
    with v assms(1) show ?thesis by (simp add: chunk_value_def)
  next
    case (Some p)
    with v assms(1) obtain h b0 where h: "decode_pointer p = Ok h" "ob (object_key c h) = Some b0"
      "decoded E c b0 = Some v"
      by (auto simp: chunk_value_def split: result.splits option.splits)
    have "length h = hash_len" using decode_pointer_Ok [OF h(1)] by simp
    then show ?thesis
      using assms(1,5) Some h same by (cases "h = ?h") (auto simp: chunk_value_def)
  qed
  then show "keeps_chunks E c ob (ob(object_key c ?h \<mapsto> b))"
    by (simp add: keeps_chunks_def)
qed

lemma cow_pointer_sets:
  assumes "s3_storage c = Cow" and "is_index i" and "pool_ok E c U ob" and "ob (object_key c h) = Some b"
    and "length h = hash_len" and "decoded E c b = Some x"
  shows "sets_chunk E c i x ob (ob(chunk_key c i \<mapsto> encode_pointer h))"
    and "pool_ok E c U (ob(chunk_key c i \<mapsto> encode_pointer h))"
proof -
  let ?ob = "ob(chunk_key c i \<mapsto> encode_pointer h)"
  have dec: "decode_pointer (encode_pointer h) = Ok h"
    using assms(5) by (rule decode_encode_pointer)
  have "chunk_value E c ?ob i = Some x"
    using assms dec by (simp add: chunk_value_def)
  moreover have "chunk_value E c ?ob j = chunk_value E c ob j" if "is_index j" "j \<noteq> i" for j
    using assms(1,2) that by (auto simp: chunk_value_def split: option.splits result.splits)
  ultimately show "sets_chunk E c i x ob ?ob"
    by (simp add: sets_chunk_def)
  show "pool_ok E c U ?ob"
    using assms(1,3) by (simp add: pool_ok_def)
qed

text \<open>The two outcomes of \<open>put_chunk\<close> the caller depends on.\<close>

lemma put_chunk_legacy_hoare:
  assumes L: "s3_laws E objs" and c: "s3_storage c = Legacy" "codable c" and i: "is_index i"
  shows "hoare (\<lambda>s. objs s = ob) (put_chunk E c i x im)
    (\<lambda>_ s. sets_chunk E c i x ob (objs s)) (\<lambda>_. True)"
proof (cases "length x = s3_chunk_size c")
  case True
  let ?ob = "\<lambda>b. ob(legacy_chunk_key c i \<mapsto> b)"
  have put: "hoare (\<lambda>s. objs s = ob) (bind_op (put_bytes E (legacy_chunk_key c i) b None im)
        (\<lambda>_. ignore_err (delete_object_key E (legacy_flat_chunk_key c i))))
      (\<lambda>_ s. objs s = ?ob b \<or> objs s = (?ob b)(legacy_flat_chunk_key c i := None)) (\<lambda>_. True)" for b
    by (rule hoare_bind [where R = "\<lambda>_ s. objs s = ?ob b"])
      (auto intro: hoare_conseq [OF put_bytes_hoare [OF s3_lawsD(2) [OF L]]]
        hoare_conseq [OF ignore_delete_hoare [OF s3_lawsD(3) [OF L]]])
  show ?thesis
    unfolding put_chunk_def c storage_mode.case
  proof (simp only: True simp_thms if_False,
      rule hoare_bind [where R = "\<lambda>b s. objs s = ob \<and> decoded E c b = Some x"], goal_cases)
    case 1
    show ?case
      by (rule hoare_of_result)
        (use decode_encode_codable [OF s3_lawsD(5) [OF L] c(2) _ True] encode_chunk_no_panic in auto)
  next
    case (2 b)
    show ?case
    proof (cases "decoded E c b = Some x")
      case True
      then show ?thesis
        by (auto intro!: hoare_conseq [OF put [of b]] legacy_put_sets [OF c(1) i True])
    qed (simp add: hoare_def)
  qed
qed (simp add: put_chunk_def hoare_def err_op_def)

lemma put_chunk_cow_hoare:
  assumes L: "s3_laws E objs" and c: "s3_storage c = Cow" "codable c" and i: "is_index i"
    and U: "inj_on (e_blake3 E) U" and adm: "s3_adm E (s3_compression c) U x" and pool: "pool_ok E c U ob"
  shows "hoare (\<lambda>s. objs s = ob) (put_chunk E c i x im)
    (\<lambda>_ s. sets_chunk E c i x ob (objs s) \<and> pool_ok E c U (objs s)) (\<lambda>_. True)"
proof (cases "length x = s3_chunk_size c")
  case True
  let ?ob = "\<lambda>b. ob(object_key c (e_blake3 E b) \<mapsto> b)"
  have put: "hoare (\<lambda>s. objs s = ob) (bind_op (put_bytes E (object_key c (e_blake3 E b)) b None None)
        (\<lambda>_. put_bytes E (chunk_key c i) (encode_pointer (e_blake3 E b)) None im))
      (\<lambda>_ s. objs s = (?ob b)(chunk_key c i \<mapsto> encode_pointer (e_blake3 E b))) (\<lambda>_. True)" for b
    by (rule hoare_bind [where R = "\<lambda>_ s. objs s = ?ob b"])
      (auto intro: hoare_conseq [OF put_bytes_hoare [OF s3_lawsD(2) [OF L]]])
  have eff: "sets_chunk E c i x ob ((?ob b)(chunk_key c i \<mapsto> encode_pointer (e_blake3 E b))) \<and>
      pool_ok E c U ((?ob b)(chunk_key c i \<mapsto> encode_pointer (e_blake3 E b)))"
    if "decoded E c b = Some x" "b \<in> U" for b
  proof -
    note h = s3_lawsD(6) [OF L, of b]
    note P = pool_add [OF c(1) pool U that(2) h]
    have key: "?ob b (object_key c (e_blake3 E b)) = Some b" by simp
    show ?thesis
      using cow_pointer_sets [OF c(1) i P(1) key h that(1)] P(2) sets_after_keeps by blast
  qed
  show ?thesis
    unfolding put_chunk_def c storage_mode.case
  proof (simp only: True simp_thms if_False,
      rule hoare_bind [where R = "\<lambda>b s. objs s = ob \<and> decoded E c b = Some x \<and> b \<in> U"], goal_cases)
    case 1
    show ?case
      by (rule hoare_of_result)
        (use decode_encode_codable [OF s3_lawsD(5) [OF L] c(2) _ True] encode_chunk_no_panic adm
          in \<open>auto simp: s3_adm_def\<close>)
  next
    case (2 b)
    show ?case
    proof (cases "decoded E c b = Some x \<and> b \<in> U")
      case True
      then show ?thesis
        using eff [of b] by (auto simp: Let_def intro!: hoare_conseq [OF put [of b]])
    qed (auto simp: hoare_def)
  qed
qed (simp add: put_chunk_def hoare_def err_op_def)

lemma put_chunk_hoare:
  assumes "s3_laws E objs" and "codable c" and "is_index i" and "inj_on (e_blake3 E) U"
    and "s3_adm E (s3_compression c) U x" and "pool_ok E c U ob"
  shows "hoare (\<lambda>s. objs s = ob) (put_chunk E c i x im)
    (\<lambda>_ s. sets_chunk E c i x ob (objs s) \<and> pool_ok E c U (objs s)) (\<lambda>_. True)"
proof (cases "s3_storage c")
  case Legacy
  then show ?thesis
    using put_chunk_legacy_hoare [OF assms(1) Legacy assms(2,3)]
    by (auto simp: pool_ok_def elim: hoare_conseq)
qed (use put_chunk_cow_hoare assms in blast)

text \<open>A refused conditional put leaves every chunk as it was; at most a new pool object remains.\<close>

lemma encode_chunk_err: "encode_chunk L a x = Err e \<Longrightarrow> \<not> is_precondition_failed e"
  by (cases a; cases "zstd_compress L x"; cases "deflate_finish L x"; cases "deflate_write_all L x")
    (auto simp: encode_chunk_def)

lemma put_bytes_keeps:
  "put_law E objs \<Longrightarrow> put_bytes E k b ct im s = (Ok (), s') \<Longrightarrow> objs s' = (objs s)(k \<mapsto> b)"
  using hoare_post [OF put_bytes_hoare [of E objs "objs s" k b ct im], of s] by simp

lemma put_chunk_precondition:
  assumes L: "s3_laws E objs" and U: "inj_on (e_blake3 E) U" and adm: "s3_adm E (s3_compression c) U x"
    and pool: "pool_ok E c U (objs s)"
    and put: "put_chunk E c i x im s = (Err e, s')" and e: "is_precondition_failed e"
  shows "keeps_chunks E c (objs s) (objs s') \<and> pool_ok E c U (objs s')"
proof -
  note put_law = s3_lawsD(2) [OF L]
  have len: "length x = s3_chunk_size c"
    using put e by (auto simp: put_chunk_def err_op_def split: if_splits)
  obtain b where b: "encode_chunk (e_codec E) (s3_compression c) x = Ok b"
    using put e len encode_chunk_err [of "e_codec E" "s3_compression c" x]
      encode_chunk_no_panic [of "e_codec E" "s3_compression c" x]
    by (cases "encode_chunk (e_codec E) (s3_compression c) x") (auto simp: put_chunk_def bind_op_def of_result_def)
  show ?thesis
  proof (cases "s3_storage c")
    case Legacy
    have "put_bytes E (legacy_chunk_key c i) b None im s = (Err e, s')"
      using put len b by (auto simp: put_chunk_def bind_op_def of_result_def Legacy ignore_err_def
          split: prod.splits result.splits)
    then have "objs s' = objs s"
      using put_bytes_precondition [OF put_law _ e] by blast
    with pool show ?thesis by simp
  next
    case Cow
    let ?h = "e_blake3 E b"
    have "b \<in> U" using adm b by (simp add: s3_adm_def)
    note P = pool_add [OF Cow pool U this s3_lawsD(6) [OF L]]
    consider "put_bytes E (object_key c ?h) b None None s = (Err e, s')"
      | s1 where "put_bytes E (object_key c ?h) b None None s = (Ok (), s1)"
          "put_bytes E (chunk_key c i) (encode_pointer ?h) None im s1 = (Err e, s')"
      using put len b by (auto simp: put_chunk_def bind_op_Err of_result_def Cow Let_def)
    then show ?thesis
    proof cases
      case 1
      then have "objs s' = objs s"
        using put_bytes_precondition [OF put_law _ e] by blast
      with pool show ?thesis by simp
    next
      case 2
      then have "objs s' = (objs s)(object_key c ?h \<mapsto> b)"
        using put_bytes_precondition [OF put_law _ e] put_bytes_keeps [OF put_law] by metis
      with P show ?thesis by simp
    qed
  qed
qed

section \<open>The retry loop and deletion\<close>

lemma chunks_hold_keeps:
  "chunks_hold E c ob d \<Longrightarrow> keeps_chunks E c ob ob' \<Longrightarrow> chunks_hold E c ob' d"
  by (simp add: chunks_hold_def keeps_chunks_def)

lemma chunk_write_outside:
  assumes "w + length p \<le> cs" and "k div cs \<noteq> i"
  shows "disk_write d (i * cs + w) p k = d k"
  using assms chunk_of_range [of i cs k] by (intro disk_write_outside) linarith

lemma chunk_read_other:
  assumes "\<And>k. k div cs \<noteq> i \<Longrightarrow> d' k = d k" and "j \<noteq> i"
  shows "disk_read d' (j * cs) cs = disk_read d (j * cs) cs"
proof (rule disk_read_cong)
  fix k assume "j * cs \<le> k" "k < j * cs + cs"
  then have "k div cs = j" by (rule chunk_of_range)
  with assms show "d' k = d k" by simp
qed

lemma chunks_hold_sets:
  assumes "chunks_hold E c ob d" and "sets_chunk E c i (disk_read d' (i * s3_chunk_size c) (s3_chunk_size c)) ob ob'"
    and "\<And>k. k div s3_chunk_size c \<noteq> i \<Longrightarrow> d' k = d k"
  shows "chunks_hold E c ob' d'"
  unfolding chunks_hold_def
proof (intro allI impI)
  fix j assume j: "is_index j"
  show "chunk_value E c ob' j = Some (disk_read d' (j * s3_chunk_size c) (s3_chunk_size c))"
    using assms(1,2) j chunk_read_other [where cs = "s3_chunk_size c" and i = i and j = j, OF assms(3)]
    by (cases "j = i") (auto simp: sets_chunk_def chunks_hold_def)
qed

lemma load_for_patch_hoare:
  assumes "get_law E objs" and "is_index i" and "w + length p \<le> s3_chunk_size c"
  shows "hoare (\<lambda>s. chunks_hold E c (objs s) d \<and> objs s = ob) (load_for_patch E c i w (length p))
    (\<lambda>(x, etag) s. objs s = ob \<and> length x = s3_chunk_size c \<and>
       patch x w p = disk_read (disk_write d (i * s3_chunk_size c + w) p) (i * s3_chunk_size c) (s3_chunk_size c))
    (\<lambda>s. objs s = ob)"
proof (cases "w = 0 \<and> length p = s3_chunk_size c")
  case True
  then have "patch (zeros (s3_chunk_size c)) w p = p" by (simp add: patch_def)
  moreover have "disk_read (disk_write d (i * s3_chunk_size c + w) p) (i * s3_chunk_size c) (s3_chunk_size c) = p"
    using True disk_read_disk_write_same [of d "i * s3_chunk_size c" p] by simp
  ultimately show ?thesis
    using True by (simp add: load_for_patch_def hoare_def ret_op_def)
next
  case False
  then have eq: "load_for_patch E c i w (length p) = get_chunk E c i"
    by (auto simp: load_for_patch_def fun_eq_iff)
  show ?thesis
  proof (cases "chunks_hold E c ob d")
    case True
    then have v: "chunk_value E c ob i = Some (disk_read d (i * s3_chunk_size c) (s3_chunk_size c))"
      using assms(2) by (simp add: chunks_hold_def)
    show ?thesis
      unfolding eq
      by (rule hoare_conseq [OF get_chunk_hoare [OF assms(1), of ob c i]])
        (use v assms(3) in \<open>auto simp: patch_disk_read\<close>)
  qed (auto simp: hoare_def)
qed

text \<open>The state of the chunks, without the configuration, that the store's operations keep.\<close>

definition svc_rep ::
  "('s, 'm) s3_env_scheme \<Rightarrow> ('s \<Rightarrow> string \<rightharpoonup> bytes) \<Rightarrow> s3_conf \<Rightarrow> bytes set \<Rightarrow> (nat \<Rightarrow> byte) \<Rightarrow> 's \<Rightarrow> bool" where
  "svc_rep E objs c U d s \<longleftrightarrow> chunks_hold E c (objs s) d \<and> pool_ok E c U (objs s)"

text \<open>Any further property of the service state that every admissible \<open>put_chunk\<close> keeps.\<close>

definition put_keeps ::
  "('s, 'm) s3_env_scheme \<Rightarrow> ('s \<Rightarrow> string \<rightharpoonup> bytes) \<Rightarrow> s3_conf \<Rightarrow> bytes set \<Rightarrow> ('s \<Rightarrow> bool) \<Rightarrow> bool" where
  "put_keeps E objs c U I \<longleftrightarrow>
     (\<forall>s s'. I s \<longrightarrow> objs s' = objs s \<longrightarrow> I s') \<and>
     (\<forall>i x im. is_index i \<longrightarrow> s3_adm E (s3_compression c) U x \<longrightarrow>
        hoare (\<lambda>s. pool_ok E c U (objs s) \<and> I s) (put_chunk E c i x im) (\<lambda>_. I) I)"

lemma put_keeps_True:
  assumes "s3_laws E objs" and "codable c" and "inj_on (e_blake3 E) U"
  shows "put_keeps E objs c U (\<lambda>_. True)"
  unfolding put_keeps_def
proof (intro conjI allI impI)
  fix i x im assume "is_index i" "s3_adm E (s3_compression c) U x"
  then have "post (\<lambda>_ _. True) (\<lambda>_. True) (put_chunk E c i x im s)" if "pool_ok E c U (objs s)" for s
    using hoare_post [OF put_chunk_hoare [OF assms(1,2) _ assms(3), of i x "objs s" im], of s] that
    by (auto elim: post_mono)
  then show "hoare (\<lambda>s. pool_ok E c U (objs s) \<and> True) (put_chunk E c i x im) (\<lambda>_ _. True) (\<lambda>_. True)"
    by (simp add: hoare_def)
qed simp

lemma cas_loop_hoare:
  assumes L: "s3_laws E objs" and c: "codable c" and i: "is_index i" and U: "inj_on (e_blake3 E) U"
    and w: "w + length p \<le> s3_chunk_size c" and I: "put_keeps E objs c U I"
    and adm: "s3_adm E (s3_compression c) U
      (disk_read (disk_write d (i * s3_chunk_size c + w) p) (i * s3_chunk_size c) (s3_chunk_size c))"
  shows "hoare (\<lambda>s. svc_rep E objs c U d s \<and> I s) (cas_loop E c n i w p)
    (\<lambda>_ s. svc_rep E objs c U (disk_write d (i * s3_chunk_size c + w) p) s \<and> I s) I"
proof (induction n rule: less_induct)
  case (less n)
  let ?D = "disk_write d (i * s3_chunk_size c + w) p"
  let ?x = "disk_read ?D (i * s3_chunk_size c) (s3_chunk_size c)"
  show ?case
    unfolding hoare_def
  proof (intro allI impI)
    fix s assume s: "svc_rep E objs c U d s \<and> I s"
    then have hold: "chunks_hold E c (objs s) d" and pool: "pool_ok E c U (objs s)" and Is: "I s"
      by (auto simp: svc_rep_def)
    obtain r s1 where ld: "load_for_patch E c i w (length p) s = (r, s1)" by fastforce
    note R = hoareD [OF load_for_patch_hoare [OF s3_lawsD(1) [OF L] i w, of d "objs s"] _ ld]
    have I_eq: "objs s' = objs s \<Longrightarrow> I s'" for s'
      using I Is by (auto simp: put_keeps_def)
    show "post (\<lambda>_ s. svc_rep E objs c U ?D s \<and> I s) I (cas_loop E c n i w p s)"
    proof (cases r)
      case (Ok xt)
      obtain x etag where xt: "xt = (x, etag)" by fastforce
      have x: "objs s1 = objs s" "length x = s3_chunk_size c" "patch x w p = ?x"
        using R(2) [of xt] hold Ok xt by auto
      obtain r2 s2 where put: "put_chunk E c i ?x etag s1 = (r2, s2)" by fastforce
      note P = hoareD [OF put_chunk_hoare [OF L c i U adm pool] x(1) put]
      have "hoare (\<lambda>s. pool_ok E c U (objs s) \<and> I s) (put_chunk E c i ?x etag) (\<lambda>_. I) I"
        using I i adm by (simp add: put_keeps_def)
      note J = hoareD [OF this _ put]
      have I2: "r2 \<noteq> Panic \<Longrightarrow> I s2"
        using J(2,3) pool x(1) I_eq by (cases r2) auto
      have out: "\<And>k. k div s3_chunk_size c \<noteq> i \<Longrightarrow> ?D k = d k"
        using w by (rule chunk_write_outside)
      have unf: "cas_loop E c n i w p s =
          (case r2 of Ok _ \<Rightarrow> (Ok (), s2) | Panic \<Rightarrow> (Panic, s2)
           | Err e \<Rightarrow> if is_precondition_failed e \<and> 0 < n then cas_loop E c (n - 1) i w p s2 else (Err e, s2))"
        using w x put by (simp add: cas_loop.simps [of E c n] ld Ok xt split: result.splits)
      show ?thesis
      proof (cases r2)
        case (Ok u)
        with P(2) have "sets_chunk E c i ?x (objs s) (objs s2)" "pool_ok E c U (objs s2)" by auto
        then show ?thesis
          using chunks_hold_sets [OF hold _ out] I2 by (simp add: unf Ok svc_rep_def)
      next
        case (Err e)
        show ?thesis
        proof (cases "is_precondition_failed e \<and> 0 < n")
          case True
          have "svc_rep E objs c U d s2"
            using put_chunk_precondition [OF L U adm, of s1 i etag e s2] pool put Err True hold x(1)
              chunks_hold_keeps by (auto simp: svc_rep_def)
          then show ?thesis
            using hoare_post [OF less.IH [of "n - 1"], of s2] True I2 by (simp add: unf Err)
        qed (use I2 in \<open>auto simp: unf Err\<close>)
      qed (use P in simp)
    qed (use R hold I_eq in \<open>auto simp: cas_loop.simps [of E c n] ld\<close>)
  qed
qed

lemma legacy_delete_sets:
  assumes "s3_storage c = Legacy" and "is_index i"
  shows "sets_chunk E c i (zeros (s3_chunk_size c)) ob
    ((ob(legacy_chunk_key c i := None))(legacy_flat_chunk_key c i := None))"
  using assms by (auto simp: sets_chunk_def chunk_value_def split: option.splits)

lemma cow_delete_sets:
  assumes "s3_storage c = Cow" and "is_index i"
  shows "sets_chunk E c i (zeros (s3_chunk_size c)) ob (ob(chunk_key c i := None))"
  using assms by (auto simp: sets_chunk_def chunk_value_def split: option.splits result.splits)

lemma pool_ok_delete:
  "s3_storage c = Cow \<Longrightarrow> pool_ok E c U ob \<Longrightarrow> pool_ok E c U (ob(chunk_key c i := None))"
  by (simp add: pool_ok_def)

lemma clear_chunk_read: "disk_read (clear_chunk cs d i) (i * cs) cs = zeros cs"
  by (rule nth_equalityI) (auto simp: clear_chunk_def)

lemma delete_chunk_object_hoare:
  assumes L: "s3_laws E objs" and i: "is_index i"
  shows "hoare (svc_rep E objs c U d) (delete_chunk_object E c i)
    (\<lambda>_. svc_rep E objs c U (clear_chunk (s3_chunk_size c) d i)) (\<lambda>_. True)"
  unfolding hoare_def
proof (intro allI impI)
  fix s assume s: "svc_rep E objs c U d s"
  let ?D = "clear_chunk (s3_chunk_size c) d i"
  note del = delete_object_hoare [OF s3_lawsD(3) [OF L]]
  have other: "\<forall>a. a div s3_chunk_size c \<noteq> i \<longrightarrow> ?D a = d a"
    by (simp add: clear_chunk_def)
  have hold: "chunks_hold E c ob' ?D" if "sets_chunk E c i (zeros (s3_chunk_size c)) (objs s) ob'" for ob'
    by (rule chunks_hold_sets [of E c "objs s" d i])
      (use s that other in \<open>auto simp: svc_rep_def clear_chunk_read\<close>)
  have "hoare (\<lambda>t. objs t = objs s) (delete_chunk_object E c i) (\<lambda>_. svc_rep E objs c U ?D) (\<lambda>_. True)"
  proof (cases "s3_storage c")
    case Legacy
    let ?ob = "(objs s)(legacy_chunk_key c i := None)"
    have "hoare (\<lambda>t. objs t = objs s) (delete_chunk_object E c i)
        (\<lambda>_ t. objs t = ?ob(legacy_flat_chunk_key c i := None)) (\<lambda>_. True)"
      unfolding delete_chunk_object_def Legacy storage_mode.case
      by (rule hoare_bind [where R = "\<lambda>_ t. objs t = ?ob"]) (auto intro: hoare_conseq [OF del])
    then show ?thesis
      by (rule hoare_conseq)
        (use hold [OF legacy_delete_sets [OF Legacy i]] in \<open>auto simp: svc_rep_def pool_ok_def Legacy\<close>)
  next
    case Cow
    have "hoare (\<lambda>t. objs t = objs s) (delete_chunk_object E c i)
        (\<lambda>_ t. objs t = (objs s)(chunk_key c i := None)) (\<lambda>_. True)"
      unfolding delete_chunk_object_def Cow storage_mode.case
      by (auto intro: hoare_conseq [OF del])
    then show ?thesis
      by (rule hoare_conseq)
        (use hold [OF cow_delete_sets [OF Cow i]] pool_ok_delete [OF Cow] s in \<open>auto simp: svc_rep_def\<close>)
  qed
  from hoare_post [OF this refl] show "post (\<lambda>_. svc_rep E objs c U ?D) (\<lambda>_. True) (delete_chunk_object E c i s)" .
qed

section \<open>Listing\<close>

lemma sorted_remdups_adj_distinct: "sorted (xs :: nat list) \<Longrightarrow> distinct (remdups_adj xs)"
proof (induction xs rule: remdups_adj.induct)
  case (3 x y xs)
  then have "x \<noteq> y \<Longrightarrow> x \<notin> set (y # xs)"
    by (auto dest: order.antisym)
  with 3 show ?case by auto
qed auto

lemma set_map_filter: "set (List.map_filter f xs) = {b. \<exists>a \<in> set xs. f a = Some b}"
  by (induction xs) (auto simp: List.map_filter_simps split: option.splits)

lemma ends_with_chunks_prefix: "ends_with ''/'' (chunks_prefix c)"
  by (simp add: ends_with_def chunks_prefix_def split: storage_mode.splits)

lemma listed_index:
  assumes "is_index i"
  shows "s3_storage c = Legacy \<Longrightarrow> parse_chunk_index_from_key (chunks_prefix c) (legacy_chunk_key c i) = Some i"
    and "s3_storage c = Legacy \<Longrightarrow> parse_chunk_index_from_key (chunks_prefix c) (legacy_flat_chunk_key c i) = Some i"
    and "s3_storage c = Cow \<Longrightarrow> parse_chunk_index_from_key (chunks_prefix c) (chunk_key c i) = Some i"
proof -
  let ?L = "s3_prefix c @ ''/chunks/''" let ?C = "s3_prefix c @ ''/live/chunks/''"
  have "strip_prefix ?L (s3_prefix c @ ''/chunks/'' @ r) = Some r"
    "strip_prefix ?C (s3_prefix c @ ''/live/chunks/'' @ r) = Some r" for r
    using strip_prefix_append [of ?L r] strip_prefix_append [of ?C r] by simp_all
  then show "s3_storage c = Legacy \<Longrightarrow> parse_chunk_index_from_key (chunks_prefix c) (legacy_chunk_key c i) = Some i"
    "s3_storage c = Legacy \<Longrightarrow> parse_chunk_index_from_key (chunks_prefix c) (legacy_flat_chunk_key c i) = Some i"
    "s3_storage c = Cow \<Longrightarrow> parse_chunk_index_from_key (chunks_prefix c) (chunk_key c i) = Some i"
    using index_from_shard [of i] index_from_flat [of i] assms
    by (auto simp: parse_chunk_index_from_key_def chunks_prefix_def legacy_chunk_key_def
        legacy_flat_chunk_key_def cow_chunk_key is_index_def)
qed

lemma parse_index_prefix: "parse_chunk_index_from_key p k = Some i \<Longrightarrow> is_prefix p k"
  by (auto simp: parse_chunk_index_from_key_def strip_prefix_def split: if_splits option.splits)

lemma parse_index_u64: "parse_chunk_index_from_key p k = Some i \<Longrightarrow> i < 2 ^ 64"
  unfolding parse_chunk_index_from_key_def index_from_chunk_relpath_def Let_def
  using from_str_radix16_less [of "2 ^ 64"] by (auto split: option.splits if_splits)

lemma list_chunk_indices_hoare:
  assumes "list_law E objs"
  shows "hoare (\<lambda>s. objs s = ob) (list_chunk_indices E (chunks_prefix c))
    (\<lambda>xs s. objs s = ob \<and> sorted xs \<and> distinct xs \<and>
      set xs = {i. \<exists>k. ob k \<noteq> None \<and> parse_chunk_index_from_key (chunks_prefix c) k = Some i})
    (\<lambda>s. objs s = ob)"
proof -
  let ?p = "chunks_prefix c"
  let ?f = "\<lambda>obj. parse_chunk_index_from_key ?p (case o_key obj of Some k \<Rightarrow> k | None \<Rightarrow> [])"
  have set: "{b. \<exists>a \<in> set os. ?f a = Some b} = {i. \<exists>k. ob k \<noteq> None \<and> parse_chunk_index_from_key ?p k = Some i}"
    if none: "None \<notin> o_key ` set os" and keys: "Some -` (o_key ` set os) = {k. ob k \<noteq> None \<and> is_prefix ?p k}" for os
  proof -
    have *: "k \<in> {k. ob k \<noteq> None \<and> is_prefix ?p k} \<longleftrightarrow> (\<exists>a \<in> set os. o_key a = Some k)" for k
      unfolding keys [symmetric] by (auto simp: image_iff intro: sym)
    have "(\<exists>a \<in> set os. ?f a = Some b) \<longleftrightarrow> (\<exists>k. (\<exists>a \<in> set os. o_key a = Some k) \<and> parse_chunk_index_from_key ?p k = Some b)" for b
    proof -
      have "?f a = Some b \<longleftrightarrow> (\<exists>k. o_key a = Some k \<and> parse_chunk_index_from_key ?p k = Some b)"
        if "a \<in> set os" for a
        using none that by (cases "o_key a") (auto simp: image_iff)
      then show ?thesis by blast
    qed
    then show ?thesis
      unfolding * [symmetric] using parse_index_prefix by fastforce
  qed
  show ?thesis
    unfolding list_chunk_indices_def Let_def if_P [OF ends_with_chunks_prefix]
    by (rule hoare_bind [OF list_objects_hoare [OF assms, of ob ?p]])
      (auto simp: hoare_def ret_op_def sorted_remdups_adj_distinct sorted_remdups_adj set_map_filter set)
qed

section \<open>The contract\<close>

lemma s3_rep_svc:
  "s3_rep E objs a U d g s \<Longrightarrow> svc_rep E objs (st_conf s) U d (st_svc s)"
  by (simp add: s3_rep_def svc_rep_def Let_def)

lemma s3_rep_update:
  assumes "s3_rep E objs a U d g s" and "svc_rep E objs (st_conf s) U d' v" and "zero_beyond (g_cap g) d'"
  shows "s3_rep E objs a U d' g (s\<lparr>st_svc := v\<rparr>)"
  using assms by (auto simp: s3_rep_def svc_rep_def Let_def)

lemma s3_rep_geom:
  assumes "s3_rep E objs a U d g s"
  shows "g_cap g = s3_capacity (st_conf s)" "g_chunk g = s3_chunk_size (st_conf s)"
    "g_block g = s3_block_size (st_conf s)" "wf_geom g" "zero_beyond (g_cap g) d"
    "s3_compression (st_conf s) = a" "codable (st_conf s)"
  using assms by (auto simp: s3_rep_def Let_def)

lemma piece_is_index:
  assumes "in_piece cs off n i w a t" and "off + n \<le> cap" and "cap < 2 ^ 64" and "0 < cs"
  shows "is_index i"
proof -
  have "i \<le> i * cs" using assms(4) by simp
  also have "\<dots> < off + n" using assms(1) by (auto simp: in_piece_def)
  finally show ?thesis using assms(2,3) by (simp add: is_index_def)
qed

lemma s3_fetch_hoare:
  assumes L: "s3_laws E objs" and i: "is_index i" and w: "w + t \<le> s3_chunk_size c" and a: "a = i * s3_chunk_size c + w"
  shows "hoare (svc_rep E objs c U d) (s3_fetch E c i w a t)
    (\<lambda>p s. p = disk_read d a t \<and> svc_rep E objs c U d s) (svc_rep E objs c U d)"
  unfolding hoare_def
proof (intro allI impI)
  fix s assume s: "svc_rep E objs c U d s"
  obtain r s1 where g: "get_chunk E c i s = (r, s1)" by fastforce
  note R = hoareD [OF get_chunk_hoare [OF s3_lawsD(1) [OF L], of "objs s" c i] refl g]
  have keep: "svc_rep E objs c U d s1" if "objs s1 = objs s"
    using s that by (simp add: svc_rep_def)
  show "post (\<lambda>p s. p = disk_read d a t \<and> svc_rep E objs c U d s) (svc_rep E objs c U d) (s3_fetch E c i w a t s)"
  proof (cases r)
    case (Ok xt)
    obtain x etag where xt: "xt = (x, etag)" by fastforce
    have x: "objs s1 = objs s" "x = disk_read d (i * s3_chunk_size c) (s3_chunk_size c)"
      using R(2) [of xt] s Ok xt i by (auto simp: svc_rep_def chunks_hold_def)
    then have "sub_slice x w t = Some (disk_read d a t)"
      using w a by (simp add: sub_slice_def take_drop_disk_read)
    then show ?thesis
      using keep x(1) by (simp add: s3_fetch_def bind_op_def g Ok xt ret_op_def)
  next
    case (Err e)
    then show ?thesis
      using R(3) keep by (simp add: s3_fetch_def bind_op_def g)
  qed (use R in simp)
qed

lemma s3_read_hoare:
  assumes L: "s3_laws E objs"
  shows "hoare (s3_rep E objs a U d g) (s3_read_at E off n)
    (\<lambda>bs s. s3_rep E objs a U d g s \<and> off + n \<le> g_cap g \<and> bs = disk_read d off n) (s3_rep E objs a U d g)"
  unfolding hoare_def
proof (intro allI impI)
  fix s assume s: "s3_rep E objs a U d g s"
  note G = s3_rep_geom [OF s]
  let ?c = "st_conf s" and ?m = "\<lambda>c. read_loop (s3_chunk_size c) (s3_fetch E c) off n 0 (zeros n)"
  have cap: "s3_capacity ?c < 2 ^ 64" and cs: "0 < s3_chunk_size ?c"
    using G by (auto simp: wf_geom_def)
  show "post (\<lambda>bs s. s3_rep E objs a U d g s \<and> off + n \<le> g_cap g \<and> bs = disk_read d off n) (s3_rep E objs a U d g)
      (s3_read_at E off n s)"
  proof (cases "off + n \<le> s3_capacity ?c")
    case True
    have "hoare (svc_rep E objs (st_conf s) U d) (?m (st_conf s))
        (\<lambda>b v. b = disk_read d off n \<and> svc_rep E objs (st_conf s) U d v) (svc_rep E objs (st_conf s) U d)"
      by (rule read_loop_whole [OF cs], rule s3_fetch_hoare [OF L])
        (use piece_is_index [OF _ True cap cs] in \<open>auto simp: in_piece_def\<close>)
    from hoareD [OF this s3_rep_svc [OF s]] show ?thesis
      using True G(1) check_range_cases [OF cap] s3_rep_update [OF s _ G(5)]
      by (cases "?m ?c (st_svc s)"; cases "fst (?m ?c (st_svc s))")
        (auto simp: s3_read_at_def Let_def guard_op_def on_svc_def)
  next
    case False
    then show ?thesis
      using s check_range_cases [OF cap] by (simp add: s3_read_at_def Let_def guard_op_def)
  qed
qed

lemma piece_touches: "in_piece cs off n i w a t \<Longrightarrow> touches cs off n i"
  by (auto simp: in_piece_def touches_def)

lemma s3_write_keeps:
  assumes L: "s3_laws E objs" and U: "inj_on (e_blake3 E) U" and adm: "adm_write (s3_adm E a U) (g_chunk g) d off bs"
    and I: "\<And>s. s3_rep E objs a U d g s \<Longrightarrow> put_keeps E objs (st_conf s) U (I (st_conf s))"
  shows "hoare (\<lambda>s. s3_rep E objs a U d g s \<and> I (st_conf s) (st_svc s)) (s3_write_at E off bs)
    (\<lambda>_ s. off + length bs \<le> g_cap g \<and> s3_rep E objs a U (disk_write d off bs) g s \<and> I (st_conf s) (st_svc s))
    (\<lambda>s. I (st_conf s) (st_svc s))"
  unfolding hoare_def
proof (intro allI impI)
  fix s assume "s3_rep E objs a U d g s \<and> I (st_conf s) (st_svc s)"
  then have s: "s3_rep E objs a U d g s" and Is: "I (st_conf s) (st_svc s)" by auto
  note G = s3_rep_geom [OF s]
  let ?c = "st_conf s" and ?m = "\<lambda>c. write_loop (s3_chunk_size c) (s3_store_piece E c) off bs 0"
  have cap: "s3_capacity ?c < 2 ^ 64" and cs: "0 < s3_chunk_size ?c"
    using G by (auto simp: wf_geom_def)
  show "post (\<lambda>_ s. off + length bs \<le> g_cap g \<and> s3_rep E objs a U (disk_write d off bs) g s \<and> I (st_conf s) (st_svc s))
      (\<lambda>s. I (st_conf s) (st_svc s)) (s3_write_at E off bs s)"
  proof (cases "off + length bs \<le> s3_capacity ?c")
    case True
    let ?P = "\<lambda>d v. svc_rep E objs ?c U d v \<and> I ?c v"
    have "hoare (?P d) (?m ?c) (\<lambda>_. ?P (disk_write d off bs)) (I ?c)"
    proof (rule write_loop_whole [OF cs, where P = ?P])
      fix d' i w x p
      assume pc: "in_piece (s3_chunk_size ?c) off (length bs) i w x (length p)"
        and same: "disk_read (disk_write d' x p) (i * s3_chunk_size ?c) (s3_chunk_size ?c) =
          disk_read (disk_write d off bs) (i * s3_chunk_size ?c) (s3_chunk_size ?c)"
      have "s3_adm E a U (disk_read (disk_write d' x p) (i * s3_chunk_size ?c) (s3_chunk_size ?c))"
        unfolding same using adm piece_touches [OF pc] G(2) by (simp add: adm_write_def)
      then show "hoare (?P d') (s3_store_piece E ?c i w x p) (\<lambda>_. ?P (disk_write d' x p)) (I ?c)"
        using cas_loop_hoare [OF L G(7) piece_is_index [OF pc True cap cs] U _ I [OF s], of w p d'] pc G(6)
        unfolding s3_store_piece_def by (auto simp: in_piece_def)
    qed
    from hoareD [OF this conjI [OF s3_rep_svc [OF s] Is]] show ?thesis
      using True G check_range_cases [OF cap] s3_rep_update [OF s _ zero_beyond_disk_write [OF G(5)]]
      by (cases "?m ?c (st_svc s)"; cases "fst (?m ?c (st_svc s))")
        (auto simp: s3_write_at_def Let_def guard_op_def on_svc_def)
  next
    case False
    then show ?thesis
      using Is check_range_cases [OF cap] by (simp add: s3_write_at_def Let_def guard_op_def)
  qed
qed

lemma s3_write_hoare:
  assumes "s3_laws E objs" and "inj_on (e_blake3 E) U" and "adm_write (s3_adm E a U) (g_chunk g) d off bs"
  shows "hoare (s3_rep E objs a U d g) (s3_write_at E off bs)
    (\<lambda>_ s. off + length bs \<le> g_cap g \<and> s3_rep E objs a U (disk_write d off bs) g s) (\<lambda>_. True)"
  by (rule hoare_conseq [OF s3_write_keeps [OF assms, where I = "\<lambda>_ _. True"]])
    (use assms in \<open>auto intro: put_keeps_True s3_rep_geom\<close>)

lemma on_svc_post:
  assumes "hoare P m Q F" and "P (st_svc s)"
    and "\<And>x v. Q x v \<Longrightarrow> Q' x (s\<lparr>st_svc := v\<rparr>)" and "\<And>v. F v \<Longrightarrow> F' (s\<lparr>st_svc := v\<rparr>)"
  shows "post Q' F' (on_svc m s)"
  using hoareD [OF assms(1,2)] assms(3,4)
  by (cases "m (st_svc s)"; cases "fst (m (st_svc s))") (auto simp: on_svc_def)

lemma meta_keys_other [simp]:
  "meta_key c \<noteq> legacy_chunk_key c i" "meta_key c \<noteq> legacy_flat_chunk_key c i"
  "s3_storage c = Cow \<Longrightarrow> meta_key c \<noteq> chunk_key c i" "meta_key c \<noteq> object_key c h"
  by (auto simp: meta_key_def key_defs cow_chunk_key split: storage_mode.splits)

lemma chunk_value_meta [simp]: "chunk_value E c (ob(meta_key c := m)) i = chunk_value E c ob i"
  by (cases "s3_storage c")
    (auto simp: chunk_value_def meta_keys_other [symmetric] split: option.split result.split)

lemma svc_rep_meta:
  "svc_rep E objs c U d s \<Longrightarrow> objs s' = (objs s)(meta_key c := m) \<Longrightarrow> svc_rep E objs c U d s'"
  by (simp add: svc_rep_def chunks_hold_def pool_ok_def meta_keys_other [symmetric])

lemma put_meta_hoare:
  assumes "put_law E objs"
  shows "hoare (svc_rep E objs c U d) (put_meta_at E (meta_key c) m)
    (\<lambda>_. svc_rep E objs c U d) (svc_rep E objs c U d)"
  unfolding hoare_def
proof (intro allI impI)
  fix s assume s: "svc_rep E objs c U d s"
  have keep: "svc_rep E objs c U d s'" if "objs s' = objs s" for s'
    using s that by (simp add: svc_rep_def)
  show "post (\<lambda>_. svc_rep E objs c U d) (svc_rep E objs c U d) (put_meta_at E (meta_key c) m s)"
  proof (cases "e_meta_enc E m")
    case (Inr body)
    have "post (\<lambda>_. svc_rep E objs c U d) (svc_rep E objs c U d)
        (put_bytes E (meta_key c) body (Some ''application/json'') None s)"
      by (rule post_mono [OF hoare_post [OF put_bytes_hoare [OF assms] refl]])
        (use svc_rep_meta [OF s] keep in auto)
    then show ?thesis by (simp add: put_meta_at_def Inr)
  qed (use s in \<open>simp add: put_meta_at_def\<close>)
qed

lemma svc_rep_capacity [simp]:
  "svc_rep E objs (c\<lparr>s3_capacity := n\<rparr>) U d s \<longleftrightarrow> svc_rep E objs c U d s"
proof -
  let ?c = "c\<lparr>s3_capacity := n\<rparr>"
  have keys: "legacy_chunk_key ?c i = legacy_chunk_key c i" "legacy_flat_chunk_key ?c i = legacy_flat_chunk_key c i"
    "chunk_key ?c i = chunk_key c i" "object_key ?c h = object_key c h" for i h
    by (simp_all add: key_defs chunk_key_def chunks_prefix_def split: storage_mode.split)
  have "chunk_value E ?c ob i = chunk_value E c ob i" for ob i
    by (simp add: chunk_value_def decoded_def keys split: storage_mode.split option.split result.split)
  then show ?thesis
    by (simp add: svc_rep_def chunks_hold_def pool_ok_def keys)
qed

lemma s3_rep_resize:
  assumes "s3_rep E objs a U d g s" and "g_cap g \<le> c" and "g_block g dvd c" and "c < 2 ^ 64"
  shows "s3_rep E objs a U d (g\<lparr>g_cap := c\<rparr>) (s\<lparr>st_conf := (st_conf s)\<lparr>s3_capacity := c\<rparr>\<rparr>)"
  using s3_rep_geom [OF assms(1)] s3_rep_svc [OF assms(1)] assms
  unfolding s3_rep_def Let_def svc_rep_def [symmetric]
  by (auto simp: wf_geom_def zero_beyond_def codable_def)

lemma s3_set_capacity_hoare:
  assumes L: "s3_laws E objs" and c: "c < 2 ^ 64"
  shows "hoare (s3_rep E objs a U d g) (s3_set_capacity E c)
    (\<lambda>_ s. g_cap g \<le> c \<and> s3_rep E objs a U d (g\<lparr>g_cap := c\<rparr>) s) (s3_rep E objs a U d g)"
  unfolding hoare_def
proof (intro allI impI)
  fix s assume s: "s3_rep E objs a U d g s"
  note G = s3_rep_geom [OF s]
  let ?m = "\<lparr>vm_version = meta_version, vm_capacity_bytes = c, vm_chunk_size = s3_chunk_size (st_conf s),
    vm_block_size = s3_block_size (st_conf s), vm_compression = s3_compression (st_conf s), vm_storage = s3_storage (st_conf s)\<rparr>"
  have bind: "post (\<lambda>_ s. g_cap g \<le> c \<and> s3_rep E objs a U d (g\<lparr>g_cap := c\<rparr>) s) (s3_rep E objs a U d g)
      (bind_op (on_svc (put_meta_at E (meta_key (st_conf s)) ?m))
        (\<lambda>_ s1. (Ok (), s1\<lparr>st_conf := (st_conf s1)\<lparr>s3_capacity := c\<rparr>\<rparr>)) s)"
    if "g_cap g \<le> c" "g_block g dvd c"
    by (rule post_bind [where R = "\<lambda>_. s3_rep E objs a U d g"])
      (use that in \<open>auto intro!: on_svc_post [OF put_meta_hoare [OF s3_lawsD(2) [OF L]] s3_rep_svc [OF s]]
        s3_rep_update [OF s _ G(5)] s3_rep_resize c\<close>)
  have "s3_rep E objs a U d (g\<lparr>g_cap := g_cap g\<rparr>) s"
    using s by simp
  then show "post (\<lambda>_ s. g_cap g \<le> c \<and> s3_rep E objs a U d (g\<lparr>g_cap := c\<rparr>) s) (s3_rep E objs a U d g)
      (s3_set_capacity E c s)"
    using s bind G by (auto simp: s3_set_capacity_def Let_def wf_geom_def mod_eq_0_iff_dvd)
qed

lemma chunk_zero_read:
  assumes "0 < cs" and "disk_read d (i * cs) cs = zeros cs"
  shows "chunk_zero cs d i"
  unfolding chunk_zero_def
proof (intro allI impI)
  fix k assume k: "k div cs = i"
  have "k = i * cs + k mod cs" using k by auto
  moreover have "disk_read d (i * cs) cs ! (k mod cs) = 0"
    using assms by simp
  ultimately show "d k = 0"
    using assms(1) by simp
qed

lemma s3_present_hoare:
  assumes L: "s3_laws E objs"
  shows "hoare (s3_rep E objs a U d g) (s3_present_chunks E)
    (\<lambda>xs s. s3_rep E objs a U d g s \<and> lists_chunks (g_chunk g) d xs) (s3_rep E objs a U d g)"
  unfolding hoare_def
proof (intro allI impI)
  fix s assume s: "s3_rep E objs a U d g s"
  note G = s3_rep_geom [OF s]
  let ?c = "st_conf s" and ?ob = "objs (st_svc s)"
  have chunk_pos: "0 < g_chunk g" using G(4) by (simp add: wf_geom_def)
  have zero: "chunk_zero (g_chunk g) d i"
    if "\<nexists>k. ?ob k \<noteq> None \<and> parse_chunk_index_from_key (chunks_prefix ?c) k = Some i" for i
  proof (cases "is_index i")
    case True
    then have "chunk_value E ?c ?ob i = Some (zeros (s3_chunk_size ?c))"
    proof (cases "s3_storage ?c")
      case Legacy
      then have "?ob (legacy_chunk_key ?c i) = None" "?ob (legacy_flat_chunk_key ?c i) = None"
        using that listed_index(1,2) [OF True Legacy] by blast+
      then show ?thesis by (simp add: chunk_value_def Legacy)
    next
      case Cow
      then have "?ob (chunk_key ?c i) = None"
        using that listed_index(3) [OF True Cow] by blast
      then show ?thesis by (simp add: chunk_value_def Cow)
    qed
    then have "disk_read d (i * g_chunk g) (g_chunk g) = zeros (g_chunk g)"
      using s3_rep_svc [OF s] True G(2) by (auto simp: svc_rep_def chunks_hold_def)
    then show ?thesis
      by (rule chunk_zero_read [OF chunk_pos])
  next
    case False
    then have "g_cap g \<le> k" if "k div g_chunk g = i" for k
      using G(4) that div_le_dividend [of k "g_chunk g"] by (auto simp: is_index_def wf_geom_def)
    then show ?thesis
      using G(5) by (auto simp: chunk_zero_def zero_beyond_def)
  qed
  show "post (\<lambda>xs s. s3_rep E objs a U d g s \<and> lists_chunks (g_chunk g) d xs) (s3_rep E objs a U d g) (s3_present_chunks E s)"
    unfolding s3_present_chunks_def
    by (rule on_svc_post [OF list_chunk_indices_hoare [OF s3_lawsD(4) [OF L]] refl])
      (use zero s3_rep_svc [OF s] in \<open>auto simp: lists_chunks_def svc_rep_def intro!: s3_rep_update [OF s _ G(5)] intro: parse_index_u64 [simplified]\<close>)
qed

lemma s3_delete_hoare:
  assumes L: "s3_laws E objs" and i: "i < 2 ^ 64"
  shows "hoare (s3_rep E objs a U d g) (s3_delete_chunk E i)
    (\<lambda>_. s3_rep E objs a U (clear_chunk (g_chunk g) d i) g) (\<lambda>_. True)"
  unfolding hoare_def
proof (intro allI impI)
  fix s assume s: "s3_rep E objs a U d g s"
  note G = s3_rep_geom [OF s]
  have "is_index i" using i by (simp add: is_index_def)
  note del = delete_chunk_object_hoare [OF L this, of "st_conf s" U d]
  show "post (\<lambda>_. s3_rep E objs a U (clear_chunk (g_chunk g) d i) g) (\<lambda>_. True) (s3_delete_chunk E i s)"
    unfolding s3_delete_chunk_def
    by (rule on_svc_post [OF del s3_rep_svc [OF s]])
      (use G(2) in \<open>auto intro!: s3_rep_update [OF s] zero_beyond_clear G(5)\<close>)
qed

lemma s3_block_store:
  assumes "s3_laws E objs" and "inj_on (e_blake3 E) U"
  shows "block_store (s3_ops E) (s3_rep E objs a U) (s3_adm E a U)"
proof (unfold_locales, unfold s3_ops_sel, goal_cases)
  case (3 d g off n)
  show ?case by (rule s3_read_hoare [OF assms(1)])
next
  case (4 g d off bs)
  then show ?case by (rule s3_write_hoare [OF assms])
next
  case (5 c d g)
  then show ?case by (intro hoare_conseq [OF s3_set_capacity_hoare [OF assms(1)]]) auto
next
  case (7 d g)
  show ?case by (rule s3_present_hoare [OF assms(1)])
next
  case (8 idx d g)
  then show ?case by (rule s3_delete_hoare [OF assms(1)])
qed (auto simp: hoare_ret s3_rep_geom(1-3) [symmetric] s3_rep_geom(4,5))

end
