(* ===== verification/Bucket.thy ===== *)
theory Bucket
  imports S3Service "HOL-Library.Char_ord" "HOL-Library.List_Lexorder" "HOL-Library.Monad_Syntax"
begin

text \<open>
  A bucket held in memory that satisfies \<open>s3_laws\<close>, so that the theorems about the S3 store have
  concrete instances. Its listings come in pages of two keys with the position in unary as the
  token, its entity tag is the body, conditional writes compare it. A script of faults makes single
  requests time out, with or without effect. Stored (uncompressed) data stands for the compression
  libraries, a padded prefix for BLAKE3, and a tagged unary format for the JSON encoders.
\<close>

section \<open>Encoders\<close>

fun put_nat :: "nat \<Rightarrow> bytes" where
  "put_nat n = replicate n 1 @ [0]"

fun put_str :: "string \<Rightarrow> bytes" where
  "put_str cs = put_nat (length cs) @ str_bytes cs"

fun take_nat :: "bytes \<Rightarrow> (nat \<times> bytes) option" where
  "take_nat [] = None"
| "take_nat (b # bs) =
     (if b = 0 then Some (0, bs)
      else case take_nat bs of None \<Rightarrow> None | Some (n, r) \<Rightarrow> Some (Suc n, r))"

definition take_str :: "bytes \<Rightarrow> (string \<times> bytes) option" where
  "take_str bs =
     (case take_nat bs of
        None \<Rightarrow> None
      | Some (n, r) \<Rightarrow>
          if n \<le> length r then Some (map (\<lambda>b. char_of (unat b)) (take n r), drop n r) else None)"

lemma take_put_nat [simp]: "take_nat (put_nat n @ r) = Some (n, r)"
  by (induction n) auto

lemma unat_of_char: "unat (of_char c :: byte) = (of_char c :: nat)"
proof -
  have "(of_char c :: byte) = of_nat (of_char c)"
    by (rule of_nat_of_char [symmetric])
  then show ?thesis
    by (simp add: unat_of_nat take_bit_eq_mod)
qed

lemma take_put_str [simp]: "take_str (put_str cs @ r) = Some (cs, r)"
proof -
  have "char_of (unat (of_char c :: byte)) = c" for c
    by (simp add: unat_of_char)
  then show ?thesis
    by (simp add: take_str_def str_bytes_def comp_def del: put_nat.simps)
qed

fun algo_nat :: "compression \<Rightarrow> nat" where
  "algo_nat CNone = 0" | "algo_nat CLz4 = 1" | "algo_nat CZstd = 2" | "algo_nat CDeflate = 3"

definition nat_algo :: "nat \<Rightarrow> compression" where
  "nat_algo n = (if n = 0 then CNone else if n = 1 then CLz4 else if n = 2 then CZstd else CDeflate)"

lemma nat_algo_inverse [simp]: "nat_algo (algo_nat a) = a"
  by (cases a) (auto simp: nat_algo_def)

fun state_nat :: "snapshot_state \<Rightarrow> nat" where
  "state_nat Creating = 0" | "state_nat Ready = 1" | "state_nat Deleting = 2"

definition nat_state :: "nat \<Rightarrow> snapshot_state" where
  "nat_state n = (if n = 0 then Creating else if n = 1 then Ready else Deleting)"

lemma nat_state_inverse [simp]: "nat_state (state_nat a) = a"
  by (cases a) (auto simp: nat_state_def)

definition bucket_meta_enc :: "volume_meta \<Rightarrow> bytes" where
  "bucket_meta_enc m =
     put_nat (vm_version m) @ put_nat (vm_capacity_bytes m) @ put_nat (vm_chunk_size m) @ put_nat (vm_block_size m) @
     put_nat (algo_nat (vm_compression m)) @ put_nat (case vm_storage m of Legacy \<Rightarrow> 0 | Cow \<Rightarrow> 1)"

definition bucket_meta_dec :: "bytes \<Rightarrow> string + volume_meta" where
  "bucket_meta_dec bs =
     (case do { (v, bs) \<leftarrow> take_nat bs; (c, bs) \<leftarrow> take_nat bs; (k, bs) \<leftarrow> take_nat bs;
                (b, bs) \<leftarrow> take_nat bs; (a, bs) \<leftarrow> take_nat bs; (st, bs) \<leftarrow> take_nat bs;
                Some \<lparr>vm_version = v, vm_capacity_bytes = c, vm_chunk_size = k, vm_block_size = b,
                      vm_compression = nat_algo a, vm_storage = (if st = 0 then Legacy else Cow)\<rparr> } of
        Some m \<Rightarrow> Inr m | None \<Rightarrow> Inl ''expected value'')"

lemma bucket_meta_inverse [simp]: "bucket_meta_dec (bucket_meta_enc m) = Inr m"
  using take_put_nat [of "case vm_storage m of Legacy \<Rightarrow> 0 | Cow \<Rightarrow> 1" "[]"]
  by (cases m) (simp add: bucket_meta_dec_def bucket_meta_enc_def del: put_nat.simps split: storage_mode.splits)

definition bucket_man_enc :: "snapshot_manifest \<Rightarrow> bytes" where
  "bucket_man_enc m =
     put_str (sm_id m) @ put_nat (sm_created_at_unix m) @
     (case sm_parent m of None \<Rightarrow> put_nat 0 | Some p \<Rightarrow> put_nat 1 @ put_str p) @
     put_str (sm_source_volume m) @ put_nat (sm_capacity_bytes m) @ put_nat (sm_chunk_size m) @
     put_nat (sm_block_size m) @ put_nat (algo_nat (sm_compression m)) @ put_nat (sm_chunk_count m) @
     put_str (sm_chunks_object m) @ put_str (sm_hash_algo m) @ put_nat (state_nat (sm_state m)) @
     put_nat (sm_format_version m)"

definition bucket_man_dec :: "bytes \<Rightarrow> string + snapshot_manifest" where
  "bucket_man_dec bs =
     (case do { (i, bs) \<leftarrow> take_str bs; (t, bs) \<leftarrow> take_nat bs; (has, bs) \<leftarrow> take_nat bs;
                (p, bs) \<leftarrow> (if has = 0 then Some (None, bs) else do { (p, bs) \<leftarrow> take_str bs; Some (Some p, bs) });
                (v, bs) \<leftarrow> take_str bs; (c, bs) \<leftarrow> take_nat bs; (k, bs) \<leftarrow> take_nat bs; (b, bs) \<leftarrow> take_nat bs;
                (a, bs) \<leftarrow> take_nat bs; (n, bs) \<leftarrow> take_nat bs; (ob, bs) \<leftarrow> take_str bs; (ha, bs) \<leftarrow> take_str bs;
                (st, bs) \<leftarrow> take_nat bs; (f, bs) \<leftarrow> take_nat bs;
                Some \<lparr>sm_id = i, sm_created_at_unix = t, sm_parent = p, sm_source_volume = v, sm_capacity_bytes = c,
                      sm_chunk_size = k, sm_block_size = b, sm_compression = nat_algo a, sm_chunk_count = n,
                      sm_chunks_object = ob, sm_hash_algo = ha, sm_state = nat_state st, sm_format_version = f\<rparr> } of
        Some m \<Rightarrow> Inr m | None \<Rightarrow> Inl ''expected value'')"

lemma bucket_man_inverse [simp]: "bucket_man_dec (bucket_man_enc m) = Inr m"
  using take_put_nat [of "sm_format_version m" "[]"]
  by (cases m) (simp add: bucket_man_dec_def bucket_man_enc_def del: put_nat.simps put_str.simps split: option.splits)

definition stored_codec :: codec_lib where
  "stored_codec =
     \<lparr>lz4_compress = (\<lambda>x. x), lz4_decompress = Inr, zstd_compress = Inr, zstd_decompress = (\<lambda>x n. Inr x),
      deflate_write_all = (\<lambda>x. Inr ()), deflate_finish = Inr, deflate_decompress = Inr\<rparr>"

lemma stored_codec_laws: "codec_laws stored_codec"
  by (simp add: codec_laws_def stored_codec_def)

section \<open>The bucket\<close>

datatype fault = Fine | Lost | Landed

record bucket =
  bk_objs :: "(string \<times> bytes) list"
  bk_script :: "fault list"

definition objs_of :: "bucket \<Rightarrow> string \<rightharpoonup> bytes" where
  "objs_of s = map_of (bk_objs s)"

definition next_fault :: "bucket \<Rightarrow> fault \<times> bucket" where
  "next_fault s = (case bk_script s of [] \<Rightarrow> (Fine, s) | f # fs \<Rightarrow> (f, s\<lparr>bk_script := fs\<rparr>))"

definition bk_etag :: "bytes \<Rightarrow> string" where
  "bk_etag b = map (\<lambda>x. char_of (unat x)) b"

definition bk_get :: "string \<Rightarrow> bucket \<Rightarrow> get_reply reply \<times> bucket" where
  "bk_get k s =
     (case next_fault s of
        (Fine, s) \<Rightarrow>
          (case map_of (bk_objs s) k of
             Some b \<Rightarrow> (Done (GetOk b (Some (bk_etag b))), s)
           | None \<Rightarrow> (Done (GetErr True ''NoSuchKey''), s))
      | (_, s) \<Rightarrow> (Timeout, s))"

definition bk_put :: "string \<Rightarrow> bytes \<Rightarrow> string option \<Rightarrow> string option \<Rightarrow> bucket \<Rightarrow> string option reply \<times> bucket" where
  "bk_put k b ct im s =
     (case next_fault s of
        (Lost, s) \<Rightarrow> (Timeout, s)
      | (f, s) \<Rightarrow>
          if im = None \<or> im = map_option bk_etag (map_of (bk_objs s) k) then
            (if f = Fine then Done None else Timeout, s\<lparr>bk_objs := AList.update k b (bk_objs s)\<rparr>)
          else (Done (Some ''PreconditionFailed''), s))"

definition bk_delete :: "string \<Rightarrow> bucket \<Rightarrow> string option reply \<times> bucket" where
  "bk_delete k s =
     (case next_fault s of
        (Lost, s) \<Rightarrow> (Timeout, s)
      | (f, s) \<Rightarrow> (if f = Fine then Done None else Timeout, s\<lparr>bk_objs := AList.delete k (bk_objs s)\<rparr>))"

definition bk_list :: "string \<Rightarrow> string option \<Rightarrow> bucket \<Rightarrow> list_reply reply \<times> bucket" where
  "bk_list p t s =
     (case next_fault s of
        (Fine, s) \<Rightarrow>
          (let keys = sort (remdups (filter (is_prefix p) (map fst (bk_objs s))));
               i = (case t of None \<Rightarrow> 0 | Some u \<Rightarrow> length u)
           in (Done (ListOk (map (\<lambda>k. \<lparr>o_key = Some k, o_size = Some 0\<rparr>) (take 2 (drop i keys)))
                 (Some (i + 2 < length keys)) (Some (replicate (i + 2) CHR ''x''))), s))
      | (_, s) \<Rightarrow> (Timeout, s))"

definition bk_env :: "bucket s3_env" where
  "bk_env =
     \<lparr>e_get = bk_get, e_put = bk_put, e_delete = bk_delete, e_list = bk_list, e_page_budget = 100,
      e_blake3 = (\<lambda>b. take hash_len (b @ zeros hash_len)), e_codec = stored_codec,
      e_meta_enc = (\<lambda>m. Inr (bucket_meta_enc m)), e_meta_dec = bucket_meta_dec,
      e_man_enc = (\<lambda>m. Inr (bucket_man_enc m)), e_man_dec = bucket_man_dec, e_clock = (\<lambda>s. 7)\<rparr>"

lemma objs_of_script [simp]: "objs_of (s\<lparr>bk_script := fs\<rparr>) = objs_of s"
  by (simp add: objs_of_def)

lemma next_fault_objs: "next_fault s = (f, s') \<Longrightarrow> bk_objs s' = bk_objs s"
  by (auto simp: next_fault_def split: list.splits)

lemma bk_get_law: "get_law bk_env objs_of"
  by (auto simp: get_law_def bk_env_def bk_get_def objs_of_def next_fault_objs
      split: prod.splits fault.splits option.splits)

lemma bk_put_law: "put_law bk_env objs_of"
  by (auto simp: put_law_def bk_env_def bk_put_def objs_of_def next_fault_objs update_conv' fun_eq_iff
      split: prod.splits fault.splits if_splits)

lemma bk_delete_law: "delete_law bk_env objs_of"
  by (auto simp: delete_law_def bk_env_def bk_delete_def objs_of_def next_fault_objs delete_conv' fun_eq_iff
      split: prod.splits fault.splits)

lemma bk_keys: "{k. objs_of s k \<noteq> None \<and> is_prefix p k} = set (filter (is_prefix p) (map fst (bk_objs s)))"
  by (auto simp: objs_of_def map_of_eq_None_iff image_iff)

lemma bk_list_law: "list_law bk_env objs_of"
proof -
  let ?pos = "\<lambda>t. case t of None \<Rightarrow> 0 | Some u \<Rightarrow> length (u :: string)"
  let ?listing = "\<lambda>p ob. sorted_list_of_set {k. ob k \<noteq> (None :: bytes option) \<and> is_prefix p k}"
  have keys: "?listing p (objs_of s) = sort (remdups (filter (is_prefix p) (map fst (bk_objs s))))" for p s
    unfolding bk_keys by (rule sorted_list_of_set_sort_remdups)
  have "pages_ok bk_env objs_of ?pos ?listing"
    unfolding pages_ok_def
  proof (intro conjI allI impI)
    fix p t s os tr nx
    assume l: "fst (e_list bk_env p t s) = Done (ListOk os tr nx)"
    show "\<exists>n. map o_key os = map Some (take n (drop (?pos t) (?listing p (objs_of s)))) \<and>
        (tr = Some True \<longleftrightarrow> ?pos t + n < length (?listing p (objs_of s))) \<and>
        (tr = Some True \<longrightarrow> (\<exists>t'. nx = Some t' \<and> ?pos (Some t') = ?pos t + n))"
      unfolding keys using l
      by (intro exI [of _ 2])
        (auto simp: bk_env_def bk_list_def Let_def next_fault_objs comp_def split: prod.splits fault.splits)
  next
    fix p s
    show "set (?listing p (objs_of s)) = {k. objs_of s k \<noteq> None \<and> is_prefix p k}"
      unfolding bk_keys by (rule set_sorted_list_of_set) simp
  qed (auto simp: bk_env_def bk_list_def Let_def objs_of_def next_fault_objs split: prod.splits fault.splits)
  then show ?thesis unfolding list_law_def by blast
qed

lemma bk_laws: "s3_laws bk_env objs_of"
  unfolding s3_laws_def
  using bk_get_law bk_put_law bk_delete_law bk_list_law stored_codec_laws
  by (auto simp: bk_env_def)

lemma bk_blake3_inj: "n \<le> hash_len \<Longrightarrow> inj_on (e_blake3 bk_env) {b. length b = n}"
  by (auto simp: inj_on_def bk_env_def)

end
