(* ===== verification/Instances.thy ===== *)
theory Instances
  imports S3Refine Bucket CachedStore
begin

text \<open>
  Small concrete volumes on the in-memory bucket, for the instances of the theorems: chunks of 4
  bytes, blocks of 2 bytes, a capacity of 8 bytes. \<open>small_bodies\<close> is the set of encodings on which
  the bucket's hash is injective. The interpretation \<open>bks3\<close> gives the block-store contract of the
  S3 store on this bucket.
\<close>

definition demo_conf :: "storage_mode \<Rightarrow> s3_conf" where
  "demo_conf m = \<lparr>s3_prefix = ''v'', s3_block_size = 2, s3_chunk_size = 4, s3_compression = CNone,
     s3_storage = m, s3_capacity = 8, s3_volume = ''vol''\<rparr>"

definition demo_geom :: geometry where
  "demo_geom = \<lparr>g_cap = 8, g_chunk = 4, g_block = 2\<rparr>"

definition demo_store :: "storage_mode \<Rightarrow> bucket s3_store" where
  "demo_store m = \<lparr>st_conf = demo_conf m, st_svc = \<lparr>bk_objs = [], bk_script = []\<rparr>\<rparr>"

definition small_bodies :: "bytes set" where
  "small_bodies = {b. length b = 4}"

lemma small_inj: "inj_on (e_blake3 bk_env) small_bodies"
  unfolding small_bodies_def by (rule bk_blake3_inj) simp

lemma demo_rep: "s3_rep bk_env objs_of CNone small_bodies (\<lambda>_. 0) demo_geom (demo_store m)"
  by (auto simp: s3_rep_def demo_geom_def demo_store_def demo_conf_def wf_geom_def zero_beyond_def codable_def
      chunks_hold_def chunk_value_def pool_ok_def objs_of_def disk_read_def map_replicate_trivial zeros_def
      map_replicate_const split: storage_mode.splits)

lemma small_adm: "adm_write (s3_adm bk_env CNone small_bodies) 4 d off bs"
  by (simp add: adm_write_def s3_adm_def small_bodies_def encode_chunk_def)

interpretation bks3: block_store "s3_ops bk_env" "s3_rep bk_env objs_of CNone small_bodies"
    "s3_adm bk_env CNone small_bodies"
  by (rule s3_block_store [OF bk_laws small_inj])

end
