(* ===== verification/S3Snapshot.thy ===== *)
theory S3Snapshot
  imports S3Store "HOL-Library.Char_ord" "HOL-Library.List_Lexorder"
begin

text \<open>
  The rest of \<open>S3ChunkStore\<close> in \<open>src/store/s3.rs\<close>: snapshots (create, list, get, delete, restore,
  clone into another volume), garbage collection of the object pool, the migration from the legacy
  to the copy-on-write layout, wiping, opening a volume, and the object statistics.

  Operations that leave the configuration alone are operations on the service at a configuration
  \<open>c\<close>; restore, clone and migration change capacity or layout and are operations on the store.
  Counters of the returned statistics are bounded by the lengths of listings and are natural numbers.
\<close>

section \<open>Loops\<close>

fun fold_op :: "('b \<Rightarrow> 'a \<Rightarrow> ('s, 'b) op) \<Rightarrow> 'b \<Rightarrow> 'a list \<Rightarrow> ('s, 'b) op" where
  "fold_op f b [] = ret_op b"
| "fold_op f b (x # xs) = bind_op (f b x) (\<lambda>b'. fold_op f b' xs)"

section \<open>Keys, pointers and guards\<close>

definition snapshot_prefix :: "s3_conf \<Rightarrow> string \<Rightarrow> string" where
  "snapshot_prefix c sid = s3_prefix c @ ''/snapshots/'' @ sid"

definition snapshot_manifest_key :: "s3_conf \<Rightarrow> string \<Rightarrow> string" where
  "snapshot_manifest_key c sid = snapshot_prefix c sid @ ''/manifest.json''"

definition snapshot_chunks_key :: "s3_conf \<Rightarrow> string \<Rightarrow> string" where
  "snapshot_chunks_key c sid = snapshot_prefix c sid @ ''/chunks.bin''"

definition require_cow_store :: "s3_conf \<Rightarrow> unit result" where
  "require_cow_store c =
     (case require_cow (s3_storage c) (s3_volume c) of Inl e \<Rightarrow> Err (Other e) | Inr _ \<Rightarrow> Ok ())"

definition is_ascii_alphanumeric :: "char \<Rightarrow> bool" where
  "is_ascii_alphanumeric ch \<longleftrightarrow>
     (let k = of_char ch :: nat in 48 \<le> k \<and> k \<le> 57 \<or> 65 \<le> k \<and> k \<le> 90 \<or> 97 \<le> k \<and> k \<le> 122)"

definition validate_snapshot_id :: "string \<Rightarrow> unit result" where
  "validate_snapshot_id sid =
     (if sid = [] \<or> length sid > 128 \<or>
         \<not> list_all (\<lambda>ch. is_ascii_alphanumeric ch \<or> ch = CHR ''-'' \<or> ch = CHR ''_'' \<or> ch = CHR ''.'') sid
      then Err (Other ''snapshot id must be 1-128 chars of [A-Za-z0-9._-]'') else Ok ())"

definition read_pointer_hash :: "('s, 'm) s3_env_scheme \<Rightarrow> s3_conf \<Rightarrow> nat \<Rightarrow> ('s, hash option) op" where
  "read_pointer_hash E c index =
     bind_op (get_bytes E (chunk_key c index)) (\<lambda>r. case r of
       None \<Rightarrow> ret_op None
     | Some (bytes, _) \<Rightarrow> bind_op (of_result (decode_pointer bytes)) (\<lambda>h. ret_op (Some h)))"

definition put_pointer :: "('s, 'm) s3_env_scheme \<Rightarrow> s3_conf \<Rightarrow> nat \<Rightarrow> hash \<Rightarrow> ('s, unit) op" where
  "put_pointer E c index h = put_bytes E (chunk_key c index) (encode_pointer h) None None"

definition get_object :: "('s, 'm) s3_env_scheme \<Rightarrow> s3_conf \<Rightarrow> hash \<Rightarrow> ('s, (bytes \<times> string option) option) op" where
  "get_object E c h = get_bytes E (object_key c h)"

definition present_at :: "('s, 'm) s3_env_scheme \<Rightarrow> s3_conf \<Rightarrow> ('s, nat list) op" where
  "present_at E c = list_chunk_indices E (chunks_prefix c)"

section \<open>Creating and reading snapshots\<close>

definition collect_ref ::
  "('s, 'm) s3_env_scheme \<Rightarrow> s3_conf \<Rightarrow> chunk_ref list \<Rightarrow> nat \<Rightarrow> ('s, chunk_ref list) op" where
  "collect_ref E c refs idx =
     bind_op (read_pointer_hash E c idx) (\<lambda>r. ret_op (case r of
       None \<Rightarrow> refs | Some h \<Rightarrow> refs @ [\<lparr>cr_index = idx, cr_hash = h\<rparr>]))"

definition collect_live_refs :: "('s, 'm) s3_env_scheme \<Rightarrow> s3_conf \<Rightarrow> ('s, chunk_ref list) op" where
  "collect_live_refs E c =
     bind_op (of_result (require_cow_store c)) (\<lambda>_.
     bind_op (present_at E c) (\<lambda>indices.
       if vec_capacity_ok (length indices) then
         bind_op (fold_op (collect_ref E c) [] indices) (\<lambda>refs. ret_op (sort_key cr_index refs))
       else panic_op))"

definition man_bytes :: "('s, 'm) s3_env_scheme \<Rightarrow> snapshot_manifest \<Rightarrow> bytes result" where
  "man_bytes E m = (case e_man_enc E m of Inl e \<Rightarrow> Err (Meta e) | Inr b \<Rightarrow> Ok b)"

definition man_parse :: "('s, 'm) s3_env_scheme \<Rightarrow> bytes \<Rightarrow> snapshot_manifest result" where
  "man_parse E b = (case e_man_dec E b of Inl e \<Rightarrow> Err (Meta e) | Inr m \<Rightarrow> Ok m)"

definition put_manifest :: "('s, 'm) s3_env_scheme \<Rightarrow> s3_conf \<Rightarrow> string \<Rightarrow> snapshot_manifest \<Rightarrow> ('s, unit) op" where
  "put_manifest E c sid m =
     bind_op (of_result (man_bytes E m))
       (\<lambda>b. put_bytes E (snapshot_manifest_key c sid) b (Some ''application/json'') None)"

definition fill_snapshot ::
  "('s, 'm) s3_env_scheme \<Rightarrow> s3_conf \<Rightarrow> string \<Rightarrow> snapshot_manifest \<Rightarrow> ('s, snapshot_manifest) op" where
  "fill_snapshot E c sid manifest =
     bind_op (put_manifest E c sid manifest) (\<lambda>_.
     bind_op (collect_live_refs E c) (\<lambda>refs.
     bind_op (put_bytes E (snapshot_chunks_key c sid) (write_chunks_bin refs) None None) (\<lambda>_.
       let manifest' = manifest\<lparr>sm_chunk_count := length refs, sm_state := Ready\<rparr>
       in bind_op (put_manifest E c sid manifest') (\<lambda>_. ret_op manifest'))))"

definition snapshot_create ::
  "('s, 'm) s3_env_scheme \<Rightarrow> s3_conf \<Rightarrow> string \<Rightarrow> string \<Rightarrow> ('s, snapshot_manifest) op" where
  "snapshot_create E c sid source_volume =
     bind_op (of_result (require_cow_store c)) (\<lambda>_.
     bind_op (of_result (validate_snapshot_id sid)) (\<lambda>_.
     bind_op (get_bytes E (snapshot_manifest_key c sid)) (\<lambda>old.
       if old \<noteq> None then err_op (Other (''snapshot '' @ sid @ '' already exists''))
       else (\<lambda>s. fill_snapshot E c sid (manifest_new_creating (e_clock E s) sid source_volume (s3_capacity c)
               (s3_chunk_size c) (s3_block_size c) (s3_compression c)) s))))"

definition load_manifest ::
  "('s, 'm) s3_env_scheme \<Rightarrow> snapshot_manifest list \<Rightarrow> string \<Rightarrow> ('s, snapshot_manifest list) op" where
  "load_manifest E out key =
     bind_op (get_bytes E key) (\<lambda>r. case r of
       None \<Rightarrow> ret_op out
     | Some (bytes, _) \<Rightarrow> bind_op (of_result (man_parse E bytes)) (\<lambda>m. ret_op (out @ [m])))"

definition snapshot_list :: "('s, 'm) s3_env_scheme \<Rightarrow> s3_conf \<Rightarrow> ('s, snapshot_manifest list) op" where
  "snapshot_list E c =
     bind_op (of_result (require_cow_store c)) (\<lambda>_.
     bind_op (list_objects E (s3_prefix c @ ''/snapshots/'')) (\<lambda>os.
     bind_op (fold_op (load_manifest E) []
         (filter (ends_with ''/manifest.json'') (map (\<lambda>ob. case o_key ob of Some k \<Rightarrow> k | None \<Rightarrow> []) os)))
       (\<lambda>out. ret_op (sort_key sm_id out))))"

definition snapshot_get :: "('s, 'm) s3_env_scheme \<Rightarrow> s3_conf \<Rightarrow> string \<Rightarrow> ('s, snapshot_manifest) op" where
  "snapshot_get E c sid =
     bind_op (of_result (require_cow_store c)) (\<lambda>_.
     bind_op (get_bytes E (snapshot_manifest_key c sid)) (\<lambda>r. case r of
       None \<Rightarrow> err_op (Other (''snapshot '' @ sid @ '' not found''))
     | Some (bytes, _) \<Rightarrow> of_result (man_parse E bytes)))"

definition load_snapshot_refs :: "('s, 'm) s3_env_scheme \<Rightarrow> s3_conf \<Rightarrow> string \<Rightarrow> ('s, chunk_ref list) op" where
  "load_snapshot_refs E c sid =
     bind_op (get_bytes E (snapshot_chunks_key c sid)) (\<lambda>r. case r of
       None \<Rightarrow> err_op (Other (''snapshot '' @ sid @ '' chunks.bin missing''))
     | Some (bytes, _) \<Rightarrow> of_result (read_chunks_bin bytes))"

section \<open>Garbage collection and deletion\<close>

record gc_stats =
  gc_objects_deleted :: nat
  gc_objects_referenced :: nat

definition mark_live :: "('s, 'm) s3_env_scheme \<Rightarrow> s3_conf \<Rightarrow> hash list \<Rightarrow> nat \<Rightarrow> ('s, hash list) op" where
  "mark_live E c referenced idx =
     bind_op (read_pointer_hash E c idx)
       (\<lambda>r. ret_op (case r of Some h \<Rightarrow> h # referenced | None \<Rightarrow> referenced))"

text \<open>\<open>if let Ok(refs) = self.load_snapshot_refs(&m.id)\<close>: an error counts as no references.\<close>

definition mark_snapshot ::
  "('s, 'm) s3_env_scheme \<Rightarrow> s3_conf \<Rightarrow> hash list \<Rightarrow> snapshot_manifest \<Rightarrow> ('s, hash list) op" where
  "mark_snapshot E c referenced m s =
     (case load_snapshot_refs E c (sm_id m) s of
        (Ok refs, s') \<Rightarrow> (Ok (map cr_hash refs @ referenced), s')
      | (Err e, s') \<Rightarrow> (Ok referenced, s')
      | (Panic, s') \<Rightarrow> (Panic, s'))"

definition sweep_key ::
  "('s, 'm) s3_env_scheme \<Rightarrow> string \<Rightarrow> hash list \<Rightarrow> nat \<Rightarrow> string \<Rightarrow> ('s, nat) op" where
  "sweep_key E obj_prefix referenced deleted key =
     (case strip_prefix obj_prefix key of
        None \<Rightarrow> ret_op deleted
      | Some rel \<Rightarrow>
          bind_op (of_result (hash_from_object_relpath rel)) (\<lambda>h. case h of
            None \<Rightarrow> ret_op deleted
          | Some h \<Rightarrow>
              if h \<notin> set referenced then bind_op (delete_object_key E key) (\<lambda>_. ret_op (deleted + 1))
              else ret_op deleted))"

definition gc_unreferenced_objects :: "('s, 'm) s3_env_scheme \<Rightarrow> s3_conf \<Rightarrow> ('s, gc_stats) op" where
  "gc_unreferenced_objects E c =
     bind_op (of_result (require_cow_store c)) (\<lambda>_.
     bind_op (present_at E c) (\<lambda>live.
     bind_op (fold_op (mark_live E c) [] live) (\<lambda>ref1.
     bind_op (snapshot_list E c) (\<lambda>ms.
     bind_op (fold_op (mark_snapshot E c) ref1 ms) (\<lambda>referenced.
     bind_op (list_keys E (s3_prefix c @ ''/objects/'')) (\<lambda>keys.
     bind_op (fold_op (sweep_key E (s3_prefix c @ ''/objects/'') referenced) 0 keys) (\<lambda>deleted.
       ret_op \<lparr>gc_objects_deleted = deleted, gc_objects_referenced = length (remdups referenced)\<rparr>)))))))"

definition snapshot_delete :: "('s, 'm) s3_env_scheme \<Rightarrow> s3_conf \<Rightarrow> string \<Rightarrow> ('s, gc_stats) op" where
  "snapshot_delete E c sid =
     bind_op (of_result (require_cow_store c)) (\<lambda>_.
     bind_op (snapshot_get E c sid) (\<lambda>_.
     bind_op (delete_object_key E (snapshot_chunks_key c sid)) (\<lambda>_.
     bind_op (delete_object_key E (snapshot_manifest_key c sid)) (\<lambda>_.
       gc_unreferenced_objects E c))))"

definition delete_prefix :: "('s, 'm) s3_env_scheme \<Rightarrow> string \<Rightarrow> ('s, nat) op" where
  "delete_prefix E p =
     bind_op (list_keys E p)
       (fold_op (\<lambda>deleted key. bind_op (delete_object_key E key) (\<lambda>_. ret_op (deleted + 1))) 0)"

definition wipe_objects_and_snapshots :: "('s, 'm) s3_env_scheme \<Rightarrow> s3_conf \<Rightarrow> ('s, nat \<times> nat) op" where
  "wipe_objects_and_snapshots E c =
     bind_op (delete_prefix E (s3_prefix c @ ''/objects/'')) (\<lambda>objects.
     bind_op (delete_prefix E (s3_prefix c @ ''/snapshots/'')) (\<lambda>snapshots.
       ret_op (objects, snapshots)))"

section \<open>Restore and clone\<close>

definition at_conf :: "(s3_conf \<Rightarrow> ('s, 'a) op) \<Rightarrow> ('s s3_store, 'a) op" where
  "at_conf m s = on_svc (m (st_conf s)) s"

fun debug_state :: "snapshot_state \<Rightarrow> string" where
  "debug_state Creating = ''Creating''"
| "debug_state Ready = ''Ready''"
| "debug_state Deleting = ''Deleting''"

record restore_stats =
  rs_pointers_written :: nat
  rs_pointers_deleted :: nat
  rs_capacity :: nat

definition grow_to :: "('s, 'm) s3_env_scheme \<Rightarrow> nat \<Rightarrow> ('s s3_store, unit) op" where
  "grow_to E cap s = (if s3_capacity (st_conf s) < cap then s3_set_capacity E cap s else (Ok (), s))"

definition install_refs :: "('s, 'm) s3_env_scheme \<Rightarrow> chunk_ref list \<Rightarrow> s3_conf \<Rightarrow> ('s, nat) op" where
  "install_refs E refs c =
     fold_op (\<lambda>n r. bind_op (put_pointer E c (cr_index r) (cr_hash r)) (\<lambda>_. ret_op (n + 1))) 0 refs"

definition drop_others :: "('s, 'm) s3_env_scheme \<Rightarrow> nat list \<Rightarrow> nat list \<Rightarrow> s3_conf \<Rightarrow> ('s, nat) op" where
  "drop_others E snap_set live c =
     fold_op (\<lambda>n idx.
        if idx \<notin> set snap_set then bind_op (delete_chunk_object E c idx) (\<lambda>_. ret_op (n + 1))
        else ret_op n) 0 live"

definition snapshot_restore :: "('s, 'm) s3_env_scheme \<Rightarrow> string \<Rightarrow> ('s s3_store, restore_stats) op" where
  "snapshot_restore E sid s0 =
     bind_op (of_result (require_cow_store (st_conf s0))) (\<lambda>_.
     bind_op (at_conf (\<lambda>c. snapshot_get E c sid)) (\<lambda>manifest s.
       if sm_state manifest \<noteq> Ready then
         (Err (Other (''snapshot '' @ sid @ '' is not ready ('' @ debug_state (sm_state manifest) @ '')'')), s)
       else if sm_chunk_size manifest \<noteq> s3_chunk_size (st_conf s) \<or> sm_block_size manifest \<noteq> s3_block_size (st_conf s) then
         (Err (GeometryMismatch ''snapshot geometry does not match live volume''), s)
       else if sm_compression manifest \<noteq> s3_compression (st_conf s) then
         (Err (GeometryMismatch ''snapshot compression does not match live volume''), s)
       else
         bind_op (grow_to E (sm_capacity_bytes manifest)) (\<lambda>_.
         bind_op (at_conf (\<lambda>c. load_snapshot_refs E c sid)) (\<lambda>refs.
         bind_op (s3_present_chunks E) (\<lambda>live.
         bind_op (at_conf (install_refs E refs)) (\<lambda>written.
         bind_op (at_conf (drop_others E (map cr_index refs) live)) (\<lambda>deleted s1.
           (Ok \<lparr>rs_pointers_written = written, rs_pointers_deleted = deleted,
                rs_capacity = s3_capacity (st_conf s1)\<rparr>, s1)))))) s)) s0"

record clone_stats =
  cl_pointers_written :: nat
  cl_objects_copied :: nat

definition clone_ref ::
  "('s, 'm) s3_env_scheme \<Rightarrow> s3_conf \<Rightarrow> s3_conf \<Rightarrow> clone_stats \<Rightarrow> chunk_ref \<Rightarrow> ('s, clone_stats) op" where
  "clone_ref E src dest st r =
     bind_op (get_object E dest (cr_hash r)) (\<lambda>there.
     bind_op (if there = None then
                bind_op (get_object E src (cr_hash r)) (\<lambda>b. case b of
                  None \<Rightarrow> err_op (Other (''missing object for hash '' @ hash_hex (cr_hash r)))
                | Some (body, _) \<Rightarrow>
                    bind_op (put_bytes E (object_key dest (cr_hash r)) body None None)
                      (\<lambda>_. ret_op (cl_objects_copied st + 1)))
              else ret_op (cl_objects_copied st)) (\<lambda>copied.
     bind_op (put_pointer E dest (cr_index r) (cr_hash r)) (\<lambda>_.
       ret_op \<lparr>cl_pointers_written = cl_pointers_written st + 1, cl_objects_copied = copied\<rparr>)))"

definition snapshot_clone_into ::
  "('s, 'm) s3_env_scheme \<Rightarrow> s3_conf \<Rightarrow> string \<Rightarrow> ('s s3_store, clone_stats) op" where
  "snapshot_clone_into E src sid s0 =
     bind_op (of_result (require_cow_store src)) (\<lambda>_.
     bind_op (of_result (require_cow_store (st_conf s0))) (\<lambda>_ s.
       if s3_prefix src = s3_prefix (st_conf s) then
         (Err (Other ''clone destination must be a different volume prefix''), s)
       else if s3_chunk_size (st_conf s) \<noteq> s3_chunk_size src \<or> s3_block_size (st_conf s) \<noteq> s3_block_size src \<or>
               s3_compression (st_conf s) \<noteq> s3_compression src then
         (Err (GeometryMismatch ''clone destination geometry/compression must match snapshot source''), s)
       else
         bind_op (on_svc (snapshot_get E src sid)) (\<lambda>manifest.
           if sm_state manifest \<noteq> Ready then err_op (Other (''snapshot '' @ sid @ '' is not ready''))
           else
             bind_op (grow_to E (sm_capacity_bytes manifest)) (\<lambda>_.
             bind_op (s3_present_chunks E) (\<lambda>existing.
               if existing \<noteq> [] then err_op (Other ''clone destination must be empty (no live chunk pointers)'')
               else
                 bind_op (on_svc (load_snapshot_refs E src sid)) (\<lambda>refs.
                   at_conf (\<lambda>dest. fold_op (clone_ref E src dest)
                     \<lparr>cl_pointers_written = 0, cl_objects_copied = 0\<rparr> refs))))) s)) s0"

section \<open>Migration to the copy-on-write layout\<close>

record migrate_stats =
  mg_chunks_migrated :: nat
  mg_chunks_deleted :: nat

definition migrate_body ::
  "('s, 'm) s3_env_scheme \<Rightarrow> s3_conf \<Rightarrow> nat \<Rightarrow> ('s, bytes option) op" where
  "migrate_body E c idx =
     bind_op (get_bytes E (legacy_chunk_key c idx)) (\<lambda>r. case r of
       Some (body, _) \<Rightarrow> ret_op (Some body)
     | None \<Rightarrow> bind_op (get_bytes E (legacy_flat_chunk_key c idx)) (\<lambda>r2. ret_op (map_option fst r2)))"

definition live_pointer_key :: "s3_conf \<Rightarrow> nat \<Rightarrow> string" where
  "live_pointer_key c idx = s3_prefix c @ ''/live/chunks/'' @ hex_fixed hex_digit 16 idx"

definition migrate_chunk ::
  "('s, 'm) s3_env_scheme \<Rightarrow> s3_conf \<Rightarrow> nat \<Rightarrow> nat \<Rightarrow> ('s, nat) op" where
  "migrate_chunk E c n idx =
     bind_op (migrate_body E c idx) (\<lambda>r. case r of
       None \<Rightarrow> ret_op n
     | Some body \<Rightarrow>
         (let h = e_blake3 E body in
          bind_op (put_bytes E (object_key c h) body None None) (\<lambda>_.
          bind_op (put_bytes E (live_pointer_key c idx) (encode_pointer h) None None) (\<lambda>_.
          bind_op (ignore_err (delete_object_key E (legacy_chunk_key c idx))) (\<lambda>_.
          bind_op (ignore_err (delete_object_key E (legacy_flat_chunk_key c idx))) (\<lambda>_.
            ret_op (n + 1)))))))"

definition marker_bytes :: bytes where
  "marker_bytes = str_bytes (''{'' @ [CHR 34] @ ''state'' @ [CHR 34] @ '':'' @ [CHR 34] @ ''migrating'' @ [CHR 34] @ ''}'')"

definition migrate_to_cow :: "('s, 'm) s3_env_scheme \<Rightarrow> ('s s3_store, migrate_stats) op" where
  "migrate_to_cow E s =
     (let c = st_conf s in
      if s3_storage c \<noteq> Legacy then
        bind_op (on_svc (ignore_err (delete_object_key E (migrating_key c))))
          (\<lambda>_. err_op (Other ''volume is already storage=cow'')) s
      else
        bind_op (on_svc (put_bytes E (migrating_key c) marker_bytes (Some ''application/json'') None)) (\<lambda>_.
        bind_op (on_svc (list_chunk_indices E (s3_prefix c @ ''/chunks/''))) (\<lambda>indices.
        bind_op (on_svc (fold_op (migrate_chunk E c) 0 indices)) (\<lambda>n.
        bind_op (on_svc (put_meta_at E (live_meta_key c)
            \<lparr>vm_version = meta_version, vm_capacity_bytes = s3_capacity c, vm_chunk_size = s3_chunk_size c,
             vm_block_size = s3_block_size c, vm_compression = s3_compression c, vm_storage = Cow\<rparr>)) (\<lambda>_.
        bind_op (\<lambda>s1. (Ok (), s1\<lparr>st_conf := (st_conf s1)\<lparr>s3_storage := Cow\<rparr>\<rparr>)) (\<lambda>_.
        bind_op (on_svc (ignore_err (delete_object_key E (flat_meta_key c)))) (\<lambda>_.
        bind_op (on_svc (ignore_err (delete_object_key E (migrating_key c)))) (\<lambda>_.
          ret_op \<lparr>mg_chunks_migrated = n, mg_chunks_deleted = n\<rparr>))))))) s)"

section \<open>Opening a volume\<close>

definition s3_open :: "('s, 'm) s3_env_scheme \<Rightarrow> s3_conf \<Rightarrow> 's \<Rightarrow> 's s3_store result \<times> 's" where
  "s3_open E cfg v =
     (let c0 = cfg\<lparr>s3_prefix := trim_slashes (s3_prefix cfg)\<rparr> in
      bind_op (probe_layout E c0 (s3_storage cfg)) (\<lambda>(mode, existing).
      let c1 = c0\<lparr>s3_storage := mode\<rparr> in
      bind_op (resolve_meta E c1 (s3_capacity cfg) existing) (\<lambda>effective.
      let c2 = c1\<lparr>s3_capacity := effective\<rparr> in
      bind_op (if s3_storage c2 = Legacy then has_migration_marker E c2 else ret_op False) (\<lambda>marked v.
        if marked then
          (case migrate_to_cow E \<lparr>st_conf = c2, st_svc = v\<rparr> of
             (Ok _, s) \<Rightarrow> (Ok s, st_svc s)
           | (Err e, s) \<Rightarrow> (Err e, st_svc s)
           | (Panic, s) \<Rightarrow> (Panic, st_svc s))
        else (Ok \<lparr>st_conf = c2, st_svc = v\<rparr>, v)))) v)"

section \<open>Statistics\<close>

record prefix_object_stats =
  po_object_count :: nat
  po_chunk_count :: nat
  po_meta_count :: nat
  po_other_count :: nat
  po_total_bytes :: nat
  po_chunk_bytes :: nat
  po_meta_bytes :: nat
  po_other_bytes :: nat

definition stats_add :: "string \<Rightarrow> prefix_object_stats \<Rightarrow> s3_object \<Rightarrow> prefix_object_stats" where
  "stats_add p st ob =
     (let key = (case o_key ob of Some k \<Rightarrow> k | None \<Rightarrow> []);
          size' = nat ((case o_size ob of Some n \<Rightarrow> n | None \<Rightarrow> 0) mod 2 ^ 64);
          st = st\<lparr>po_object_count := wrap_add (po_object_count st) 1,
                  po_total_bytes := wrap_add (po_total_bytes st) size'\<rparr>
      in if ends_with ''/meta.json'' key \<or> key = p @ ''/meta.json'' then
           st\<lparr>po_meta_count := wrap_add (po_meta_count st) 1, po_meta_bytes := wrap_add (po_meta_bytes st) size'\<rparr>
         else if contains_str ''/chunks/'' key then
           st\<lparr>po_chunk_count := wrap_add (po_chunk_count st) 1, po_chunk_bytes := wrap_add (po_chunk_bytes st) size'\<rparr>
         else
           st\<lparr>po_other_count := wrap_add (po_other_count st) 1, po_other_bytes := wrap_add (po_other_bytes st) size'\<rparr>)"

definition stats_zero :: prefix_object_stats where
  "stats_zero = \<lparr>po_object_count = 0, po_chunk_count = 0, po_meta_count = 0, po_other_count = 0,
     po_total_bytes = 0, po_chunk_bytes = 0, po_meta_bytes = 0, po_other_bytes = 0\<rparr>"

definition list_prefix_stats :: "('s, 'm) s3_env_scheme \<Rightarrow> string \<Rightarrow> ('s, prefix_object_stats) op" where
  "list_prefix_stats E p0 =
     (let p = trim_slashes p0
      in bind_op (list_objects E (p @ ''/'')) (\<lambda>os. ret_op (foldl (stats_add p) stats_zero os)))"

end
