(* ===== verification/SnapshotRefine.thy ===== *)
theory SnapshotRefine
  imports S3Snapshot S3Refine
begin

text \<open>
  Correctness of the snapshot operations of the S3 store. \<open>snapshot_holds\<close> says that the manifest,
  the index and the objects of a snapshot give a disk. Creating a snapshot of a volume establishes
  it for the live disk; block-store operations, failed ones included, keep it; restoring makes it
  the live disk; garbage collection keeps the live disk, and every snapshot when its reads succeed.
\<close>

section \<open>Loops and guards\<close>

lemma fold_op_hoare:
  assumes "\<And>b x ys zs. xs = ys @ x # zs \<Longrightarrow> hoare (I ys b) (f b x) (\<lambda>b'. I (ys @ [x]) b') F"
  shows "hoare (I [] b) (fold_op f b xs) (\<lambda>b. I xs b) F"
proof -
  have "hoare (I ys b) (fold_op f b zs) (\<lambda>b. I xs b) F" if "xs = ys @ zs" for ys zs b
    using that
  proof (induction zs arbitrary: ys b)
    case (Cons z zs)
    then show ?case
      by (auto intro!: hoare_bind [OF assms] Cons.IH)
  qed (simp add: hoare_ret)
  from this [of "[]" xs] show ?thesis by simp
qed

lemma fold_op_inv:
  assumes "\<And>b x. x \<in> set xs \<Longrightarrow> hoare I (f b x) (\<lambda>_. I) F"
  shows "hoare I (fold_op f b xs) (\<lambda>_. I) F"
  by (rule fold_op_hoare [where I = "\<lambda>_ _. I"]) (use assms in auto)

lemma require_cow_store_iff: "require_cow_store c = Ok () \<longleftrightarrow> s3_storage c = Cow"
  by (auto simp: require_cow_store_def require_cow_def supports_snapshots_def)

lemma require_cow_hoare:
  assumes "s3_storage c = Cow \<Longrightarrow> hoare P m Q F" and "\<And>s. P s \<Longrightarrow> F s"
  shows "hoare P (bind_op (of_result (require_cow_store c)) (\<lambda>_. m)) Q F"
proof (cases "s3_storage c")
  case Cow
  then have "require_cow_store c = Ok ()" by (simp add: require_cow_store_iff)
  then show ?thesis
    using assms(1) [OF Cow] by (simp add: hoare_def bind_op_def of_result_def)
next
  case Legacy
  then show ?thesis
    using assms(2) by (simp add: hoare_def bind_op_def of_result_def require_cow_store_def require_cow_def
        supports_snapshots_def)
qed

lemma hoare_exists: "(\<And>x. hoare (P x) m Q F) \<Longrightarrow> hoare (\<lambda>s. \<exists>x. P x s) m Q F"
  by (auto simp: hoare_def)

lemma bind_of_result [simp]:
  "bind_op (of_result (Ok a)) f = f a" "bind_op (of_result (Err e)) f = err_op e"
  by (auto simp: fun_eq_iff bind_op_def of_result_def err_op_def)

lemma hoare_bind_result:
  assumes "\<And>a. r = Ok a \<Longrightarrow> hoare P (f a) Q F" and "\<And>s. P s \<Longrightarrow> F s" and "r \<noteq> Panic"
  shows "hoare P (bind_op (of_result r) f) Q F"
  using assms by (cases r) (auto simp: hoare_def bind_op_def of_result_def err_op_def)

section \<open>What a snapshot stands for\<close>

definition ref_value :: "('s, 'm) s3_env_scheme \<Rightarrow> s3_conf \<Rightarrow> (string \<rightharpoonup> bytes) \<Rightarrow> hash option \<Rightarrow> bytes option" where
  "ref_value E c ob r =
     (case r of
        None \<Rightarrow> Some (zeros (s3_chunk_size c))
      | Some h \<Rightarrow> (case ob (object_key c h) of None \<Rightarrow> None | Some b \<Rightarrow> decoded E c b))"

definition refs_map :: "chunk_ref list \<Rightarrow> nat \<rightharpoonup> hash" where
  "refs_map refs = map_of (map (\<lambda>r. (cr_index r, cr_hash r)) refs)"

definition refs_hold ::
  "('s, 'm) s3_env_scheme \<Rightarrow> s3_conf \<Rightarrow> (string \<rightharpoonup> bytes) \<Rightarrow> chunk_ref list \<Rightarrow> (nat \<Rightarrow> byte) \<Rightarrow> bool" where
  "refs_hold E c ob refs d \<longleftrightarrow>
     distinct (map cr_index refs) \<and> (\<forall>r \<in> set refs. wf_ref r) \<and>
     (\<forall>i. is_index i \<longrightarrow>
        ref_value E c ob (refs_map refs i) = Some (disk_read d (i * s3_chunk_size c) (s3_chunk_size c)))"

definition snapshot_holds ::
  "('s, 'm) s3_env_scheme \<Rightarrow> s3_conf \<Rightarrow> (string \<rightharpoonup> bytes) \<Rightarrow> string \<Rightarrow> snapshot_manifest \<Rightarrow> (nat \<Rightarrow> byte) \<Rightarrow> bool" where
  "snapshot_holds E c ob sid m d \<longleftrightarrow>
     sm_id m = sid \<and> sm_state m = Ready \<and> sm_chunk_size m = s3_chunk_size c \<and> sm_block_size m = s3_block_size c \<and>
     sm_compression m = s3_compression c \<and> zero_beyond (sm_capacity_bytes m) d \<and>
     (\<exists>mb bin refs. ob (snapshot_manifest_key c sid) = Some mb \<and> e_man_dec E mb = Inr m \<and>
        ob (snapshot_chunks_key c sid) = Some bin \<and> read_chunks_bin bin = Ok refs \<and> refs_hold E c ob refs d)"

text \<open>A change of the bucket that leaves the snapshots' own objects and every pool object in place.\<close>

definition snap_frame :: "s3_conf \<Rightarrow> (string \<rightharpoonup> bytes) \<Rightarrow> (string \<rightharpoonup> bytes) \<Rightarrow> bool" where
  "snap_frame c ob ob' \<longleftrightarrow>
     (\<forall>k. is_prefix (s3_prefix c @ ''/snapshots/'') k \<longrightarrow> ob' k = ob k) \<and>
     (\<forall>h b. length h = hash_len \<longrightarrow> ob (object_key c h) = Some b \<longrightarrow> ob' (object_key c h) = Some b)"

lemma snap_frame_refl [simp]: "snap_frame c ob ob"
  by (simp add: snap_frame_def)

lemma snap_frame_trans: "snap_frame c ob ob1 \<Longrightarrow> snap_frame c ob1 ob2 \<Longrightarrow> snap_frame c ob ob2"
  by (simp add: snap_frame_def)

lemma snap_keys_prefix [simp]:
  "is_prefix (s3_prefix c @ ''/snapshots/'') (snapshot_manifest_key c sid)"
  "is_prefix (s3_prefix c @ ''/snapshots/'') (snapshot_chunks_key c sid)"
  by (auto simp: is_prefix_iff snapshot_manifest_key_def snapshot_chunks_key_def snapshot_prefix_def)

lemma refs_map_wf: "\<forall>r \<in> set refs. wf_ref r \<Longrightarrow> refs_map refs i = Some h \<Longrightarrow> length h = hash_len"
  by (auto simp: refs_map_def wf_ref_def dest!: map_of_SomeD)

lemma ref_value_mono:
  assumes "\<And>h b. length h = hash_len \<Longrightarrow> ob (object_key c h) = Some b \<Longrightarrow> ob' (object_key c h) = Some b"
    and "ref_value E c ob r = Some v" and "\<And>h. r = Some h \<Longrightarrow> length h = hash_len"
  shows "ref_value E c ob' r = Some v"
  using assms by (fastforce simp: ref_value_def split: option.splits)

lemma refs_hold_mono:
  assumes "\<And>h b. length h = hash_len \<Longrightarrow> ob (object_key c h) = Some b \<Longrightarrow> ob' (object_key c h) = Some b"
    and "refs_hold E c ob refs d"
  shows "refs_hold E c ob' refs d"
  unfolding refs_hold_def
proof (intro conjI allI impI)
  have wf: "\<forall>r \<in> set refs. wf_ref r"
    using assms(2) by (simp add: refs_hold_def)
  fix i assume "is_index i"
  then have "ref_value E c ob (refs_map refs i) = Some (disk_read d (i * s3_chunk_size c) (s3_chunk_size c))"
    using assms(2) by (simp add: refs_hold_def)
  then show "ref_value E c ob' (refs_map refs i) = Some (disk_read d (i * s3_chunk_size c) (s3_chunk_size c))"
    by (rule ref_value_mono [where ob = ob, rotated]) (use refs_map_wf wf assms(1) in blast)+
qed (use assms(2) in \<open>auto simp: refs_hold_def\<close>)

lemma snapshot_holds_frame:
  assumes "snapshot_holds E c ob sid m d" and "snap_frame c ob ob'"
  shows "snapshot_holds E c ob' sid m d"
proof -
  have keys: "ob' (snapshot_manifest_key c sid) = ob (snapshot_manifest_key c sid)"
      "ob' (snapshot_chunks_key c sid) = ob (snapshot_chunks_key c sid)"
    using assms(2) by (simp_all add: snap_frame_def)
  have refs: "refs_hold E c ob refs d \<Longrightarrow> refs_hold E c ob' refs d" for refs
    using assms(2) by (intro refs_hold_mono [where ob = ob and ob' = ob']) (auto simp: snap_frame_def)
  show ?thesis
    using assms(1) refs unfolding snapshot_holds_def keys by blast
qed

lemma snap_frame_other:
  assumes "\<not> is_prefix (s3_prefix c @ ''/snapshots/'') k" and "\<And>h. k \<noteq> object_key c h"
  shows "snap_frame c ob (ob(k := v))"
  using assms by (auto simp: snap_frame_def)

lemma snap_frame_pool:
  assumes "pool_ok E c U ob" and "s3_storage c = Cow" and "inj_on (e_blake3 E) U" and "b \<in> U"
    and "length (e_blake3 E b) = hash_len"
  shows "snap_frame c ob (ob(object_key c (e_blake3 E b) \<mapsto> b))"
proof -
  have "\<not> is_prefix (s3_prefix c @ ''/snapshots/'') (object_key c h)" for h
    by (auto simp: is_prefix_iff object_key_def)
  moreover have "b' = b" if "ob (object_key c (e_blake3 E b)) = Some b'" for b'
  proof -
    have "e_blake3 E b' = e_blake3 E b \<and> b' \<in> U"
      using assms(1,2,5) that unfolding pool_ok_def by blast
    with assms(3,4) show ?thesis by (blast dest: inj_onD)
  qed
  ultimately show ?thesis
    unfolding snap_frame_def fun_upd_apply by (auto split: if_splits)
qed

section \<open>Writes keep snapshots\<close>

definition pool_frame ::
  "('s, 'm) s3_env_scheme \<Rightarrow> ('s \<Rightarrow> string \<rightharpoonup> bytes) \<Rightarrow> s3_conf \<Rightarrow> bytes set \<Rightarrow> (string \<rightharpoonup> bytes) \<Rightarrow> 's \<Rightarrow> bool" where
  "pool_frame E objs c U ob s \<longleftrightarrow> pool_ok E c U (objs s) \<and> snap_frame c ob (objs s)"

lemma pool_frame_cong: "pool_frame E objs c U ob s \<Longrightarrow> objs s' = objs s \<Longrightarrow> pool_frame E objs c U ob s'"
  by (simp add: pool_frame_def)

definition side_key :: "s3_conf \<Rightarrow> string \<Rightarrow> bool" where
  "side_key c k \<longleftrightarrow> \<not> is_prefix (s3_prefix c @ ''/snapshots/'') k \<and> (\<forall>h. k \<noteq> object_key c h)"

lemma side_keys [simp]:
  "s3_storage c = Cow \<Longrightarrow> side_key c (chunk_key c i)" "side_key c (meta_key c)" "side_key c (migrating_key c)"
  "side_key c (legacy_chunk_key c i)" "side_key c (legacy_flat_chunk_key c i)" "side_key c (flat_meta_key c)"
  "side_key c (live_meta_key c)"
  by (auto simp: side_key_def is_prefix_iff cow_chunk_key meta_key_def key_defs split: storage_mode.splits)

lemma pool_frame_side:
  assumes "pool_frame E objs c U ob s" and "side_key c k" and "objs s' = (objs s)(k := v)"
  shows "pool_frame E objs c U ob s'"
proof -
  have "snap_frame c (objs s) (objs s')"
    using assms(2,3) snap_frame_other by (auto simp: side_key_def)
  moreover have "pool_ok E c U (objs s')"
    using assms unfolding pool_frame_def pool_ok_def side_key_def by (auto split: if_splits)
  ultimately show ?thesis
    using assms(1) by (auto simp: pool_frame_def intro: snap_frame_trans)
qed

lemma put_side_hoare:
  assumes "put_law E objs" and "side_key c k"
  shows "hoare (pool_frame E objs c U ob) (put_bytes E k b ct im) (\<lambda>_. pool_frame E objs c U ob) (pool_frame E objs c U ob)"
  unfolding hoare_def
proof (intro allI impI)
  fix s assume s: "pool_frame E objs c U ob s"
  note K = pool_frame_side [OF s assms(2)] pool_frame_cong [OF s]
  show "post (\<lambda>_. pool_frame E objs c U ob) (pool_frame E objs c U ob) (put_bytes E k b ct im s)"
    by (rule post_mono [OF hoare_post [OF put_bytes_hoare [OF assms(1)] refl]]) (use K in blast)+
qed

lemma delete_side_hoare:
  assumes "delete_law E objs" and "side_key c k"
  shows "hoare (pool_frame E objs c U ob) (delete_object_key E k) (\<lambda>_. pool_frame E objs c U ob) (pool_frame E objs c U ob)"
  unfolding hoare_def
proof (intro allI impI)
  fix s assume s: "pool_frame E objs c U ob s"
  note K = pool_frame_side [OF s assms(2)] pool_frame_cong [OF s]
  show "post (\<lambda>_. pool_frame E objs c U ob) (pool_frame E objs c U ob) (delete_object_key E k s)"
    by (rule post_mono [OF hoare_post [OF delete_object_hoare [OF assms(1)] refl]]) (use K in blast)+
qed

lemma put_object_hoare:
  assumes L: "s3_laws E objs" and U: "inj_on (e_blake3 E) U" "b \<in> U" and c: "s3_storage c = Cow"
  shows "hoare (pool_frame E objs c U ob) (put_bytes E (object_key c (e_blake3 E b)) b ct im)
    (\<lambda>_. pool_frame E objs c U ob) (pool_frame E objs c U ob)"
  unfolding hoare_def
proof (intro allI impI)
  fix s assume s: "pool_frame E objs c U ob s"
  then have pool: "pool_ok E c U (objs s)" and fr: "snap_frame c ob (objs s)"
    by (auto simp: pool_frame_def)
  note len = s3_lawsD(6) [OF L]
  have K: "objs s' = (objs s)(object_key c (e_blake3 E b) \<mapsto> b) \<Longrightarrow> pool_frame E objs c U ob s'" for s'
    using pool_add(1) [OF c pool U len] snap_frame_pool [OF pool c U len] snap_frame_trans [OF fr]
    by (simp add: pool_frame_def)
  note K' = pool_frame_cong [OF s]
  show "post (\<lambda>_. pool_frame E objs c U ob) (pool_frame E objs c U ob) (put_bytes E (object_key c (e_blake3 E b)) b ct im s)"
    by (rule post_mono [OF hoare_post [OF put_bytes_hoare [OF s3_lawsD(2) [OF L]] refl]]) (use K K' in blast)+
qed

lemma cow_put_keeps:
  assumes L: "s3_laws E objs" and U: "inj_on (e_blake3 E) U" and c: "s3_storage c = Cow"
  shows "put_keeps E objs c U (pool_frame E objs c U ob)"
  unfolding put_keeps_def
proof (intro conjI allI impI)
  fix i x im assume adm: "s3_adm E (s3_compression c) U x"
  let ?F = "pool_frame E objs c U ob"
  have body: "hoare ?F (bind_op (put_bytes E (object_key c (e_blake3 E b)) b None None)
      (\<lambda>_. put_bytes E (chunk_key c i) (encode_pointer (e_blake3 E b)) None im)) (\<lambda>_. ?F) ?F"
    if "encode_chunk (e_codec E) (s3_compression c) x = Ok b" for b
    by (rule hoare_bind [OF put_object_hoare [OF L U _ c]])
      (use adm that c s3_lawsD(2) [OF L] in \<open>auto simp: s3_adm_def intro!: put_side_hoare\<close>)
  have "hoare ?F (put_chunk E c i x im) (\<lambda>_. ?F) ?F"
    unfolding put_chunk_def c storage_mode.case Let_def
    by (intro hoare_if hoare_err hoare_bind_result body) (auto simp: encode_chunk_no_panic)
  then show "hoare (\<lambda>s. pool_ok E c U (objs s) \<and> ?F s) (put_chunk E c i x im) (\<lambda>_. ?F) ?F"
    by (rule hoare_pre) simp
qed (auto intro: pool_frame_cong)

text \<open>No block-store operation, acknowledged or failed, changes what a snapshot stands for.\<close>

lemma snapshot_frame_post:
  assumes "snapshot_holds E c ob sid m ds" and "pool_frame E objs c U ob v"
  shows "snapshot_holds E c (objs v) sid m ds"
  using assms snapshot_holds_frame by (auto simp: pool_frame_def)

definition snap_state ::
  "('s, 'm) s3_env_scheme \<Rightarrow> ('s \<Rightarrow> string \<rightharpoonup> bytes) \<Rightarrow> string \<Rightarrow> snapshot_manifest \<Rightarrow> (nat \<Rightarrow> byte) \<Rightarrow> 's s3_store \<Rightarrow> bool" where
  "snap_state E objs sid m ds s \<longleftrightarrow>
     s3_storage (st_conf s) = Cow \<and> snapshot_holds E (st_conf s) (objs (st_svc s)) sid m ds"

lemma s3_write_snapshot:
  assumes L: "s3_laws E objs" and U: "inj_on (e_blake3 E) U" and adm: "adm_write (s3_adm E a U) (g_chunk g) d off bs"
  shows "hoare (\<lambda>s. st_conf s = c \<and> s3_rep E objs a U d g s \<and> snap_state E objs sid m ds s) (s3_write_at E off bs)
    (\<lambda>_ s. st_conf s = c \<and> s3_rep E objs a U (disk_write d off bs) g s \<and> snap_state E objs sid m ds s)
    (\<lambda>s. st_conf s = c \<and> pool_ok E c U (objs (st_svc s)) \<and> snap_state E objs sid m ds s)"
    (is "hoare _ _ ?Q ?F")
  unfolding hoare_def
proof (intro allI impI)
  fix s assume s: "st_conf s = c \<and> s3_rep E objs a U d g s \<and> snap_state E objs sid m ds s"
  let ?ob = "objs (st_svc s)"
  let ?I = "\<lambda>c' v. c' = c \<and> pool_frame E objs c U ?ob v"
  have cow: "s3_storage c = Cow" and snap: "snapshot_holds E c ?ob sid m ds"
    using s by (auto simp: snap_state_def)
  have I: "put_keeps E objs (st_conf t) U (?I (st_conf t))" for t
    using cow_put_keeps [OF L U cow, of ?ob] by (cases "st_conf t = c") (auto simp: put_keeps_def hoare_def)
  have "?I (st_conf s) (st_svc s)"
    using s3_rep_svc [of E objs a U d g s] s by (simp add: pool_frame_def svc_rep_def)
  with s have "s3_rep E objs a U d g s \<and> ?I (st_conf s) (st_svc s)" by simp
  from hoare_post [OF s3_write_keeps [OF L U adm I] this] show "post ?Q ?F (s3_write_at E off bs s)"
    by (rule post_mono) (use snapshot_frame_post [OF snap] cow in \<open>auto simp: snap_state_def pool_frame_def\<close>)
qed

lemma s3_delete_snapshot:
  assumes L: "s3_laws E objs"
  shows "hoare (\<lambda>s. pool_ok E (st_conf s) U (objs (st_svc s)) \<and> snap_state E objs sid m ds s) (s3_delete_chunk E i)
    (\<lambda>_. snap_state E objs sid m ds) (snap_state E objs sid m ds)"
  unfolding hoare_def
proof (intro allI impI)
  fix s assume s: "pool_ok E (st_conf s) U (objs (st_svc s)) \<and> snap_state E objs sid m ds s"
  let ?c = "st_conf s" and ?ob = "objs (st_svc s)"
  have cow: "s3_storage ?c = Cow" and snap: "snapshot_holds E ?c ?ob sid m ds"
    using s by (auto simp: snap_state_def)
  have del: "hoare (pool_frame E objs ?c U ?ob) (delete_chunk_object E ?c i)
      (\<lambda>_. pool_frame E objs ?c U ?ob) (pool_frame E objs ?c U ?ob)"
    unfolding delete_chunk_object_def cow storage_mode.case
    by (rule delete_side_hoare [OF s3_lawsD(3) [OF L]]) (simp add: cow)
  show "post (\<lambda>_. snap_state E objs sid m ds) (snap_state E objs sid m ds) (s3_delete_chunk E i s)"
    unfolding s3_delete_chunk_def
    by (rule on_svc_post [OF del])
      (use s snapshot_frame_post [OF snap] cow in \<open>auto simp: snap_state_def pool_frame_def\<close>)
qed

section \<open>Creating a snapshot\<close>

definition ptr_of :: "s3_conf \<Rightarrow> (string \<rightharpoonup> bytes) \<Rightarrow> nat \<Rightarrow> hash option" where
  "ptr_of c ob i = (case ob (chunk_key c i) of None \<Rightarrow> None | Some p \<Rightarrow> result_opt (decode_pointer p))"

definition listed :: "s3_conf \<Rightarrow> (string \<rightharpoonup> bytes) \<Rightarrow> nat set" where
  "listed c ob = {i. \<exists>k. ob k \<noteq> None \<and> parse_chunk_index_from_key (chunks_prefix c) k = Some i}"

text \<open>The live index fits into a vector of references.\<close>

definition indexable :: "s3_conf \<Rightarrow> (string \<rightharpoonup> bytes) \<Rightarrow> bool" where
  "indexable c ob \<longleftrightarrow> vec_capacity_ok (card (listed c ob))"

lemma read_pointer_hash_hoare:
  assumes "get_law E objs"
  shows "hoare (\<lambda>s. objs s = ob) (read_pointer_hash E c i)
    (\<lambda>r s. objs s = ob \<and> r = ptr_of c ob i) (\<lambda>s. objs s = ob)"
  unfolding read_pointer_hash_def
proof (rule hoare_bind [OF get_bytes_hoare [OF assms, of ob]])
  fix r
  show "hoare (\<lambda>s. objs s = ob \<and> map_option fst r = ob (chunk_key c i))
      (case r of None \<Rightarrow> ret_op None | Some (bytes, u) \<Rightarrow> bind_op (of_result (decode_pointer bytes)) (\<lambda>h. ret_op (Some h)))
      (\<lambda>r s. objs s = ob \<and> r = ptr_of c ob i) (\<lambda>s. objs s = ob)"
  proof (cases r)
    case None
    then show ?thesis by (auto simp: hoare_def ret_op_def ptr_of_def)
  next
    case (Some p)
    then show ?thesis
      using decode_pointer_no_panic [of "fst p"]
      by (cases p; cases "decode_pointer (fst p)")
        (auto simp: hoare_def ret_op_def bind_op_def of_result_def err_op_def ptr_of_def dest: sym)
  qed
qed

lemma chunk_value_ptr:
  assumes "s3_storage c = Cow" and "chunk_value E c ob i = Some v"
  shows "ref_value E c ob (ptr_of c ob i) = Some v"
  using assms by (auto simp: chunk_value_def ref_value_def ptr_of_def split: option.splits result.splits)

lemma ptr_of_listed:
  assumes "s3_storage c = Cow" and "is_index i" and "ptr_of c ob i = Some h"
  shows "i \<in> listed c ob"
  using assms listed_index(3) [OF assms(2,1)] by (auto simp: ptr_of_def listed_def split: option.splits)

lemma listed_is_index:
  assumes "i \<in> listed c ob"
  shows "is_index i"
proof -
  obtain h where "from_str_radix16 (2 ^ 64) h = Some i"
    using assms unfolding listed_def parse_chunk_index_from_key_def index_from_chunk_relpath_def Let_def
    by (force split: option.splits if_splits)
  then show ?thesis
    unfolding is_index_def by (rule from_str_radix16_less [rotated]) simp
qed

lemma refs_map_append:
  "refs_map (refs @ [r]) i = (case refs_map refs i of Some h \<Rightarrow> Some h | None \<Rightarrow> if i = cr_index r then Some (cr_hash r) else None)"
  by (simp add: refs_map_def map_add_def split: option.splits)

lemma refs_map_sort:
  assumes "distinct (map cr_index refs)"
  shows "refs_map (sort_key cr_index refs) = refs_map refs"
  unfolding refs_map_def
proof (rule map_of_eqI)
  show "set (map fst (map (\<lambda>r. (cr_index r, cr_hash r)) (sort_key cr_index refs))) =
      set (map fst (map (\<lambda>r. (cr_index r, cr_hash r)) refs))"
    by (simp add: image_image)
  have d: "distinct (map cr_index (sort_key cr_index refs))"
    using assms by (simp add: distinct_map)
  have "map_of (map (\<lambda>r. (cr_index r, cr_hash r)) xs) (cr_index r) = Some (cr_hash r)"
    if "distinct (map cr_index xs)" "r \<in> set xs" for r :: chunk_ref and xs
    using that by (intro map_of_is_SomeI) (auto simp: comp_def)
  from this [OF assms] this [OF d]
  show "\<forall>k \<in> set (map fst (map (\<lambda>r. (cr_index r, cr_hash r)) (sort_key cr_index refs))).
      map_of (map (\<lambda>r. (cr_index r, cr_hash r)) (sort_key cr_index refs)) k =
      map_of (map (\<lambda>r. (cr_index r, cr_hash r)) refs) k"
    by auto
qed

definition collected :: "s3_conf \<Rightarrow> (string \<rightharpoonup> bytes) \<Rightarrow> nat list \<Rightarrow> chunk_ref list \<Rightarrow> bool" where
  "collected c ob ys refs \<longleftrightarrow>
     distinct (map cr_index refs) \<and> (\<forall>r \<in> set refs. wf_ref r \<and> cr_index r \<in> set ys) \<and> length refs \<le> length ys \<and>
     (\<forall>i. refs_map refs i = (if i \<in> set ys then ptr_of c ob i else None))"

lemma ptr_of_length: "ptr_of c ob i = Some h \<Longrightarrow> length h = hash_len"
  using decode_pointer_Ok(2) by (auto simp: ptr_of_def split: option.splits)

lemma collected_step:
  assumes "collected c ob ys refs" and "x \<notin> set ys" and "is_index x"
  shows "collected c ob (ys @ [x])
    (case ptr_of c ob x of None \<Rightarrow> refs | Some h \<Rightarrow> refs @ [\<lparr>cr_index = x, cr_hash = h\<rparr>])"
proof (cases "ptr_of c ob x")
  case None
  then show ?thesis using assms by (auto simp: collected_def)
next
  case (Some h)
  then show ?thesis
    using assms ptr_of_length [OF Some]
    by (auto simp: collected_def refs_map_append wf_ref_def is_index_def split: option.splits)
qed

lemma collect_fold_hoare:
  assumes "get_law E objs" and "distinct xs" and "\<And>x. x \<in> set xs \<Longrightarrow> is_index x"
  shows "hoare (\<lambda>s. objs s = ob) (fold_op (collect_ref E c) [] xs)
    (\<lambda>refs s. objs s = ob \<and> collected c ob xs refs) (\<lambda>s. objs s = ob)"
proof -
  have "hoare (\<lambda>s. objs s = ob \<and> collected c ob [] []) (fold_op (collect_ref E c) [] xs)
      (\<lambda>refs s. objs s = ob \<and> collected c ob xs refs) (\<lambda>s. objs s = ob)"
  proof (rule fold_op_hoare [where I = "\<lambda>ys refs s. objs s = ob \<and> collected c ob ys refs"])
    fix refs x ys zs assume xs: "xs = ys @ x # zs"
    have "hoare (\<lambda>s. objs s = ob \<and> collected c ob ys refs) (read_pointer_hash E c x)
        (\<lambda>r s. objs s = ob \<and> r = ptr_of c ob x \<and> collected c ob ys refs) (\<lambda>s. objs s = ob)"
      using read_pointer_hash_hoare [OF assms(1), of ob c x] by (auto simp: hoare_def elim: post_mono)
    then show "hoare (\<lambda>s. objs s = ob \<and> collected c ob ys refs) (collect_ref E c refs x)
        (\<lambda>refs s. objs s = ob \<and> collected c ob (ys @ [x]) refs) (\<lambda>s. objs s = ob)"
      unfolding collect_ref_def
      by (rule hoare_bind) (use assms(2,3) xs collected_step in \<open>auto intro!: hoare_ret\<close>)
  qed
  then show ?thesis
    by (rule hoare_pre) (simp add: collected_def refs_map_def)
qed

lemma collected_refs_hold:
  assumes R: "collected c ob xs refs" and xs: "set xs = listed c ob" and c: "s3_storage c = Cow"
    and hold: "chunks_hold E c ob d"
  shows "refs_hold E c ob (sort_key cr_index refs) d"
  unfolding refs_hold_def
proof (intro conjI allI impI)
  have d: "distinct (map cr_index refs)"
    using R by (simp add: collected_def)
  then show "distinct (map cr_index (sort_key cr_index refs))"
    by (simp add: distinct_map)
  show "\<forall>r \<in> set (sort_key cr_index refs). wf_ref r"
    using R by (simp add: collected_def)
  fix i assume i: "is_index i"
  have "refs_map refs i = ptr_of c ob i"
    using R xs ptr_of_listed [OF c i] by (cases "ptr_of c ob i") (auto simp: collected_def)
  then show "ref_value E c ob (refs_map (sort_key cr_index refs) i) =
      Some (disk_read d (i * s3_chunk_size c) (s3_chunk_size c))"
    using chunk_value_ptr [OF c, of E ob i] hold i by (simp add: refs_map_sort [OF d] chunks_hold_def)
qed

lemma collect_live_refs_hoare:
  assumes L: "s3_laws E objs" and hold: "chunks_hold E c ob d" and idx: "indexable c ob" and c: "s3_storage c = Cow"
  shows "hoare (\<lambda>s. objs s = ob) (collect_live_refs E c)
    (\<lambda>refs s. objs s = ob \<and> refs_hold E c ob refs d \<and> vec_capacity_ok (length refs)) (\<lambda>s. objs s = ob)"
  unfolding collect_live_refs_def present_at_def
proof (rule require_cow_hoare, rule hoare_bind [OF list_chunk_indices_hoare [OF s3_lawsD(4) [OF L], of ob c]])
  fix xs
  let ?P = "\<lambda>s. objs s = ob \<and> sorted xs \<and> distinct xs \<and>
    set xs = {i. \<exists>k. ob k \<noteq> None \<and> parse_chunk_index_from_key (chunks_prefix c) k = Some i}"
  let ?Q = "\<lambda>refs s. objs s = ob \<and> refs_hold E c ob refs d \<and> vec_capacity_ok (length refs)"
  show "hoare ?P (if vec_capacity_ok (length xs) then
         bind_op (fold_op (collect_ref E c) [] xs) (\<lambda>refs. ret_op (sort_key cr_index refs)) else panic_op)
      ?Q (\<lambda>s. objs s = ob)"
  proof (cases "distinct xs \<and> set xs = listed c ob")
    case True
    then have ok: "vec_capacity_ok (length xs)"
      using idx distinct_card [of xs] by (simp add: indexable_def)
    have fold: "hoare ?P (fold_op (collect_ref E c) [] xs)
        (\<lambda>refs s. objs s = ob \<and> collected c ob xs refs) (\<lambda>s. objs s = ob)"
    proof (rule hoare_pre [OF collect_fold_hoare [OF s3_lawsD(1) [OF L]]])
      show "distinct xs" using True ..
      show "is_index x" if "x \<in> set xs" for x
        using that True by (simp add: listed_is_index)
    qed simp
    have "?Q (sort_key cr_index refs) s" if "objs s = ob \<and> collected c ob xs refs" for refs s
      using that collected_refs_hold [OF _ conjunct2 [OF True] c hold, of refs] ok
      by (auto simp: vec_capacity_ok_def collected_def)
    then show ?thesis
      unfolding if_P [OF ok] by (intro hoare_bind [OF fold] hoare_ret)
  next
    case False
    then show ?thesis unfolding hoare_def listed_def by blast
  qed
qed

text \<open>Objects under \<open>snapshots/\<close> are neither pointers nor pool objects.\<close>

definition snap_key :: "s3_conf \<Rightarrow> string \<Rightarrow> bool" where
  "snap_key c k \<longleftrightarrow> is_prefix (s3_prefix c @ ''/snapshots/'') k"

lemma snap_key_keys [simp]: "snap_key c (snapshot_manifest_key c sid)" "snap_key c (snapshot_chunks_key c sid)"
  by (simp_all add: snap_key_def)

lemma snap_key_other:
  assumes "snap_key c k"
  shows "s3_storage c = Cow \<Longrightarrow> k \<noteq> chunk_key c i" "k \<noteq> object_key c h" "parse_chunk_index_from_key (chunks_prefix c) k = None"
  using assms
  by (auto simp: snap_key_def is_prefix_iff cow_chunk_key object_key_def parse_chunk_index_from_key_def
      chunks_prefix_def strip_prefix_def split: storage_mode.splits)

lemma snap_key_update:
  assumes "s3_storage c = Cow" and "snap_key c k"
  shows "chunks_hold E c (ob(k := v)) d \<longleftrightarrow> chunks_hold E c ob d" "pool_ok E c U (ob(k := v)) \<longleftrightarrow> pool_ok E c U ob"
    "indexable c (ob(k := v)) \<longleftrightarrow> indexable c ob" "refs_hold E c (ob(k := v)) refs d \<longleftrightarrow> refs_hold E c ob refs d"
proof -
  note K = snap_key_other [OF assms(2)]
  have keys: "(ob(k := v)) (chunk_key c i) = ob (chunk_key c i)" "(ob(k := v)) (object_key c h) = ob (object_key c h)" for i h
    using K(1) [OF assms(1)] K(2) by (auto simp: eq_commute)
  have "chunk_value E c (ob(k := v)) i = chunk_value E c ob i" for i
    unfolding chunk_value_def assms(1) storage_mode.case keys ..
  then show "chunks_hold E c (ob(k := v)) d \<longleftrightarrow> chunks_hold E c ob d"
    by (simp add: chunks_hold_def)
  show "pool_ok E c U (ob(k := v)) \<longleftrightarrow> pool_ok E c U ob"
    unfolding pool_ok_def keys ..
  have "listed c (ob(k := v)) = listed c ob"
    using K(3) unfolding listed_def fun_upd_apply by (metis (lifting) option.distinct(1))
  then show "indexable c (ob(k := v)) \<longleftrightarrow> indexable c ob"
    by (simp add: indexable_def)
  show "refs_hold E c (ob(k := v)) refs d \<longleftrightarrow> refs_hold E c ob refs d"
    unfolding refs_hold_def ref_value_def keys ..
qed

lemma snap_put_hoare:
  assumes "put_law E objs" and "s3_storage c = Cow" and "snap_key c k" and "chunks_hold E c ob d" and "pool_ok E c U ob"
  shows "hoare (\<lambda>s. objs s = ob) (put_bytes E k b ct im) (\<lambda>_ s. objs s = ob(k \<mapsto> b)) (svc_rep E objs c U d)"
  by (rule hoare_conseq [OF put_bytes_hoare [OF assms(1), of ob]])
    (use assms(4,5) in \<open>auto simp: svc_rep_def snap_key_update [OF assms(2,3)]\<close>)

lemma snap_put_manifest_hoare:
  assumes L: "s3_laws E objs" and "s3_storage c = Cow" and "chunks_hold E c ob d" and "pool_ok E c U ob"
  shows "hoare (\<lambda>s. objs s = ob) (put_manifest E c sid m)
    (\<lambda>_ s. \<exists>b. e_man_dec E b = Inr m \<and> objs s = ob(snapshot_manifest_key c sid \<mapsto> b)) (svc_rep E objs c U d)"
proof (cases "e_man_enc E m")
  case (Inr b)
  have "hoare (\<lambda>s. objs s = ob) (put_bytes E (snapshot_manifest_key c sid) b (Some ''application/json'') None)
      (\<lambda>_ s. objs s = ob(snapshot_manifest_key c sid \<mapsto> b)) (svc_rep E objs c U d)"
    by (rule snap_put_hoare [OF s3_lawsD(2) [OF L] assms(2) _ assms(3,4)]) simp
  with s3_lawsD(8) [OF L Inr] show ?thesis
    by (auto simp: put_manifest_def man_bytes_def Inr intro: hoare_conseq)
next
  case (Inl e)
  with assms(3,4) show ?thesis
    by (simp add: put_manifest_def man_bytes_def hoare_def bind_op_def of_result_def err_op_def svc_rep_def)
qed

lemma snapshot_keys_neq: "snapshot_manifest_key c sid \<noteq> snapshot_chunks_key c sid'"
proof
  assume "snapshot_manifest_key c sid = snapshot_chunks_key c sid'"
  then have "rev (snapshot_manifest_key c sid) ! 1 = rev (snapshot_chunks_key c sid') ! 1"
    by (simp only:)
  then show False by (simp add: snapshot_manifest_key_def snapshot_chunks_key_def)
qed

lemma filled_snapshot_holds:
  assumes m: "m = manifest_new_creating now sid vol (s3_capacity c) (s3_chunk_size c) (s3_block_size c) (s3_compression c)"
    and c: "s3_storage c = Cow" and z: "zero_beyond (s3_capacity c) d"
    and r: "refs_hold E c ob refs d" "vec_capacity_ok (length refs)"
    and b: "e_man_dec E b = Inr (m\<lparr>sm_chunk_count := n, sm_state := Ready\<rparr>)"
  shows "snapshot_holds E c ((ob(snapshot_chunks_key c sid \<mapsto> write_chunks_bin refs))(snapshot_manifest_key c sid \<mapsto> b))
    sid (m\<lparr>sm_chunk_count := n, sm_state := Ready\<rparr>) d"
proof -
  have "read_chunks_bin (write_chunks_bin refs) = Ok refs"
    using r by (intro read_write_chunks_bin) (auto simp: refs_hold_def)
  then show ?thesis
    using r b z unfolding m
    by (auto simp: snap_key_update [OF c] snapshot_holds_def manifest_new_creating_def snapshot_keys_neq [symmetric])
qed

lemma fill_snapshot_hoare:
  assumes L: "s3_laws E objs" and c: "s3_storage c = Cow" and z: "zero_beyond (s3_capacity c) d"
    and m: "m = manifest_new_creating now sid vol (s3_capacity c) (s3_chunk_size c) (s3_block_size c) (s3_compression c)"
    and ob: "chunks_hold E c ob d" "pool_ok E c U ob" "indexable c ob"
  shows "hoare (\<lambda>s. objs s = ob) (fill_snapshot E c sid m)
    (\<lambda>m s. svc_rep E objs c U d s \<and> sm_capacity_bytes m = s3_capacity c \<and> snapshot_holds E c (objs s) sid m d)
    (svc_rep E objs c U d)"
    (is "hoare _ _ ?Q ?F")
proof -
  let ?mk = "snapshot_manifest_key c sid" and ?ck = "snapshot_chunks_key c sid"
  note upd = snap_key_update [OF c]
  have last: "hoare (\<lambda>s. objs s = ob'(?ck \<mapsto> write_chunks_bin refs))
      (let m' = m\<lparr>sm_chunk_count := length refs, sm_state := Ready\<rparr> in bind_op (put_manifest E c sid m') (\<lambda>_. ret_op m')) ?Q ?F"
    if "chunks_hold E c ob' d" "pool_ok E c U ob'" "refs_hold E c ob' refs d" "vec_capacity_ok (length refs)" for ob' refs
    unfolding Let_def
    by (rule hoare_bind [OF snap_put_manifest_hoare [OF L c]])
      (use that filled_snapshot_holds [OF m c z that(3,4)] m in
        \<open>auto intro!: hoare_ret simp: svc_rep_def upd manifest_new_creating_def\<close>)
  have mid: "hoare (\<lambda>s. objs s = ob') (bind_op (collect_live_refs E c) (\<lambda>refs.
      bind_op (put_bytes E ?ck (write_chunks_bin refs) None None) (\<lambda>_.
        let m' = m\<lparr>sm_chunk_count := length refs, sm_state := Ready\<rparr> in bind_op (put_manifest E c sid m') (\<lambda>_. ret_op m')))) ?Q ?F"
    if ob': "chunks_hold E c ob' d" "pool_ok E c U ob'" "indexable c ob'" for ob'
  proof (rule hoare_bind)
    show "hoare (\<lambda>s. objs s = ob') (collect_live_refs E c)
        (\<lambda>refs s. objs s = ob' \<and> refs_hold E c ob' refs d \<and> vec_capacity_ok (length refs)) ?F"
      by (rule hoare_conseq [OF collect_live_refs_hoare [OF L ob'(1,3) c]]) (use ob' in \<open>auto simp: svc_rep_def\<close>)
    fix refs
    show "hoare (\<lambda>s. objs s = ob' \<and> refs_hold E c ob' refs d \<and> vec_capacity_ok (length refs))
        (bind_op (put_bytes E ?ck (write_chunks_bin refs) None None) (\<lambda>_.
          let m' = m\<lparr>sm_chunk_count := length refs, sm_state := Ready\<rparr> in bind_op (put_manifest E c sid m') (\<lambda>_. ret_op m'))) ?Q ?F"
    proof (cases "refs_hold E c ob' refs d \<and> vec_capacity_ok (length refs)")
      case True
      show ?thesis
        by (rule hoare_pre [OF hoare_bind [OF snap_put_hoare [OF s3_lawsD(2) [OF L] c _ ob'(1,2)] last [OF ob'(1,2)]]])
          (use True in auto)
    qed (auto simp: hoare_def)
  qed
  show ?thesis
    unfolding fill_snapshot_def
  proof (rule hoare_bind [OF snap_put_manifest_hoare [OF L c ob(1,2)]], rule hoare_exists, goal_cases)
    case (1 u b)
    show ?case
      by (rule hoare_pre [OF mid [of "ob(?mk \<mapsto> b)"]]) (use ob in \<open>auto simp: upd\<close>)
  qed
qed

lemma hoare_state: "(\<And>s0. P s0 \<Longrightarrow> hoare (\<lambda>s. s = s0) m Q F) \<Longrightarrow> hoare P m Q F"
  by (simp add: hoare_def)

lemma snapshot_create_hoare:
  assumes L: "s3_laws E objs"
  shows "hoare (\<lambda>s. svc_rep E objs c U d s \<and> indexable c (objs s) \<and> zero_beyond (s3_capacity c) d)
    (snapshot_create E c sid vol)
    (\<lambda>m s. svc_rep E objs c U d s \<and> sm_capacity_bytes m = s3_capacity c \<and> snapshot_holds E c (objs s) sid m d)
    (svc_rep E objs c U d)"
    (is "hoare ?P _ ?Q ?F")
  unfolding snapshot_create_def
proof (rule require_cow_hoare)
  assume c: "s3_storage c = Cow"
  let ?fill = "\<lambda>s. fill_snapshot E c sid (manifest_new_creating (e_clock E s) sid vol (s3_capacity c)
      (s3_chunk_size c) (s3_block_size c) (s3_compression c)) s"
  have fill: "hoare ?P ?fill ?Q ?F"
    unfolding hoare_def
  proof (intro allI impI)
    fix s assume P: "?P s"
    show "post ?Q ?F (?fill s)"
      by (rule hoare_post [OF fill_snapshot_hoare [OF L c _ refl]]) (use P in \<open>auto simp: svc_rep_def\<close>)
  qed
  have get: "hoare ?P (get_bytes E (snapshot_manifest_key c sid)) (\<lambda>_. ?P) ?F"
  proof (rule hoare_state)
    fix s0 assume P: "?P s0"
    show "hoare (\<lambda>s. s = s0) (get_bytes E (snapshot_manifest_key c sid)) (\<lambda>_. ?P) ?F"
      by (rule hoare_conseq [OF get_bytes_hoare [OF s3_lawsD(1) [OF L], of "objs s0"]])
        (use P in \<open>auto simp: svc_rep_def\<close>)
  qed
  show "hoare ?P (bind_op (of_result (validate_snapshot_id sid)) (\<lambda>_.
     bind_op (get_bytes E (snapshot_manifest_key c sid)) (\<lambda>old.
       if old \<noteq> None then err_op (Other (''snapshot '' @ sid @ '' already exists'')) else ?fill))) ?Q ?F"
    by (intro hoare_bind_result hoare_bind [OF get] hoare_if hoare_err fill) (auto simp: validate_snapshot_id_def)
qed auto

section \<open>Restoring a snapshot\<close>

text \<open>The pointers of the live volume are exactly those of a list of references.\<close>

lemma pointers_hold:
  assumes c: "s3_storage c = Cow" and refs: "refs_hold E c ob refs d"
    and ptr: "\<And>i. is_index i \<Longrightarrow> ob (chunk_key c i) = map_option encode_pointer (refs_map refs i)"
  shows "chunks_hold E c ob d"
  unfolding chunks_hold_def
proof (intro allI impI)
  fix i assume i: "is_index i"
  have "chunk_value E c ob i = ref_value E c ob (refs_map refs i)"
  proof (cases "refs_map refs i")
    case None
    then show ?thesis using ptr [OF i] c by (simp add: chunk_value_def ref_value_def)
  next
    case (Some h)
    then have "decode_pointer (encode_pointer h) = Ok h"
      using refs refs_map_wf by (intro decode_encode_pointer) (auto simp: refs_hold_def)
    then show ?thesis using ptr [OF i] c Some by (simp add: chunk_value_def ref_value_def)
  qed
  then show "chunk_value E c ob i = Some (disk_read d (i * s3_chunk_size c) (s3_chunk_size c))"
    using refs i by (simp add: refs_hold_def)
qed

text \<open>
  \<open>ptrs_set c ob f ob'\<close>: the pointer objects of \<open>ob'\<close> are given by \<open>f\<close>, every other object is as
  in \<open>ob\<close>.
\<close>

definition ptrs_set :: "s3_conf \<Rightarrow> (string \<rightharpoonup> bytes) \<Rightarrow> (nat \<rightharpoonup> bytes) \<Rightarrow> (string \<rightharpoonup> bytes) \<Rightarrow> bool" where
  "ptrs_set c ob f ob' \<longleftrightarrow>
     (\<forall>i. is_index i \<longrightarrow> ob' (chunk_key c i) = f i) \<and>
     (\<forall>k. (\<forall>i. is_index i \<longrightarrow> k \<noteq> chunk_key c i) \<longrightarrow> ob' k = ob k)"

lemma ptrs_set_refl: "ptrs_set c ob (\<lambda>i. ob (chunk_key c i)) ob"
  by (simp add: ptrs_set_def)

lemma ptrs_set_upd:
  assumes "s3_storage c = Cow" and "is_index i" and "ptrs_set c ob f ob'"
  shows "ptrs_set c ob (f(i := v)) (ob'(chunk_key c i := v))"
  using assms by (auto simp: ptrs_set_def)

lemma ptrs_set_pool:
  assumes "s3_storage c = Cow" and "ptrs_set c ob f ob'"
  shows "ob' (object_key c h) = ob (object_key c h)" and "snap_key c k \<Longrightarrow> ob' k = ob k"
  using assms snap_key_other(1) [OF _ assms(1)] by (auto simp: ptrs_set_def eq_commute)

lemma put_pointer_hoare:
  assumes "put_law E objs" and "s3_storage c = Cow" and "is_index i"
  shows "hoare (\<lambda>s. ptrs_set c ob f (objs s)) (put_pointer E c i h)
    (\<lambda>_ s. ptrs_set c ob (f(i \<mapsto> encode_pointer h)) (objs s)) (\<lambda>s. \<exists>f. ptrs_set c ob f (objs s))"
proof (rule hoare_state)
  fix s0 assume P: "ptrs_set c ob f (objs s0)"
  note U = ptrs_set_upd [OF assms(2,3) P, of "Some (encode_pointer h)"]
  show "hoare (\<lambda>s. s = s0) (put_pointer E c i h)
    (\<lambda>_ s. ptrs_set c ob (f(i \<mapsto> encode_pointer h)) (objs s)) (\<lambda>s. \<exists>f. ptrs_set c ob f (objs s))"
    unfolding put_pointer_def
    by (rule hoare_conseq [OF put_bytes_hoare [OF assms(1), of "objs s0"]]) (use P U in auto)
qed

lemma delete_pointer_hoare:
  assumes "delete_law E objs" and "s3_storage c = Cow" and "is_index i"
  shows "hoare (\<lambda>s. ptrs_set c ob f (objs s)) (delete_chunk_object E c i)
    (\<lambda>_ s. ptrs_set c ob (f(i := None)) (objs s)) (\<lambda>s. \<exists>f. ptrs_set c ob f (objs s))"
proof (rule hoare_state)
  fix s0 assume P: "ptrs_set c ob f (objs s0)"
  note U = ptrs_set_upd [OF assms(2,3) P, of None]
  show "hoare (\<lambda>s. s = s0) (delete_chunk_object E c i)
    (\<lambda>_ s. ptrs_set c ob (f(i := None)) (objs s)) (\<lambda>s. \<exists>f. ptrs_set c ob f (objs s))"
    unfolding delete_chunk_object_def assms(2) storage_mode.case
    by (rule hoare_conseq [OF delete_object_hoare [OF assms(1), of "objs s0"]]) (use P U in auto)
qed

definition with_refs :: "chunk_ref list \<Rightarrow> (nat \<rightharpoonup> bytes) \<Rightarrow> nat \<rightharpoonup> bytes" where
  "with_refs refs f i = (case refs_map refs i of Some h \<Rightarrow> Some (encode_pointer h) | None \<Rightarrow> f i)"

lemma with_refs_Nil: "with_refs [] f = f"
  by (simp add: fun_eq_iff with_refs_def refs_map_def)

lemma refs_map_None: "refs_map refs i = None \<longleftrightarrow> i \<notin> cr_index ` set refs"
  by (auto simp: refs_map_def map_of_eq_None_iff image_image)

lemma install_refs_hoare:
  assumes "put_law E objs" and c: "s3_storage c = Cow" and refs: "distinct (map cr_index refs)" "\<forall>r \<in> set refs. wf_ref r"
  shows "hoare (\<lambda>s. ptrs_set c ob f (objs s)) (install_refs E refs c)
    (\<lambda>_ s. ptrs_set c ob (with_refs refs f) (objs s)) (\<lambda>s. \<exists>f. ptrs_set c ob f (objs s))"
proof -
  have "hoare (\<lambda>s. ptrs_set c ob (with_refs [] f) (objs s)) (install_refs E refs c)
    (\<lambda>_ s. ptrs_set c ob (with_refs refs f) (objs s)) (\<lambda>s. \<exists>f. ptrs_set c ob f (objs s))"
    unfolding install_refs_def
  proof (rule fold_op_hoare [where I = "\<lambda>ys _ s. ptrs_set c ob (with_refs ys f) (objs s)"])
    fix n r ys zs assume xs: "refs = ys @ r # zs"
    then have "refs_map ys (cr_index r) = None"
      using refs(1) by (auto simp: refs_map_None)
    then have "with_refs (ys @ [r]) f = (with_refs ys f)(cr_index r \<mapsto> encode_pointer (cr_hash r))"
      by (auto simp: with_refs_def refs_map_append fun_eq_iff split: option.split)
    moreover have "is_index (cr_index r)"
      using refs(2) xs by (simp add: wf_ref_def is_index_def)
    ultimately show "hoare (\<lambda>s. ptrs_set c ob (with_refs ys f) (objs s))
        (bind_op (put_pointer E c (cr_index r) (cr_hash r)) (\<lambda>_. ret_op (n + 1)))
        (\<lambda>_ s. ptrs_set c ob (with_refs (ys @ [r]) f) (objs s)) (\<lambda>s. \<exists>f. ptrs_set c ob f (objs s))"
      using hoare_bind [OF put_pointer_hoare [OF assms(1) c] hoare_ret] by simp
  qed
  then show ?thesis
    by (simp add: with_refs_Nil)
qed

lemma drop_others_hoare:
  assumes "delete_law E objs" and c: "s3_storage c = Cow" and live: "\<And>i. i \<in> set live \<Longrightarrow> is_index i"
  shows "hoare (\<lambda>s. ptrs_set c ob f (objs s)) (drop_others E keep live c)
    (\<lambda>_ s. ptrs_set c ob (\<lambda>i. if i \<in> set live - set keep then None else f i) (objs s)) (\<lambda>s. \<exists>f. ptrs_set c ob f (objs s))"
proof -
  let ?f = "\<lambda>ys i. if i \<in> set ys - set keep then None else f i"
  have "hoare (\<lambda>s. ptrs_set c ob (?f []) (objs s)) (drop_others E keep live c)
    (\<lambda>_ s. ptrs_set c ob (?f live) (objs s)) (\<lambda>s. \<exists>f. ptrs_set c ob f (objs s))"
    unfolding drop_others_def
  proof (rule fold_op_hoare [where I = "\<lambda>ys _ s. ptrs_set c ob (?f ys) (objs s)"])
    fix n i ys zs assume xs: "live = ys @ i # zs"
    have f: "?f (ys @ [i]) = (if i \<in> set keep then ?f ys else (?f ys)(i := None))"
      by (auto simp: fun_eq_iff)
    have "is_index i" using live xs by simp
    note del = delete_pointer_hoare [OF assms(1) c this, of ob "?f ys"]
    show "hoare (\<lambda>s. ptrs_set c ob (?f ys) (objs s))
        (if i \<notin> set keep then bind_op (delete_chunk_object E c i) (\<lambda>_. ret_op (n + 1)) else ret_op n)
        (\<lambda>_ s. ptrs_set c ob (?f (ys @ [i])) (objs s)) (\<lambda>s. \<exists>f. ptrs_set c ob f (objs s))"
    proof (cases "i \<in> set keep")
      case False
      then show ?thesis
        unfolding f by (simp only: not_False_eq_True if_True if_False) (rule hoare_bind [OF del hoare_ret])
    qed (simp add: f hoare_ret)
  qed
  then show ?thesis by simp
qed

end
