(* ===== verification/RestoreRefine.thy ===== *)
theory RestoreRefine
  imports SnapshotRefine
begin

text \<open>
  Restoring and cloning snapshots. \<open>snap_ready\<close> is what restore needs: a copy-on-write volume whose
  pool is content addressed and a snapshot that stands for a disk; the live content may be anything.
  An \<open>Ok\<close> restore leaves exactly the disk of the snapshot, a failed one leaves the snapshot
  restorable, so repeating it is enough.
\<close>

section \<open>Operations at a fixed configuration\<close>

lemma at_conf_hoare:
  fixes m :: "s3_conf \<Rightarrow> ('s, 'a) op"
  assumes "hoare P (m c) Q F"
  shows "hoare (\<lambda>s. st_conf s = c \<and> P (st_svc s)) (at_conf m)
    (\<lambda>x s. st_conf s = c \<and> Q x (st_svc s)) (\<lambda>s. st_conf s = c \<and> F (st_svc s))"
  unfolding hoare_def
proof (intro allI impI)
  fix s :: "'s s3_store" assume "st_conf s = c \<and> P (st_svc s)"
  then show "post (\<lambda>x s. st_conf s = c \<and> Q x (st_svc s)) (\<lambda>s. st_conf s = c \<and> F (st_svc s)) (at_conf m s)"
    unfolding at_conf_def using assms by (auto intro!: on_svc_post [where P = P and Q = Q and F = F])
qed

lemma snapshot_get_hoare:
  assumes "get_law E objs" and "snapshot_holds E c ob sid m d" and c: "s3_storage c = Cow"
  shows "hoare (\<lambda>s. objs s = ob) (snapshot_get E c sid) (\<lambda>m' s. objs s = ob \<and> m' = m) (\<lambda>s. objs s = ob)"
  unfolding snapshot_get_def
proof (rule require_cow_hoare, rule hoare_bind [OF get_bytes_hoare [OF assms(1), of ob]])
  fix r
  obtain mb where mb: "ob (snapshot_manifest_key c sid) = Some mb" "e_man_dec E mb = Inr m"
    using assms(2) by (auto simp: snapshot_holds_def)
  show "hoare (\<lambda>s. objs s = ob \<and> map_option fst r = ob (snapshot_manifest_key c sid))
      (case r of None \<Rightarrow> err_op (Other (''snapshot '' @ sid @ '' not found'')) | Some (bytes, u) \<Rightarrow> of_result (man_parse E bytes))
      (\<lambda>m' s. objs s = ob \<and> m' = m) (\<lambda>s. objs s = ob)"
    using mb by (cases r) (auto simp: hoare_def of_result_def man_parse_def)
qed

lemma load_snapshot_refs_hoare:
  assumes "get_law E objs" and "snapshot_holds E c ob sid m d"
  shows "hoare (\<lambda>s. objs s = ob) (load_snapshot_refs E c sid) (\<lambda>refs s. objs s = ob \<and> refs_hold E c ob refs d)
    (\<lambda>s. objs s = ob)"
  unfolding load_snapshot_refs_def
proof (rule hoare_bind [OF get_bytes_hoare [OF assms(1), of ob]])
  fix r
  obtain bin refs where "ob (snapshot_chunks_key c sid) = Some bin" "read_chunks_bin bin = Ok refs" "refs_hold E c ob refs d"
    using assms(2) by (auto simp: snapshot_holds_def)
  then show "hoare (\<lambda>s. objs s = ob \<and> map_option fst r = ob (snapshot_chunks_key c sid))
      (case r of None \<Rightarrow> err_op (Other (''snapshot '' @ sid @ '' chunks.bin missing''))
       | Some (bytes, u) \<Rightarrow> of_result (read_chunks_bin bytes))
      (\<lambda>refs s. objs s = ob \<and> refs_hold E c ob refs d) (\<lambda>s. objs s = ob)"
    by (cases r) (auto simp: hoare_def of_result_def)
qed

section \<open>Restore\<close>

definition conf_geom :: "s3_conf \<Rightarrow> geometry" where
  "conf_geom c = \<lparr>g_cap = s3_capacity c, g_chunk = s3_chunk_size c, g_block = s3_block_size c\<rparr>"

definition snap_ready ::
  "('s, 'm) s3_env_scheme \<Rightarrow> ('s \<Rightarrow> string \<rightharpoonup> bytes) \<Rightarrow> bytes set \<Rightarrow> string \<Rightarrow> snapshot_manifest \<Rightarrow> (nat \<Rightarrow> byte) \<Rightarrow>
    's s3_store \<Rightarrow> bool" where
  "snap_ready E objs U sid m ds s \<longleftrightarrow>
     snap_state E objs sid m ds s \<and> codable (st_conf s) \<and> wf_geom (conf_geom (st_conf s)) \<and>
     pool_ok E (st_conf s) U (objs (st_svc s))"

lemma ptrs_set_frame:
  assumes "s3_storage c = Cow" and "ptrs_set c ob f ob'"
  shows "snap_frame c ob ob'" and "pool_ok E c U ob' \<longleftrightarrow> pool_ok E c U ob"
  using ptrs_set_pool [OF assms] by (auto simp: snap_frame_def pool_ok_def snap_key_def)

lemma snap_ready_ptrs:
  assumes "snap_ready E objs U sid m ds s" and "ptrs_set (st_conf s) (objs (st_svc s)) f (objs (st_svc t))"
    and "st_conf t = st_conf s"
  shows "snap_ready E objs U sid m ds t"
  using assms ptrs_set_frame [of "st_conf s" "objs (st_svc s)" f "objs (st_svc t)"] snapshot_holds_frame
  by (auto simp: snap_ready_def snap_state_def)

text \<open>A write to a volume leaves its snapshots restorable, even one that fails half-way.\<close>

lemma snap_ready_rep:
  assumes "s3_rep E objs a U d g s" and "snap_state E objs sid m ds s"
  shows "snap_ready E objs U sid m ds s"
  using assms by (auto simp: snap_ready_def s3_rep_def Let_def conf_geom_def)

lemma s3_write_snap_ready:
  assumes L: "s3_laws E objs" and U: "inj_on (e_blake3 E) U" and adm: "adm_write (s3_adm E a U) (g_chunk g) d off bs"
  shows "hoare (\<lambda>s. s3_rep E objs a U d g s \<and> snap_state E objs sid m ds s) (s3_write_at E off bs)
    (\<lambda>_ s. s3_rep E objs a U (disk_write d off bs) g s \<and> snap_ready E objs U sid m ds s) (snap_ready E objs U sid m ds)"
proof (rule hoare_state)
  fix s0 assume s0: "s3_rep E objs a U d g s0 \<and> snap_state E objs sid m ds s0"
  then have "snap_ready E objs U sid m ds s0" by (intro snap_ready_rep) auto
  then have err: "snap_ready E objs U sid m ds s"
    if "st_conf s = st_conf s0" "pool_ok E (st_conf s0) U (objs (st_svc s))" "snap_state E objs sid m ds s" for s
    using that by (auto simp: snap_ready_def)
  show "hoare (\<lambda>s. s = s0) (s3_write_at E off bs)
      (\<lambda>_ s. s3_rep E objs a U (disk_write d off bs) g s \<and> snap_ready E objs U sid m ds s) (snap_ready E objs U sid m ds)"
    by (intro hoare_conseq [OF s3_write_snapshot [OF L U adm, of "st_conf s0" sid m ds]])
      (use s0 err in \<open>auto intro: snap_ready_rep\<close>)
qed

text \<open>The pointers that installing the references and dropping the rest leave.\<close>

lemma restored_pointers:
  assumes c: "s3_storage c = Cow" and live: "set live = listed c ob" and i: "is_index i"
  shows "(if i \<in> set live - set (map cr_index refs) then None else with_refs refs (\<lambda>i. ob (chunk_key c i)) i) =
    map_option encode_pointer (refs_map refs i)"
proof (cases "refs_map refs i")
  case None
  then have "i \<notin> set (map cr_index refs)" by (simp add: refs_map_None)
  moreover have "ob (chunk_key c i) = None" if "i \<notin> listed c ob"
    using that listed_index(3) [OF i c] by (auto simp: listed_def)
  ultimately show ?thesis
    using live None by (auto simp: with_refs_def)
next
  case (Some h)
  then have "i \<in> set (map cr_index refs)"
    using refs_map_None [of refs i] by (metis list.set_map option.distinct(1))
  with Some show ?thesis by (simp add: with_refs_def)
qed

lemma chunks_hold_restored:
  assumes c: "s3_storage c = Cow" and refs: "refs_hold E c ob refs ds" and live: "set live = listed c ob"
    and set: "ptrs_set c ob (\<lambda>i. if i \<in> set live - set (map cr_index refs) then None
      else with_refs refs (\<lambda>i. ob (chunk_key c i)) i) ob'"
  shows "chunks_hold E c ob' ds"
proof (rule pointers_hold [OF c])
  show "refs_hold E c ob' refs ds"
    by (rule refs_hold_mono [OF _ refs]) (simp add: ptrs_set_pool(1) [OF c set])
  fix i assume i: "is_index i"
  then show "ob' (chunk_key c i) = map_option encode_pointer (refs_map refs i)"
    using set restored_pointers [OF c live i] by (simp add: ptrs_set_def)
qed

lemma snapshot_holds_capacity [simp]:
  "snapshot_holds E (c\<lparr>s3_capacity := n\<rparr>) ob sid m d \<longleftrightarrow> snapshot_holds E c ob sid m d"
proof -
  have keys: "object_key (c\<lparr>s3_capacity := n\<rparr>) h = object_key c h" for h
    by (simp add: object_key_def)
  have dec: "decoded E (c\<lparr>s3_capacity := n\<rparr>) b = decoded E c b" for b
    by (simp add: decoded_def)
  have val: "ref_value E (c\<lparr>s3_capacity := n\<rparr>) ob r = ref_value E c ob r" for r
    by (simp add: ref_value_def keys dec split: option.split)
  show ?thesis
    by (simp add: snapshot_holds_def snapshot_manifest_key_def snapshot_chunks_key_def snapshot_prefix_def
        refs_hold_def val)
qed

lemma pool_ok_capacity [simp]: "pool_ok E (c\<lparr>s3_capacity := n\<rparr>) U ob \<longleftrightarrow> pool_ok E c U ob"
  by (simp add: pool_ok_def object_key_def)

lemma snap_ready_grown:
  assumes "snap_ready E objs U sid m ds s" and "s3_capacity (st_conf s) \<le> n" and "s3_block_size (st_conf s) dvd n" and "n < 2 ^ 64"
  shows "snap_ready E objs U sid m ds (s\<lparr>st_conf := (st_conf s)\<lparr>s3_capacity := n\<rparr>\<rparr>)"
  using assms by (simp add: snap_ready_def snap_state_def codable_def wf_geom_def conf_geom_def)

lemma put_meta_objs_hoare:
  assumes "put_law E objs"
  shows "hoare (\<lambda>s. objs s = ob) (put_meta_at E k mt) (\<lambda>_ s. \<exists>v. objs s = ob(k := v)) (\<lambda>s. \<exists>v. objs s = ob(k := v))"
proof (cases "e_meta_enc E mt")
  case (Inr body)
  then have "put_meta_at E k mt = put_bytes E k body (Some ''application/json'') None"
    by (simp add: fun_eq_iff put_meta_at_def)
  moreover have "\<exists>v. objs s = ob(k := v)" if "objs s = ob" for s
    using that by (metis fun_upd_triv)
  ultimately show ?thesis
    by (auto intro!: hoare_conseq [OF put_bytes_hoare [OF assms, of ob]])
next
  case (Inl e)
  then have "put_meta_at E k mt = err_op (Meta e)"
    by (simp add: fun_eq_iff put_meta_at_def err_op_def)
  then show ?thesis
    by (auto intro!: hoare_err exI [of _ "ob k"])
qed

text \<open>Growing keeps any property that survives a new \<open>meta.json\<close> and a larger capacity.\<close>

lemma grow_to_general:
  assumes L: "s3_laws E objs" and cap: "cap < 2 ^ 64"
    and meta: "\<And>s v x. R s \<Longrightarrow> objs v = (objs (st_svc s))(meta_key (st_conf s) := x) \<Longrightarrow> R (s\<lparr>st_svc := v\<rparr>)"
    and grown: "\<And>s. R s \<Longrightarrow> s3_capacity (st_conf s) \<le> cap \<Longrightarrow> s3_block_size (st_conf s) dvd cap \<Longrightarrow>
      R (s\<lparr>st_conf := (st_conf s)\<lparr>s3_capacity := cap\<rparr>\<rparr>)"
    and bs: "\<And>s. R s \<Longrightarrow> 0 < s3_block_size (st_conf s)"
  shows "hoare R (grow_to E cap) (\<lambda>_ s. R s \<and> cap \<le> s3_capacity (st_conf s)) R"
    (is "hoare _ _ ?Q _")
  unfolding hoare_def
proof (intro allI impI)
  fix s assume s: "R s"
  let ?c = "st_conf s"
  let ?m = "\<lparr>vm_version = meta_version, vm_capacity_bytes = cap, vm_chunk_size = s3_chunk_size ?c,
    vm_block_size = s3_block_size ?c, vm_compression = s3_compression ?c, vm_storage = s3_storage ?c\<rparr>"
  have put: "post (\<lambda>_ t. R t \<and> st_conf t = ?c) R (on_svc (put_meta_at E (meta_key ?c) ?m) s)"
    by (rule on_svc_post [OF put_meta_objs_hoare [OF s3_lawsD(2) [OF L]] refl]) (use meta [OF s] in auto)
  have "post ?Q R (bind_op (on_svc (put_meta_at E (meta_key ?c) ?m))
        (\<lambda>_ s1. (Ok (), s1\<lparr>st_conf := (st_conf s1)\<lparr>s3_capacity := cap\<rparr>\<rparr>)) s)"
    if "s3_capacity ?c < cap" "s3_block_size ?c dvd cap"
    by (rule post_bind, rule put) (use that grown in fastforce)
  then show "post ?Q R (grow_to E cap s)"
    using s bs [OF s] by (auto simp: grow_to_def s3_set_capacity_def Let_def mod_eq_0_iff_dvd)
qed

lemma snap_ready_meta:
  assumes "snap_ready E objs U sid m ds s" and "objs v = (objs (st_svc s))(meta_key (st_conf s) := x)"
  shows "snap_ready E objs U sid m ds (s\<lparr>st_svc := v\<rparr>)"
proof -
  have "pool_frame E objs (st_conf s) U (objs (st_svc s)) (st_svc s)"
    using assms(1) by (simp add: pool_frame_def snap_ready_def)
  then have "pool_frame E objs (st_conf s) U (objs (st_svc s)) v"
    by (rule pool_frame_side) (use assms(2) in auto)
  then show ?thesis
    using assms(1) snapshot_frame_post [of E "st_conf s" "objs (st_svc s)" sid m ds objs U v]
    by (simp add: snap_ready_def snap_state_def pool_frame_def)
qed

lemma grow_to_hoare:
  assumes "s3_laws E objs" and cap: "cap < 2 ^ 64"
  shows "hoare (snap_ready E objs U sid m ds) (grow_to E cap)
    (\<lambda>_ s. snap_ready E objs U sid m ds s \<and> cap \<le> s3_capacity (st_conf s)) (snap_ready E objs U sid m ds)"
proof (rule grow_to_general [OF assms])
  show "0 < s3_block_size (st_conf s)" if "snap_ready E objs U sid m ds s" for s
    using that by (simp add: snap_ready_def wf_geom_def conf_geom_def)
qed (auto intro: snap_ready_meta snap_ready_grown [OF _ _ _ cap])

lemma snap_readyD:
  assumes "snap_ready E objs U sid m ds s"
  shows "s3_storage (st_conf s) = Cow" "snapshot_holds E (st_conf s) (objs (st_svc s)) sid m ds"
    "pool_ok E (st_conf s) U (objs (st_svc s))" "codable (st_conf s)" "wf_geom (conf_geom (st_conf s))"
  using assms by (auto simp: snap_ready_def snap_state_def)

text \<open>Operations that change no object keep \<open>snap_ready\<close>; what they return may be added to it.\<close>

lemma snap_ready_at_conf:
  fixes m :: "s3_conf \<Rightarrow> ('s, 'a) op"
  assumes "\<And>s. snap_ready E objs U sid mf ds s \<Longrightarrow> X s \<Longrightarrow>
      hoare (\<lambda>v. objs v = objs (st_svc s)) (m (st_conf s))
        (\<lambda>x v. objs v = objs (st_svc s) \<and> Q x (st_conf s) (objs (st_svc s))) (\<lambda>v. objs v = objs (st_svc s))"
    and X: "\<And>s t. X s \<Longrightarrow> st_conf t = st_conf s \<Longrightarrow> objs (st_svc t) = objs (st_svc s) \<Longrightarrow> X t"
  shows "hoare (\<lambda>s. snap_ready E objs U sid mf ds s \<and> X s) (at_conf m)
    (\<lambda>x s. snap_ready E objs U sid mf ds s \<and> X s \<and> Q x (st_conf s) (objs (st_svc s))) (snap_ready E objs U sid mf ds)"
proof (rule hoare_state)
  fix s assume s: "snap_ready E objs U sid mf ds s \<and> X s"
  have same: "snap_ready E objs U sid mf ds t" if "st_conf t = st_conf s" "objs (st_svc t) = objs (st_svc s)" for t
    using s that by (simp add: snap_ready_def snap_state_def)
  have "X t" if "st_conf t = st_conf s" "objs (st_svc t) = objs (st_svc s)" for t
    using X s that by blast
  then show "hoare (\<lambda>t. t = s) (at_conf m)
    (\<lambda>x s. snap_ready E objs U sid mf ds s \<and> X s \<and> Q x (st_conf s) (objs (st_svc s))) (snap_ready E objs U sid mf ds)"
    by (intro hoare_conseq [OF at_conf_hoare [where m = m and c = "st_conf s", OF assms(1)]]) (use s same in auto)
qed

lemma restore_tail_hoare:
  assumes L: "s3_laws E objs"
  shows "hoare (\<lambda>s. snap_ready E objs U sid m ds s \<and> sm_capacity_bytes m \<le> s3_capacity (st_conf s) \<and>
        refs_hold E (st_conf s) (objs (st_svc s)) refs ds \<and> set live = listed (st_conf s) (objs (st_svc s)))
      (bind_op (at_conf (install_refs E refs)) (\<lambda>written.
         bind_op (at_conf (drop_others E (map cr_index refs) live)) (\<lambda>deleted s1.
           (Ok \<lparr>rs_pointers_written = written, rs_pointers_deleted = deleted,
                rs_capacity = s3_capacity (st_conf s1)\<rparr>, s1))))
    (\<lambda>_ s. snap_ready E objs U sid m ds s \<and> s3_rep E objs (s3_compression (st_conf s)) U ds (conf_geom (st_conf s)) s)
    (snap_ready E objs U sid m ds)"
proof (rule hoare_state)
  fix s0
  assume P: "snap_ready E objs U sid m ds s0 \<and> sm_capacity_bytes m \<le> s3_capacity (st_conf s0) \<and>
        refs_hold E (st_conf s0) (objs (st_svc s0)) refs ds \<and> set live = listed (st_conf s0) (objs (st_svc s0))"
  let ?c = "st_conf s0" and ?ob = "objs (st_svc s0)"
  let ?keep = "map cr_index refs"
  have c: "s3_storage ?c = Cow" and refs: "refs_hold E ?c ?ob refs ds" and live: "set live = listed ?c ?ob"
    using P snap_readyD(1) by auto
  note R = snap_readyD [OF conjunct1 [OF P]]
  let ?f = "with_refs refs (\<lambda>i. ?ob (chunk_key ?c i))"
  let ?F = "\<lambda>s. st_conf s = ?c \<and> (\<exists>f. ptrs_set ?c ?ob f (objs (st_svc s)))"
  have install: "hoare (\<lambda>s. s = s0) (at_conf (install_refs E refs))
      (\<lambda>_ s. st_conf s = ?c \<and> ptrs_set ?c ?ob ?f (objs (st_svc s))) ?F"
    by (rule hoare_pre [OF at_conf_hoare [where m = "install_refs E refs" and c = ?c, OF install_refs_hoare [OF s3_lawsD(2) [OF L] c]]])
      (use refs ptrs_set_refl in \<open>auto simp: refs_hold_def\<close>)
  have drop: "hoare (\<lambda>s. st_conf s = ?c \<and> ptrs_set ?c ?ob ?f (objs (st_svc s))) (at_conf (drop_others E ?keep live))
      (\<lambda>_ s. st_conf s = ?c \<and>
        ptrs_set ?c ?ob (\<lambda>i. if i \<in> set live - set ?keep then None else ?f i) (objs (st_svc s))) ?F"
    by (rule at_conf_hoare [where m = "drop_others E ?keep live" and c = ?c, OF drop_others_hoare [OF s3_lawsD(3) [OF L] c]]) (use live listed_is_index in simp)
  have rep: "s3_rep E objs (s3_compression ?c) U ds (conf_geom ?c) s"
    if "st_conf s = ?c" "ptrs_set ?c ?ob (\<lambda>i. if i \<in> set live - set ?keep then None else ?f i) (objs (st_svc s))" for s
    using that R P chunks_hold_restored [OF c refs live that(2)] ptrs_set_frame(2) [OF c that(2), of E U]
      zero_beyond_mono [of "sm_capacity_bytes m" ds "s3_capacity ?c"]
    by (simp add: s3_rep_def conf_geom_def Let_def snapshot_holds_def)
  have "hoare (\<lambda>s. s = s0) (bind_op (at_conf (install_refs E refs)) (\<lambda>written.
         bind_op (at_conf (drop_others E ?keep live)) (\<lambda>deleted s1.
           (Ok \<lparr>rs_pointers_written = written, rs_pointers_deleted = deleted,
                rs_capacity = s3_capacity (st_conf s1)\<rparr>, s1))))
      (\<lambda>_ s. st_conf s = ?c \<and>
        ptrs_set ?c ?ob (\<lambda>i. if i \<in> set live - set ?keep then None else ?f i) (objs (st_svc s))) ?F"
    by (rule hoare_bind [OF install], rule hoare_bind [OF drop]) (simp add: hoare_def)
  then show "hoare (\<lambda>s. s = s0) (bind_op (at_conf (install_refs E refs)) (\<lambda>written.
         bind_op (at_conf (drop_others E ?keep live)) (\<lambda>deleted s1.
           (Ok \<lparr>rs_pointers_written = written, rs_pointers_deleted = deleted,
                rs_capacity = s3_capacity (st_conf s1)\<rparr>, s1))))
    (\<lambda>_ s. snap_ready E objs U sid m ds s \<and> s3_rep E objs (s3_compression (st_conf s)) U ds (conf_geom (st_conf s)) s)
    (snap_ready E objs U sid m ds)"
    by (rule hoare_conseq) (use rep snap_ready_ptrs [OF conjunct1 [OF P]] in auto)
qed

lemma snapshot_restore_hoare:
  assumes L: "s3_laws E objs" and cap: "sm_capacity_bytes m < 2 ^ 64"
  shows "hoare (snap_ready E objs U sid m ds) (snapshot_restore E sid)
    (\<lambda>_ s. snap_ready E objs U sid m ds s \<and> s3_rep E objs (s3_compression (st_conf s)) U ds (conf_geom (st_conf s)) s)
    (snap_ready E objs U sid m ds)"
    (is "hoare ?R _ ?Q _")
proof -
  let ?G = "\<lambda>s. sm_capacity_bytes m \<le> s3_capacity (st_conf s)"
  let ?H = "\<lambda>refs s. refs_hold E (st_conf s) (objs (st_svc s)) refs ds"
  note get_law = s3_lawsD(1) [OF L]
  have get: "hoare ?R (at_conf (\<lambda>c. snapshot_get E c sid)) (\<lambda>m' s. ?R s \<and> m' = m) ?R"
    by (rule hoare_conseq [OF snap_ready_at_conf [where X = "\<lambda>_. True" and Q = "\<lambda>m' _ _. m' = m"
          and m = "\<lambda>c. snapshot_get E c sid"]])
      (auto intro: snapshot_get_hoare [OF get_law] snap_readyD)
  have load: "hoare (\<lambda>s. ?R s \<and> ?G s) (at_conf (\<lambda>c. load_snapshot_refs E c sid)) (\<lambda>refs s. ?R s \<and> ?G s \<and> ?H refs s) ?R"
    by (rule snap_ready_at_conf [where X = ?G and Q = "\<lambda>refs c ob. refs_hold E c ob refs ds"
          and m = "\<lambda>c. load_snapshot_refs E c sid"])
      (auto intro: load_snapshot_refs_hoare [OF get_law] snap_readyD)
  have present: "hoare (\<lambda>s. ?R s \<and> ?G s \<and> ?H refs s) (at_conf (\<lambda>c. list_chunk_indices E (chunks_prefix c)))
      (\<lambda>live s. ?R s \<and> (?G s \<and> ?H refs s) \<and> set live = listed (st_conf s) (objs (st_svc s))) ?R" for refs
    by (rule snap_ready_at_conf [where X = "\<lambda>s. ?G s \<and> ?H refs s" and Q = "\<lambda>live c ob. set live = listed c ob"
          and m = "\<lambda>c. list_chunk_indices E (chunks_prefix c)"])
      (auto simp: listed_def intro: hoare_conseq [OF list_chunk_indices_hoare [OF s3_lawsD(4) [OF L]]])
  have pres: "s3_present_chunks E = at_conf (\<lambda>c. list_chunk_indices E (chunks_prefix c))"
    by (simp add: fun_eq_iff s3_present_chunks_def at_conf_def)
  have chain: "hoare ?R (bind_op (grow_to E (sm_capacity_bytes m)) (\<lambda>_.
         bind_op (at_conf (\<lambda>c. load_snapshot_refs E c sid)) (\<lambda>refs.
         bind_op (s3_present_chunks E) (\<lambda>live.
         bind_op (at_conf (install_refs E refs)) (\<lambda>written.
         bind_op (at_conf (drop_others E (map cr_index refs) live)) (\<lambda>deleted s1.
           (Ok \<lparr>rs_pointers_written = written, rs_pointers_deleted = deleted,
                rs_capacity = s3_capacity (st_conf s1)\<rparr>, s1))))))) ?Q ?R"
    by (rule hoare_bind [OF grow_to_hoare [OF L cap]], rule hoare_bind [OF load],
        rule hoare_bind [OF present [folded pres]], rule hoare_pre [OF restore_tail_hoare [OF L]]) auto
  show ?thesis
    unfolding hoare_def
  proof (intro allI impI)
    fix s0 assume s0: "?R s0"
    have cow: "require_cow_store (st_conf s0) = Ok ()"
      using snap_readyD(1) [OF s0] by (simp add: require_cow_store_iff)
    have guards: "sm_state m = Ready" "sm_chunk_size m = s3_chunk_size (st_conf s)" "sm_block_size m = s3_block_size (st_conf s)"
        "sm_compression m = s3_compression (st_conf s)" if "?R s" for s
      using snap_readyD(2) [OF that] by (auto simp: snapshot_holds_def)
    show "post ?Q ?R (snapshot_restore E sid s0)"
      unfolding snapshot_restore_def cow bind_of_result(1)
      by (rule post_bind, rule hoare_post [OF get s0]) (use hoare_post [OF chain] guards in auto)
  qed
qed

end
