(* ===== verification/CloneRefine.thy ===== *)
theory CloneRefine
  imports RestoreRefine
begin

text \<open>
  Cloning a snapshot into an empty volume under another prefix: the objects that the destination
  lacks are copied into its own pool, then its pointers are written. After an \<open>Ok\<close> clone the
  destination stands for the disk of the snapshot, and the snapshot of the source is untouched.
\<close>

section \<open>Keys of two volumes\<close>

lemma append_eq_same_length:
  assumes "p @ x = q @ y" and "length x = length y"
  shows "p = q \<and> x = y"
  using assms by simp

lemma length_object_relpath: "length h = hash_len \<Longrightarrow> length (object_relpath h) = 66"
  by (simp add: object_relpath_def shard_object_name_def)

lemma object_key_prefix:
  assumes "length h = hash_len" and "length h' = hash_len" and "object_key c h = object_key c' h'"
  shows "s3_prefix c = s3_prefix c'"
  using append_eq_same_length [of "s3_prefix c" "''/objects/'' @ object_relpath h" "s3_prefix c'" "''/objects/'' @ object_relpath h'"]
    assms by (simp add: object_key_def length_object_relpath)

lemma rev_object_key:
  assumes "length h = hash_len"
  obtains x where "rev (object_key c h) = rev (drop 4 (hash_hex h)) @ x" and "length (drop 4 (hash_hex h)) = 60"
  using assms by (auto simp: object_key_def object_relpath_def shard_object_name_def)

lemma hash_hex_no_slash: "CHR ''/'' \<notin> set (hash_hex h)"
  using hash_hex_digits [of "CHR ''/''" h] by auto

lemma object_chunk_key:
  assumes "length h = hash_len" and "s3_storage c' = Cow"
  shows "object_key c h \<noteq> chunk_key c' i"
proof
  assume eq: "object_key c h = chunk_key c' i"
  obtain x where x: "rev (object_key c h) = rev (drop 4 (hash_hex h)) @ x" "length (drop 4 (hash_hex h)) = 60"
    using assms(1) by (rule rev_object_key)
  have "rev (chunk_key c' i) ! 16 = CHR ''/''"
    using assms(2) by (simp add: cow_chunk_key nth_append)
  moreover have "rev (object_key c h) ! 16 \<in> set (hash_hex h)"
  proof -
    have "rev (object_key c h) ! 16 = rev (drop 4 (hash_hex h)) ! 16"
      using x by (simp add: nth_append)
    also have "\<dots> \<in> set (rev (drop 4 (hash_hex h)))"
      using x(2) by (intro nth_mem) simp
    finally show ?thesis using set_drop_subset [of 4 "hash_hex h"] by auto
  qed
  ultimately show False
    using eq hash_hex_no_slash by metis
qed

lemma object_key_end:
  assumes "length h = hash_len"
  shows "to_digit16 (last (object_key c h)) \<noteq> None"
proof -
  have "last (object_key c h) = last (drop 4 (hash_hex h))" and "drop 4 (hash_hex h) \<noteq> []"
    using assms by (auto simp: object_key_def object_relpath_def shard_object_name_def)
  then show ?thesis
    using hash_hex_digits [of _ h] last_in_set [of "drop 4 (hash_hex h)"] set_drop_subset [of 4 "hash_hex h"] by auto
qed

lemma snapshot_key_ends:
  "last (snapshot_manifest_key c sid) = CHR ''n''" "last (snapshot_chunks_key c sid) = CHR ''n''"
  "last (meta_key c) = CHR ''n''" "to_digit16 (CHR ''n'') = None"
  by (simp_all add: snapshot_manifest_key_def snapshot_chunks_key_def meta_key_def key_defs to_digit16_def split: storage_mode.split)

lemma chunk_key_end: "s3_storage c = Cow \<Longrightarrow> to_digit16 (last (chunk_key c i)) \<noteq> None"
  using hex_fixed_digits [of hex_digit "last (hex_fixed hex_digit 16 i)" 16 i]
  by (simp add: cow_chunk_key last_append) (metis last_in_set length_hex_fixed length_0_conv zero_neq_numeral)

text \<open>Keys of the destination that clone writes are not objects or snapshots of the source.\<close>

lemma clone_keys:
  assumes "length h = hash_len" and "s3_storage c' = Cow"
  shows "object_key c h \<noteq> meta_key c'" "snapshot_chunks_key c sid \<noteq> chunk_key c' i" "snapshot_manifest_key c sid \<noteq> chunk_key c' i"
    "snapshot_chunks_key c sid \<noteq> object_key c' h" "snapshot_manifest_key c sid \<noteq> object_key c' h"
  using object_key_end [OF assms(1)] chunk_key_end [OF assms(2), of i] snapshot_key_ends
  by metis+

lemma snapshot_meta_keys: "snapshot_chunks_key c sid \<noteq> meta_key c'" "snapshot_manifest_key c sid \<noteq> meta_key c'"
proof -
  have "rev (meta_key c') ! 1 = CHR ''o''" "rev (meta_key c') ! 5 = CHR ''a''"
    by (simp_all add: meta_key_def key_defs nth_append split: storage_mode.split)
  moreover have "rev (snapshot_chunks_key c sid) ! 1 = CHR ''i''" "rev (snapshot_manifest_key c sid) ! 5 = CHR ''t''"
    by (simp_all add: snapshot_chunks_key_def snapshot_manifest_key_def nth_append)
  ultimately show "snapshot_chunks_key c sid \<noteq> meta_key c'" "snapshot_manifest_key c sid \<noteq> meta_key c'"
    by auto
qed

section \<open>Cloning\<close>

text \<open>A key that neither the snapshot nor the pool of the volume \<open>c\<close> uses.\<close>

definition foreign_key :: "s3_conf \<Rightarrow> string \<Rightarrow> string \<Rightarrow> bool" where
  "foreign_key c sid k \<longleftrightarrow>
     k \<noteq> snapshot_manifest_key c sid \<and> k \<noteq> snapshot_chunks_key c sid \<and> (\<forall>h. length h = hash_len \<longrightarrow> k \<noteq> object_key c h)"

lemma foreign_keys:
  assumes "s3_prefix c \<noteq> s3_prefix c'" and "s3_storage c' = Cow"
  shows "length h = hash_len \<Longrightarrow> foreign_key c sid (object_key c' h)" "foreign_key c sid (chunk_key c' i)"
    "foreign_key c sid (meta_key c')"
  unfolding foreign_key_def
  using assms object_key_prefix [of _ h c c'] clone_keys [OF _ assms(2), of _ c] object_chunk_key [OF _ assms(2), of _ c i]
    snapshot_meta_keys [of c sid c']
  by (metis (no_types, opaque_lifting) length_replicate)+

lemma foreign_update:
  assumes "foreign_key c sid k"
  shows "snapshot_holds E c ob sid m d \<Longrightarrow> snapshot_holds E c (ob(k := v)) sid m d"
    and "pool_ok E c U ob \<Longrightarrow> pool_ok E c U (ob(k := v))"
    and "refs_hold E c ob refs d \<Longrightarrow> refs_hold E c (ob(k := v)) refs d"
    and "length h = hash_len \<Longrightarrow> (ob(k := v)) (object_key c h) = ob (object_key c h)"
proof -
  show obj: "length h = hash_len \<Longrightarrow> (ob(k := v)) (object_key c h) = ob (object_key c h)" for h
    using assms by (auto simp: foreign_key_def)
  show refs: "refs_hold E c ob refs d \<Longrightarrow> refs_hold E c (ob(k := v)) refs d" for refs
    by (rule refs_hold_mono [where ob = ob]) (simp_all only: obj)
  show "pool_ok E c U ob \<Longrightarrow> pool_ok E c U (ob(k := v))"
    unfolding pool_ok_def using obj by metis
  have "(ob(k := v)) (snapshot_manifest_key c sid) = ob (snapshot_manifest_key c sid)"
    "(ob(k := v)) (snapshot_chunks_key c sid) = ob (snapshot_chunks_key c sid)"
    using assms by (auto simp: foreign_key_def)
  then show "snapshot_holds E c ob sid m d \<Longrightarrow> snapshot_holds E c (ob(k := v)) sid m d"
    unfolding snapshot_holds_def using refs by metis
qed

definition clone_source ::
  "('s, 'm) s3_env_scheme \<Rightarrow> s3_conf \<Rightarrow> bytes set \<Rightarrow> string \<Rightarrow> snapshot_manifest \<Rightarrow> (nat \<Rightarrow> byte) \<Rightarrow> (string \<rightharpoonup> bytes) \<Rightarrow> bool" where
  "clone_source E c U sid m ds ob \<longleftrightarrow> s3_storage c = Cow \<and> snapshot_holds E c ob sid m ds \<and> pool_ok E c U ob"

definition cloned ::
  "('s, 'm) s3_env_scheme \<Rightarrow> s3_conf \<Rightarrow> s3_conf \<Rightarrow> bytes set \<Rightarrow> (nat \<Rightarrow> byte) \<Rightarrow> chunk_ref list \<Rightarrow> chunk_ref list \<Rightarrow>
    (string \<rightharpoonup> bytes) \<Rightarrow> bool" where
  "cloned E c c' U ds refs ys ob \<longleftrightarrow>
     refs_hold E c ob refs ds \<and> pool_ok E c' U ob \<and>
     (\<forall>r \<in> set ys. ob (object_key c' (cr_hash r)) = ob (object_key c (cr_hash r)) \<and>
        ob (chunk_key c' (cr_index r)) = Some (encode_pointer (cr_hash r))) \<and>
     (\<forall>i. is_index i \<longrightarrow> i \<notin> cr_index ` set ys \<longrightarrow> ob (chunk_key c' i) = None)"

lemma refs_hold_body:
  assumes "refs_hold E c ob refs d" and "r \<in> set refs"
  obtains b where "ob (object_key c (cr_hash r)) = Some b"
proof -
  have "refs_map refs (cr_index r) = Some (cr_hash r)"
    using assms unfolding refs_map_def refs_hold_def by (intro map_of_is_SomeI) (auto simp: comp_def)
  moreover have "is_index (cr_index r)"
    using assms by (auto simp: refs_hold_def wf_ref_def is_index_def)
  ultimately show ?thesis
    using assms(1) that by (fastforce simp: refs_hold_def ref_value_def split: option.splits)
qed

text \<open>The object of a reference is in the destination's pool, then its pointer.\<close>

lemma cloned_object:
  assumes cl: "cloned E c c' U ds refs ys ob" and r: "r \<in> set refs" and b: "ob (object_key c (cr_hash r)) = Some b"
    and pool: "pool_ok E c U ob" "s3_storage c = Cow" "s3_storage c' = Cow" and pre: "s3_prefix c \<noteq> s3_prefix c'"
    and U: "inj_on (e_blake3 E) U" and ys: "set ys \<subseteq> set refs"
  shows "cloned E c c' U ds refs ys (ob(object_key c' (cr_hash r) \<mapsto> b))"
proof -
  let ?h = "cr_hash r" and ?ob = "ob(object_key c' (cr_hash r) \<mapsto> b)"
  have wf: "\<forall>r \<in> set refs. wf_ref r" using cl by (auto simp: cloned_def refs_hold_def)
  then have len: "length ?h = hash_len" using r by (auto simp: wf_ref_def)
  have h: "e_blake3 E b = ?h" "b \<in> U" using pool b len unfolding pool_ok_def by blast+
  note F = foreign_update [OF foreign_keys(1) [OF pre pool(3) len, where sid = "[]"], where ob = ob and v = "Some b"]
  have "pool_ok E c' U ?ob"
    using pool_add(1) [OF pool(3) _ U h(2), of ob] cl h len by (simp add: cloned_def)
  moreover have "?ob (object_key c' (cr_hash r')) = ?ob (object_key c (cr_hash r'))" if "r' \<in> set ys" for r'
  proof -
    have l: "length (cr_hash r') = hash_len" using wf ys that by (auto simp: wf_ref_def)
    then show ?thesis
      using cl that b len F(4) [OF l] by (cases "cr_hash r' = ?h") (auto simp: cloned_def)
  qed
  ultimately show ?thesis
    using cl F(3) pool(3) by (auto simp: cloned_def)
qed

lemma cloned_pointer:
  assumes cl: "cloned E c c' U ds refs ys ob" and r: "r \<in> set refs" "cr_index r \<notin> cr_index ` set ys"
    and same: "ob (object_key c' (cr_hash r)) = ob (object_key c (cr_hash r))" and ys: "set ys \<subseteq> set refs"
    and c': "s3_storage c' = Cow" and pre: "s3_prefix c \<noteq> s3_prefix c'"
  shows "cloned E c c' U ds refs (ys @ [r]) (ob(chunk_key c' (cr_index r) \<mapsto> encode_pointer (cr_hash r)))"
proof -
  let ?ob = "ob(chunk_key c' (cr_index r) \<mapsto> encode_pointer (cr_hash r))"
  have wf: "\<forall>r \<in> set refs. wf_ref r" using cl by (auto simp: cloned_def refs_hold_def)
  have idx: "is_index (cr_index x)" and len: "length (cr_hash x) = hash_len" if "x \<in> set refs" for x
    using wf that by (auto simp: wf_ref_def is_index_def)
  note F = foreign_update [OF foreign_keys(2) [OF pre c', where sid = "[]" and i = "cr_index r"], where ob = ob]
  have "?ob (object_key c (cr_hash x)) = ob (object_key c (cr_hash x))" if "x \<in> set refs" for x
    using F(4) len that by blast
  moreover have "pool_ok E c' U ?ob"
    using cl c' by (simp add: cloned_def pool_ok_def)
  ultimately show ?thesis
    using cl r same ys c' idx F(3) unfolding cloned_def by (auto simp: subset_iff)
qed

definition cloning ::
  "('s, 'm) s3_env_scheme \<Rightarrow> s3_conf \<Rightarrow> s3_conf \<Rightarrow> bytes set \<Rightarrow> string \<Rightarrow> snapshot_manifest \<Rightarrow> (nat \<Rightarrow> byte) \<Rightarrow>
    chunk_ref list \<Rightarrow> chunk_ref list \<Rightarrow> (string \<rightharpoonup> bytes) \<Rightarrow> bool" where
  "cloning E c c' U sid m ds refs ys ob \<longleftrightarrow> clone_source E c U sid m ds ob \<and> cloned E c c' U ds refs ys ob"

lemma clone_ref_hoare:
  assumes L: "s3_laws E objs" and U: "inj_on (e_blake3 E) U" and c': "s3_storage c' = Cow" and pre: "s3_prefix c \<noteq> s3_prefix c'"
    and refs: "refs = ys @ r # zs"
  shows "hoare (\<lambda>s. cloning E c c' U sid m ds refs ys (objs s)) (clone_ref E c c' st r)
    (\<lambda>_ s. cloning E c c' U sid m ds refs (ys @ [r]) (objs s)) (\<lambda>s. clone_source E c U sid m ds (objs s))"
proof (rule hoare_state)
  fix s0 assume s0: "cloning E c c' U sid m ds refs ys (objs s0)"
  let ?ob = "objs s0" and ?h = "cr_hash r" and ?F = "\<lambda>s. clone_source E c U sid m ds (objs s)"
  have src: "clone_source E c U sid m ds ?ob" and cl: "cloned E c c' U ds refs ys ?ob"
    using s0 by (auto simp: cloning_def)
  have r: "r \<in> set refs" "set ys \<subseteq> set refs" using refs by auto
  have rh: "refs_hold E c ?ob refs ds" using cl by (simp add: cloned_def)
  then have len: "length ?h = hash_len" and new: "cr_index r \<notin> cr_index ` set ys"
    using r refs by (auto simp: refs_hold_def wf_ref_def)
  obtain b where b: "?ob (object_key c ?h) = Some b" using refs_hold_body [OF rh r(1)] .
  have cow: "s3_storage c = Cow" and pool: "pool_ok E c U ?ob" using src by (auto simp: clone_source_def)
  note fobj = foreign_keys(1) [OF pre c' len, of sid] and fptr = foreign_keys(2) [OF pre c', of sid "cr_index r"]
  have srcu: "clone_source E c U sid m ds (ob(k := v))" if "clone_source E c U sid m ds ob" "foreign_key c sid k" for ob k v
    using that(1) by (auto simp: clone_source_def intro: foreign_update(1,2) [OF that(2)])
  have put: "hoare (\<lambda>s. objs s = ob) (put_bytes E k x ct im) (\<lambda>_ s. objs s = ob(k \<mapsto> x)) ?F"
    if "clone_source E c U sid m ds ob" "foreign_key c sid k" for ob k x ct im
    by (rule hoare_conseq [OF put_bytes_hoare [OF s3_lawsD(2) [OF L], of ob]]) (use that srcu in auto)
  have get: "hoare (\<lambda>s. objs s = ?ob) (get_bytes E k) (\<lambda>x s. objs s = ?ob \<and> map_option fst x = ?ob k) ?F" for k
    by (rule hoare_conseq [OF get_bytes_hoare [OF s3_lawsD(1) [OF L], of ?ob]]) (use src in auto)
  have there: "hoare (\<lambda>s. objs s = ?ob) (get_object E c' ?h) (\<lambda>x s. objs s = ?ob \<and> map_option fst x = ?ob (object_key c' ?h)) ?F"
    unfolding get_object_def by (rule get)
  define ob1 where "ob1 = (if ?ob (object_key c' ?h) = None then ?ob(object_key c' ?h \<mapsto> b) else ?ob)"
  have same: "?ob (object_key c' ?h) = Some b" if some: "?ob (object_key c' ?h) \<noteq> None"
  proof -
    obtain b' where b': "?ob (object_key c' ?h) = Some b'" using some by blast
    have "pool_ok E c' U ?ob" using cl by (simp add: cloned_def)
    then have "e_blake3 E b' = ?h \<and> b' \<in> U" "e_blake3 E b = ?h \<and> b \<in> U"
      using pool b b' len c' cow unfolding pool_ok_def by blast+
    with U have "b' = b" by (metis inj_onD)
    with b' show ?thesis by simp
  qed
  have ob1: "clone_source E c U sid m ds ob1" "cloned E c c' U ds refs ys ob1"
      "ob1 (object_key c' ?h) = ob1 (object_key c ?h)"
    using src cl srcu [OF src fobj] cloned_object [OF cl r(1) b pool cow c' pre U r(2)] same b
    by (auto simp: ob1_def)
  have final: "cloning E c c' U sid m ds refs (ys @ [r]) (ob1(chunk_key c' (cr_index r) \<mapsto> encode_pointer ?h))"
    unfolding cloning_def using srcu [OF ob1(1) fptr] cloned_pointer [OF ob1(2) r(1) new ob1(3) r(2) c' pre] by simp
  have ptr: "hoare (\<lambda>s. objs s = ob1) (bind_op (put_pointer E c' (cr_index r) ?h) (\<lambda>_. ret_op x))
      (\<lambda>_ s. cloning E c c' U sid m ds refs (ys @ [r]) (objs s)) ?F" for x :: clone_stats
    unfolding put_pointer_def by (rule hoare_bind [OF put [OF ob1(1) fptr]]) (use final in \<open>auto intro: hoare_ret\<close>)
  have copy: "hoare (\<lambda>s. objs s = ?ob \<and> map_option fst x = ?ob (object_key c' ?h))
      (if x = None then bind_op (get_object E c ?h) (\<lambda>b. case b of
          None \<Rightarrow> err_op (Other (''missing object for hash '' @ hash_hex ?h))
        | Some (body, _) \<Rightarrow> bind_op (put_bytes E (object_key c' ?h) body None None) (\<lambda>_. ret_op (cl_objects_copied st + 1)))
       else ret_op (cl_objects_copied st)) (\<lambda>_ s. objs s = ob1) ?F" for x
  proof (cases x)
    case None
    show ?thesis
    proof (cases "?ob (object_key c' ?h)")
      case dest: None
      have step: "hoare (\<lambda>s. objs s = ?ob \<and> map_option fst y = ?ob (object_key c ?h)) (case y of
          None \<Rightarrow> err_op (Other (''missing object for hash '' @ hash_hex ?h))
        | Some (body, _) \<Rightarrow> bind_op (put_bytes E (object_key c' ?h) body None None) (\<lambda>_. ret_op (cl_objects_copied st + 1)))
          (\<lambda>_ s. objs s = ob1) ?F" for y
      proof (cases "map_option fst y = Some b")
        case True
        then obtain u where y: "y = Some (b, u)" by auto
        show ?thesis
          unfolding y option.case prod.case
          by (rule hoare_pre [OF hoare_bind [OF put [OF src fobj]]]) (auto simp: ob1_def dest intro: hoare_ret)
      qed (simp add: hoare_def b)
      show ?thesis
        unfolding get_object_def None
        by (simp only: if_True simp_thms, rule hoare_bind [OF hoare_pre [OF get]], simp, rule step)
    qed (simp add: hoare_def None)
  next
    case (Some p)
    then show ?thesis
      by (auto intro!: hoare_ret simp: ob1_def)
  qed
  show "hoare (\<lambda>s. s = s0) (clone_ref E c c' st r) (\<lambda>_ s. cloning E c c' U sid m ds refs (ys @ [r]) (objs s)) ?F"
    unfolding clone_ref_def
    by (rule hoare_bind, rule hoare_pre [OF there], simp, rule hoare_bind, rule copy, rule ptr)
qed

section \<open>The destination volume\<close>

definition clone_ready ::
  "('s, 'm) s3_env_scheme \<Rightarrow> ('s \<Rightarrow> string \<rightharpoonup> bytes) \<Rightarrow> s3_conf \<Rightarrow> bytes set \<Rightarrow> string \<Rightarrow> snapshot_manifest \<Rightarrow> (nat \<Rightarrow> byte) \<Rightarrow>
    's s3_store \<Rightarrow> bool" where
  "clone_ready E objs c U sid m ds s \<longleftrightarrow>
     clone_source E c U sid m ds (objs (st_svc s)) \<and> s3_storage (st_conf s) = Cow \<and> codable (st_conf s) \<and>
     wf_geom (conf_geom (st_conf s)) \<and> pool_ok E (st_conf s) U (objs (st_svc s)) \<and>
     s3_prefix c \<noteq> s3_prefix (st_conf s) \<and> s3_chunk_size (st_conf s) = s3_chunk_size c \<and>
     s3_block_size (st_conf s) = s3_block_size c \<and> s3_compression (st_conf s) = s3_compression c"

lemma clone_ready_meta:
  assumes "clone_ready E objs c U sid m ds s" and "objs v = (objs (st_svc s))(meta_key (st_conf s) := x)"
  shows "clone_ready E objs c U sid m ds (s\<lparr>st_svc := v\<rparr>)"
proof -
  have f: "foreign_key c sid (meta_key (st_conf s))"
    using assms(1) by (intro foreign_keys(3)) (auto simp: clone_ready_def)
  have "pool_ok E (st_conf s) U (objs v)"
    using assms by (auto simp: clone_ready_def pool_ok_def meta_keys_other(4) [symmetric])
  then show ?thesis
    using assms foreign_update(1,2) [OF f, where E = E] by (simp add: clone_ready_def clone_source_def)
qed

lemma cloned_holds:
  assumes cl: "cloned E c c' U ds refs refs ob" and c': "s3_storage c' = Cow" "s3_chunk_size c' = s3_chunk_size c"
    "s3_compression c' = s3_compression c"
  shows "chunks_hold E c' ob ds"
proof (rule pointers_hold [OF c'(1)])
  have rh: "refs_hold E c ob refs ds" using cl by (simp add: cloned_def)
  have "ref_value E c' ob (refs_map refs i) = ref_value E c ob (refs_map refs i)" for i
  proof (cases "refs_map refs i")
    case (Some h)
    then obtain r where "r \<in> set refs" "h = cr_hash r" by (auto simp: refs_map_def dest!: map_of_SomeD)
    then have "ob (object_key c' h) = ob (object_key c h)" using cl by (auto simp: cloned_def)
    then show ?thesis using Some c' by (simp add: ref_value_def decoded_def split: option.split)
  qed (simp add: ref_value_def c')
  then show "refs_hold E c' ob refs ds"
    using rh c' by (simp add: refs_hold_def)
  fix i assume i: "is_index i"
  show "ob (chunk_key c' i) = map_option encode_pointer (refs_map refs i)"
  proof (cases "refs_map refs i")
    case None
    then show ?thesis using cl i by (simp add: cloned_def refs_map_None)
  next
    case (Some h)
    then obtain r where "r \<in> set refs" "h = cr_hash r" "i = cr_index r" by (auto simp: refs_map_def dest!: map_of_SomeD)
    then show ?thesis using cl Some by (auto simp: cloned_def)
  qed
qed

lemma clone_fold_hoare:
  assumes L: "s3_laws E objs" and U: "inj_on (e_blake3 E) U" and c': "s3_storage c' = Cow" and pre: "s3_prefix c \<noteq> s3_prefix c'"
  shows "hoare (\<lambda>s. cloning E c c' U sid m ds refs [] (objs s)) (fold_op (clone_ref E c c') st refs)
    (\<lambda>_ s. cloning E c c' U sid m ds refs refs (objs s)) (\<lambda>s. clone_source E c U sid m ds (objs s))"
  by (rule fold_op_hoare [where I = "\<lambda>ys _ s. cloning E c c' U sid m ds refs ys (objs s)"])
    (rule clone_ref_hoare [OF L U c' pre])

lemma pure_op_hoare:
  fixes m :: "s3_conf \<Rightarrow> ('s, 'a) op"
  assumes op: "\<And>s. P s \<Longrightarrow> hoare (\<lambda>v. objs v = objs (st_svc s)) (m (st_conf s))
      (\<lambda>a v. objs v = objs (st_svc s) \<and> Q a (st_conf s) (objs (st_svc s))) (\<lambda>v. objs v = objs (st_svc s))"
    and P: "\<And>s v. P s \<Longrightarrow> objs v = objs (st_svc s) \<Longrightarrow> P (s\<lparr>st_svc := v\<rparr>)"
  shows "hoare P (at_conf m) (\<lambda>a s. P s \<and> Q a (st_conf s) (objs (st_svc s))) P"
  unfolding hoare_def at_conf_def
proof (intro allI impI)
  fix s assume s: "P s"
  show "post (\<lambda>a s. P s \<and> Q a (st_conf s) (objs (st_svc s))) P (on_svc (m (st_conf s)) s)"
    by (rule on_svc_post [OF op [OF s] refl]) (use P [OF s] in auto)
qed

lemma clone_ready_cong: "clone_ready E objs c U sid m ds s \<Longrightarrow> objs v = objs (st_svc s) \<Longrightarrow> clone_ready E objs c U sid m ds (s\<lparr>st_svc := v\<rparr>)"
  by (simp add: clone_ready_def)

lemma clone_copy_hoare:
  assumes L: "s3_laws E objs" and U: "inj_on (e_blake3 E) U"
  shows "hoare (\<lambda>s. (clone_ready E objs c U sid m ds s \<and> sm_capacity_bytes m \<le> s3_capacity (st_conf s) \<and>
        listed (st_conf s) (objs (st_svc s)) = {}) \<and> refs_hold E c (objs (st_svc s)) refs ds)
      (at_conf (\<lambda>dest. fold_op (clone_ref E c dest) st refs))
    (\<lambda>_ s. clone_source E c U sid m ds (objs (st_svc s)) \<and>
       s3_rep E objs (s3_compression (st_conf s)) U ds (conf_geom (st_conf s)) s)
    (\<lambda>s. clone_source E c U sid m ds (objs (st_svc s)))"
proof (rule hoare_state)
  fix s0
  assume P: "(clone_ready E objs c U sid m ds s0 \<and> sm_capacity_bytes m \<le> s3_capacity (st_conf s0) \<and>
        listed (st_conf s0) (objs (st_svc s0)) = {}) \<and> refs_hold E c (objs (st_svc s0)) refs ds"
  let ?c = "st_conf s0" and ?ob = "objs (st_svc s0)"
  have R: "s3_storage ?c = Cow" "s3_prefix c \<noteq> s3_prefix ?c" "clone_source E c U sid m ds ?ob" "pool_ok E ?c U ?ob"
      "s3_chunk_size ?c = s3_chunk_size c" "s3_compression ?c = s3_compression c" "codable ?c" "wf_geom (conf_geom ?c)"
    using P by (auto simp: clone_ready_def)
  have none: "?ob (chunk_key ?c i) = None" if "is_index i" for i
    using P listed_index(3) [OF that R(1)] unfolding listed_def by blast
  have start: "cloning E c ?c U sid m ds refs [] ?ob"
    using P R none by (simp add: cloning_def cloned_def)
  have zero: "zero_beyond (s3_capacity ?c) ds"
    using P R(3) by (auto simp: clone_source_def snapshot_holds_def intro: zero_beyond_mono)
  have fin: "s3_rep E objs (s3_compression ?c) U ds (conf_geom ?c) s"
    if "st_conf s = ?c" "cloning E c ?c U sid m ds refs refs (objs (st_svc s))" for s
    using that R zero cloned_holds [of E c ?c U ds refs "objs (st_svc s)"]
    by (simp add: s3_rep_def conf_geom_def Let_def cloning_def cloned_def)
  show "hoare (\<lambda>s. s = s0) (at_conf (\<lambda>dest. fold_op (clone_ref E c dest) st refs))
    (\<lambda>_ s. clone_source E c U sid m ds (objs (st_svc s)) \<and>
       s3_rep E objs (s3_compression (st_conf s)) U ds (conf_geom (st_conf s)) s)
    (\<lambda>s. clone_source E c U sid m ds (objs (st_svc s)))"
    by (rule hoare_conseq [OF at_conf_hoare [where m = "\<lambda>dest. fold_op (clone_ref E c dest) st refs" and c = ?c,
            OF clone_fold_hoare [OF L U R(1,2)]]])
      (use start fin in \<open>auto simp: cloning_def\<close>)
qed

lemma clone_grow_hoare:
  assumes L: "s3_laws E objs" and cap: "sm_capacity_bytes m < 2 ^ 64"
  shows "hoare (clone_ready E objs c U sid m ds) (grow_to E (sm_capacity_bytes m))
    (\<lambda>_ s. clone_ready E objs c U sid m ds s \<and> sm_capacity_bytes m \<le> s3_capacity (st_conf s)) (clone_ready E objs c U sid m ds)"
    (is "hoare ?R _ _ _")
proof (rule grow_to_general [OF L cap, where R = ?R])
  show "clone_ready E objs c U sid m ds (s\<lparr>st_svc := v\<rparr>)" if "?R s" "objs v = (objs (st_svc s))(meta_key (st_conf s) := x)" for s v x
    using that by (rule clone_ready_meta)
  show "clone_ready E objs c U sid m ds (s\<lparr>st_conf := (st_conf s)\<lparr>s3_capacity := sm_capacity_bytes m\<rparr>\<rparr>)"
    if "?R s" "s3_capacity (st_conf s) \<le> sm_capacity_bytes m" "s3_block_size (st_conf s) dvd sm_capacity_bytes m" for s
    using that cap by (auto simp: clone_ready_def codable_def wf_geom_def conf_geom_def)
  show "0 < s3_block_size (st_conf s)" if "?R s" for s
    using that by (simp add: clone_ready_def wf_geom_def conf_geom_def)
qed

lemma clone_present_hoare:
  assumes L: "s3_laws E objs" and P: "\<And>s v. P s \<Longrightarrow> objs v = objs (st_svc s) \<Longrightarrow> P (s\<lparr>st_svc := v\<rparr>)"
  shows "hoare P (s3_present_chunks E) (\<lambda>xs s. P s \<and> set xs = listed (st_conf s) (objs (st_svc s))) P"
proof -
  have eq: "s3_present_chunks E = at_conf (\<lambda>c. list_chunk_indices E (chunks_prefix c))"
    by (simp add: fun_eq_iff s3_present_chunks_def at_conf_def)
  show ?thesis
    unfolding eq
    by (rule pure_op_hoare [where P = P and Q = "\<lambda>xs c ob. set xs = listed c ob"],
        rule hoare_conseq [OF list_chunk_indices_hoare [OF s3_lawsD(4) [OF L]]])
      (auto intro: P simp: listed_def)
qed

lemma clone_hoare:
  assumes L: "s3_laws E objs" and U: "inj_on (e_blake3 E) U" and cap: "sm_capacity_bytes m < 2 ^ 64"
  shows "hoare (clone_ready E objs c U sid m ds) (snapshot_clone_into E c sid)
    (\<lambda>_ s. clone_source E c U sid m ds (objs (st_svc s)) \<and>
       s3_rep E objs (s3_compression (st_conf s)) U ds (conf_geom (st_conf s)) s)
    (\<lambda>s. clone_source E c U sid m ds (objs (st_svc s)))"
    (is "hoare ?R _ ?Q ?F")
proof -
  let ?G = "\<lambda>s. ?R s \<and> sm_capacity_bytes m \<le> s3_capacity (st_conf s)"
  let ?N = "\<lambda>s. ?R s \<and> sm_capacity_bytes m \<le> s3_capacity (st_conf s) \<and> listed (st_conf s) (objs (st_svc s)) = {}"
  have RF: "?R s \<Longrightarrow> ?F s" for s by (simp add: clone_ready_def)
  have lift: "on_svc x = at_conf (\<lambda>_. x)" for x :: "('a, 'z) op" by (simp add: fun_eq_iff at_conf_def)
  have get: "hoare ?R (on_svc (snapshot_get E c sid)) (\<lambda>m' s. ?R s \<and> m' = m) ?F"
    unfolding lift
    by (rule hoare_conseq [OF pure_op_hoare [where P = ?R and Q = "\<lambda>m' _ _. m' = m"]])
      (auto intro: snapshot_get_hoare [OF s3_lawsD(1) [OF L]] clone_ready_cong RF simp: clone_ready_def clone_source_def)
  have grow: "hoare ?R (grow_to E (sm_capacity_bytes m)) (\<lambda>_. ?G) ?F"
    by (rule hoare_conseq [OF clone_grow_hoare [OF L cap]]) (auto intro: RF)
  have pres: "hoare ?G (s3_present_chunks E) (\<lambda>xs s. ?G s \<and> set xs = listed (st_conf s) (objs (st_svc s))) ?F"
    by (rule hoare_conseq [OF clone_present_hoare [OF L, where P = ?G]]) (auto intro: clone_ready_cong RF)
  have load: "hoare ?N (on_svc (load_snapshot_refs E c sid))
      (\<lambda>refs s. ?N s \<and> refs_hold E c (objs (st_svc s)) refs ds) ?F"
    unfolding lift
    by (rule hoare_conseq [OF pure_op_hoare [where P = ?N and Q = "\<lambda>refs _ ob. refs_hold E c ob refs ds"]])
      (auto intro: load_snapshot_refs_hoare [OF s3_lawsD(1) [OF L]] clone_ready_cong RF simp: clone_ready_def clone_source_def)
  have empty: "hoare (\<lambda>s. ?G s \<and> set xs = listed (st_conf s) (objs (st_svc s)))
      (if xs \<noteq> [] then err_op e else bind_op (on_svc (load_snapshot_refs E c sid)) (\<lambda>refs.
         at_conf (\<lambda>dest. fold_op (clone_ref E c dest) st refs))) ?Q ?F" for xs e st
  proof (cases "xs = []")
    case True
    then show ?thesis
      by (simp, intro hoare_pre [OF hoare_bind [OF load clone_copy_hoare [OF L U]]]) auto
  qed (auto intro!: hoare_err RF)
  note chain = hoare_bind [OF grow hoare_bind [OF pres empty]]
  show ?thesis
    unfolding hoare_def
  proof (intro allI impI)
    fix s0 assume s0: "?R s0"
    then have guards: "require_cow_store (st_conf s0) = Ok ()" "require_cow_store c = Ok ()" "s3_prefix c \<noteq> s3_prefix (st_conf s0)"
        "s3_chunk_size (st_conf s0) = s3_chunk_size c" "s3_block_size (st_conf s0) = s3_block_size c"
        "s3_compression (st_conf s0) = s3_compression c" "sm_state m = Ready"
      by (auto simp: clone_ready_def clone_source_def require_cow_store_iff snapshot_holds_def)
    show "post ?Q ?F (snapshot_clone_into E c sid s0)"
      unfolding snapshot_clone_into_def guards(1,2) bind_of_result(1)
      by (simp add: guards(3-6), rule post_bind, rule hoare_post [OF get s0])
        (use hoare_post [OF chain] guards(7) in auto)
  qed
qed

end
