(* ===== verification/GcRefine.thy ===== *)
theory GcRefine
  imports RestoreRefine
begin

text \<open>
  Garbage collection of the object pool. It marks the hashes of the live pointers and of the
  snapshots' indices and deletes the other pool objects. The live disk survives every outcome. A
  snapshot survives when reads of existing objects succeed (\<open>reads_succeed\<close>): the code counts an
  index it could not read as an index without references, so an unlucky time-out deletes the objects
  of an intact snapshot.
\<close>

definition reads_succeed :: "('s, 'm) s3_env_scheme \<Rightarrow> ('s \<Rightarrow> string \<rightharpoonup> bytes) \<Rightarrow> bool" where
  "reads_succeed E objs \<longleftrightarrow> (\<forall>k s b. objs s k = Some b \<longrightarrow> (\<exists>t. fst (e_get E k s) = Done (GetOk b t)))"

text \<open>Nothing in the bucket makes the parsers of the collector panic.\<close>

definition gc_parsable :: "s3_conf \<Rightarrow> (string \<rightharpoonup> bytes) \<Rightarrow> bool" where
  "gc_parsable c ob \<longleftrightarrow>
     (\<forall>sid b. ob (snapshot_chunks_key c sid) = Some b \<longrightarrow> read_chunks_bin b \<noteq> Panic) \<and>
     (\<forall>rel. ob (s3_prefix c @ ''/objects/'' @ rel) \<noteq> None \<longrightarrow> hash_from_object_relpath rel \<noteq> Panic)"

section \<open>Marking\<close>

lemma mark_live_fold:
  assumes "get_law E objs"
  shows "hoare (\<lambda>s. objs s = ob) (fold_op (mark_live E c) [] xs)
    (\<lambda>ref s. objs s = ob \<and> (\<forall>i \<in> set xs. \<forall>h. ptr_of c ob i = Some h \<longrightarrow> h \<in> set ref)) (\<lambda>s. objs s = ob)"
proof -
  let ?I = "\<lambda>ys ref s. objs s = ob \<and> (\<forall>i \<in> set ys. \<forall>h. ptr_of c ob i = Some h \<longrightarrow> h \<in> set ref)"
  have "hoare (?I [] []) (fold_op (mark_live E c) [] xs) (?I xs) (\<lambda>s. objs s = ob)"
  proof (rule fold_op_hoare [where I = ?I])
    fix ref x ys zs
    have "hoare (?I ys ref) (read_pointer_hash E c x) (\<lambda>r s. ?I ys ref s \<and> r = ptr_of c ob x) (\<lambda>s. objs s = ob)"
      using read_pointer_hash_hoare [OF assms, of ob c x] by (auto simp: hoare_def elim: post_mono)
    then show "hoare (?I ys ref) (mark_live E c ref x) (?I (ys @ [x])) (\<lambda>s. objs s = ob)"
      unfolding mark_live_def by (rule hoare_bind) (auto intro!: hoare_ret split: option.splits)
  qed
  then show ?thesis by simp
qed

definition index_marked :: "s3_conf \<Rightarrow> (string \<rightharpoonup> bytes) \<Rightarrow> string \<Rightarrow> hash list \<Rightarrow> bool" where
  "index_marked c ob sid ref \<longleftrightarrow>
     (\<forall>bin refs. ob (snapshot_chunks_key c sid) = Some bin \<longrightarrow> read_chunks_bin bin = Ok refs \<longrightarrow>
        cr_hash ` set refs \<subseteq> set ref)"

lemma index_marked_mono: "index_marked c ob sid ref \<Longrightarrow> set ref \<subseteq> set ref' \<Longrightarrow> index_marked c ob sid ref'"
  unfolding index_marked_def by blast

lemma load_refs_any_hoare:
  assumes "get_law E objs" and "gc_parsable c ob"
  shows "hoare (\<lambda>s. objs s = ob) (load_snapshot_refs E c sid)
    (\<lambda>refs s. objs s = ob \<and> index_marked c ob sid (map cr_hash refs)) (\<lambda>s. objs s = ob)"
  unfolding load_snapshot_refs_def
proof (rule hoare_bind [OF get_bytes_hoare [OF assms(1), of ob]])
  fix r
  show "hoare (\<lambda>s. objs s = ob \<and> map_option fst r = ob (snapshot_chunks_key c sid))
      (case r of None \<Rightarrow> err_op (Other (''snapshot '' @ sid @ '' chunks.bin missing''))
       | Some (bytes, u) \<Rightarrow> of_result (read_chunks_bin bytes))
      (\<lambda>refs s. objs s = ob \<and> index_marked c ob sid (map cr_hash refs)) (\<lambda>s. objs s = ob)"
  proof (cases r)
    case (Some p)
    then show ?thesis
      using assms(2)
      by (cases p; cases "read_chunks_bin (fst p)")
        (auto simp: hoare_def of_result_def index_marked_def gc_parsable_def dest: sym)
  qed (auto simp: hoare_def err_op_def)
qed

lemma mark_snapshot_hoare:
  assumes "get_law E objs" and "gc_parsable c ob"
  shows "hoare (\<lambda>s. objs s = ob) (mark_snapshot E c ref m) (\<lambda>ref' s. objs s = ob \<and> set ref \<subseteq> set ref' \<and>
      (reads_succeed E objs \<longrightarrow> index_marked c ob (sm_id m) ref')) (\<lambda>_. False)"
  unfolding hoare_def
proof (intro allI impI)
  fix s assume s: "objs s = ob"
  obtain r s' where l: "load_snapshot_refs E c (sm_id m) s = (r, s')" by fastforce
  note R = hoareD [OF load_refs_any_hoare [OF assms] s l]
  have bad: "index_marked c ob (sm_id m) ref" if ok: "reads_succeed E objs" and err: "r = Err e" for e
    unfolding index_marked_def
  proof (intro allI impI)
    fix bin refs assume k: "ob (snapshot_chunks_key c (sm_id m)) = Some bin" "read_chunks_bin bin = Ok refs"
    obtain t where t: "fst (e_get E (snapshot_chunks_key c (sm_id m)) s) = Done (GetOk bin t)"
      using ok k(1) s unfolding reads_succeed_def by blast
    then have "load_snapshot_refs E c (sm_id m) s = (Ok refs, snd (e_get E (snapshot_chunks_key c (sm_id m)) s))"
      using k(2) by (cases "e_get E (snapshot_chunks_key c (sm_id m)) s")
        (simp add: load_snapshot_refs_def bind_op_def get_bytes_def of_result_def)
    with l err show "cr_hash ` set refs \<subseteq> set ref" by simp
  qed
  show "post (\<lambda>ref' s. objs s = ob \<and> set ref \<subseteq> set ref' \<and>
      (reads_succeed E objs \<longrightarrow> index_marked c ob (sm_id m) ref')) (\<lambda>_. False) (mark_snapshot E c ref m s)"
    using R bad l by (cases r) (auto simp: mark_snapshot_def elim: index_marked_mono)
qed

lemma mark_snapshots_fold:
  assumes "get_law E objs" and "gc_parsable c ob"
  shows "hoare (\<lambda>s. objs s = ob) (fold_op (mark_snapshot E c) ref ms) (\<lambda>ref' s. objs s = ob \<and> set ref \<subseteq> set ref' \<and>
      (reads_succeed E objs \<longrightarrow> (\<forall>m \<in> set ms. index_marked c ob (sm_id m) ref'))) (\<lambda>s. objs s = ob)"
proof -
  let ?I = "\<lambda>ys ref' s. objs s = ob \<and> set ref \<subseteq> set ref' \<and>
      (reads_succeed E objs \<longrightarrow> (\<forall>m \<in> set (ys :: snapshot_manifest list). index_marked c ob (sm_id m) ref'))"
  have "hoare (?I [] ref) (fold_op (mark_snapshot E c) ref ms) (?I ms) (\<lambda>s. objs s = ob)"
  proof (rule fold_op_hoare [where I = ?I])
    fix b x ys zs
    show "hoare (?I ys b) (mark_snapshot E c b x) (?I (ys @ [x])) (\<lambda>s. objs s = ob)"
    proof (rule hoare_state)
      fix s0 assume s0: "?I ys b s0"
      show "hoare (\<lambda>s. s = s0) (mark_snapshot E c b x) (?I (ys @ [x])) (\<lambda>s. objs s = ob)"
        by (rule hoare_conseq [OF mark_snapshot_hoare [OF assms, of b x]])
          (use s0 index_marked_mono in \<open>auto simp: ball_Un\<close>)
    qed
  qed
  then show ?thesis by simp
qed

lemma load_manifests_fold:
  assumes "get_law E objs"
  shows "hoare (\<lambda>s. objs s = ob) (fold_op (load_manifest E) [] ks) (\<lambda>ms s. objs s = ob \<and>
      (\<forall>k \<in> set ks. \<forall>b m. ob k = Some b \<longrightarrow> e_man_dec E b = Inr m \<longrightarrow> m \<in> set ms)) (\<lambda>s. objs s = ob)"
proof -
  let ?I = "\<lambda>ys ms s. objs s = ob \<and> (\<forall>k \<in> set ys. \<forall>b m. ob k = Some b \<longrightarrow> e_man_dec E b = Inr m \<longrightarrow> m \<in> set ms)"
  have "hoare (?I [] []) (fold_op (load_manifest E) [] ks) (?I ks) (\<lambda>s. objs s = ob)"
  proof (rule fold_op_hoare [where I = ?I])
    fix ms x ys zs
    have get: "hoare (?I ys ms) (get_bytes E x) (\<lambda>r s. ?I ys ms s \<and> map_option fst r = ob x) (\<lambda>s. objs s = ob)"
      using get_bytes_hoare [OF assms, of ob x] by (auto simp: hoare_def elim: post_mono)
    show "hoare (?I ys ms) (load_manifest E ms x) (?I (ys @ [x])) (\<lambda>s. objs s = ob)"
      unfolding load_manifest_def
    proof (rule hoare_bind [OF get])
      fix r
      show "hoare (\<lambda>s. ?I ys ms s \<and> map_option fst r = ob x)
          (case r of None \<Rightarrow> ret_op ms
           | Some (bytes, u) \<Rightarrow> bind_op (of_result (man_parse E bytes)) (\<lambda>m. ret_op (ms @ [m])))
          (?I (ys @ [x])) (\<lambda>s. objs s = ob)"
      proof (cases r)
        case (Some p)
        then show ?thesis
          by (cases p; cases "e_man_dec E (fst p)")
            (auto simp: hoare_def man_parse_def ret_op_def err_op_def dest: sym)
      qed (auto simp: hoare_def ret_op_def)
    qed
  qed
  then show ?thesis by simp
qed

lemma manifest_key_suffix: "ends_with ''/manifest.json'' (snapshot_manifest_key c sid)"
  by (simp add: ends_with_def snapshot_manifest_key_def)

lemma snapshot_list_hoare:
  assumes L: "s3_laws E objs" and c: "s3_storage c = Cow"
  shows "hoare (\<lambda>s. objs s = ob) (snapshot_list E c) (\<lambda>ms s. objs s = ob \<and>
      (\<forall>sid b m. ob (snapshot_manifest_key c sid) = Some b \<longrightarrow> e_man_dec E b = Inr m \<longrightarrow> m \<in> set ms)) (\<lambda>s. objs s = ob)"
  unfolding snapshot_list_def
proof (rule require_cow_hoare, rule hoare_bind [OF list_objects_hoare [OF s3_lawsD(4) [OF L], of ob "s3_prefix c @ ''/snapshots/''"]])
  fix os
  let ?p = "s3_prefix c @ ''/snapshots/''"
  let ?ks = "filter (ends_with ''/manifest.json'') (map (\<lambda>x. case o_key x of Some k \<Rightarrow> k | None \<Rightarrow> []) os)"
  let ?L = "\<lambda>s. objs s = ob \<and> None \<notin> o_key ` set os \<and> Some -` (o_key ` set os) = {k. ob k \<noteq> None \<and> is_prefix ?p k}"
  have keys: "snapshot_manifest_key c sid \<in> set ?ks"
    if "Some -` (o_key ` set os) = {k. ob k \<noteq> None \<and> is_prefix ?p k}" "ob (snapshot_manifest_key c sid) = Some b" for sid b
  proof -
    have "snapshot_manifest_key c sid \<in> Some -` (o_key ` set os)"
      unfolding that(1) using that(2) by simp
    then obtain x where "x \<in> set os" "o_key x = Some (snapshot_manifest_key c sid)" by auto
    then show ?thesis
      using manifest_key_suffix [of c sid] by (auto intro!: image_eqI [where x = x])
  qed
  have fold: "hoare ?L (fold_op (load_manifest E) [] ?ks) (\<lambda>ms s. objs s = ob \<and>
      (\<forall>sid b m. ob (snapshot_manifest_key c sid) = Some b \<longrightarrow> e_man_dec E b = Inr m \<longrightarrow> m \<in> set ms)) (\<lambda>s. objs s = ob)"
  proof (rule hoare_state)
    fix s0 assume s0: "?L s0"
    then have ks: "ob (snapshot_manifest_key c sid) = Some b \<Longrightarrow> snapshot_manifest_key c sid \<in> set ?ks" for sid b
      using keys by blast
    show "hoare (\<lambda>s. s = s0) (fold_op (load_manifest E) [] ?ks) (\<lambda>ms s. objs s = ob \<and>
      (\<forall>sid b m. ob (snapshot_manifest_key c sid) = Some b \<longrightarrow> e_man_dec E b = Inr m \<longrightarrow> m \<in> set ms)) (\<lambda>s. objs s = ob)"
      by (rule hoare_conseq [OF load_manifests_fold [OF s3_lawsD(1) [OF L], of ob ?ks]]) (use s0 ks in blast)+
  qed
  show "hoare ?L (bind_op (fold_op (load_manifest E) [] ?ks) (\<lambda>out. ret_op (sort_key sm_id out))) (\<lambda>ms s. objs s = ob \<and>
      (\<forall>sid b m. ob (snapshot_manifest_key c sid) = Some b \<longrightarrow> e_man_dec E b = Inr m \<longrightarrow> m \<in> set ms)) (\<lambda>s. objs s = ob)"
    by (rule hoare_bind [OF fold]) (auto intro!: hoare_ret)
qed simp

section \<open>Sweeping\<close>

definition swept :: "s3_conf \<Rightarrow> hash list \<Rightarrow> (string \<rightharpoonup> bytes) \<Rightarrow> (string \<rightharpoonup> bytes) \<Rightarrow> bool" where
  "swept c ref ob ob' \<longleftrightarrow>
     (\<forall>k. ob' k = ob k \<or> ob' k = None \<and>
        (\<exists>rel h. k = s3_prefix c @ ''/objects/'' @ rel \<and> hash_from_object_relpath rel = Ok (Some h) \<and> h \<notin> set ref))"

lemma swept_refl [simp]: "swept c ref ob ob"
  by (simp add: swept_def)

lemma swept_keeps:
  assumes "swept c ref ob ob'"
  shows "length h = hash_len \<Longrightarrow> h \<in> set ref \<Longrightarrow> ob' (object_key c h) = ob (object_key c h)"
    and "snap_key c k \<Longrightarrow> ob' k = ob k" and "s3_storage c = Cow \<Longrightarrow> ob' (chunk_key c i) = ob (chunk_key c i)"
    and "ob' k = None \<or> ob' k = ob k"
proof -
  note S = assms [unfolded swept_def, rule_format]
  show "length h = hash_len \<Longrightarrow> h \<in> set ref \<Longrightarrow> ob' (object_key c h) = ob (object_key c h)"
    using S [of "object_key c h"] hash_from_object_relpath_inverse [of h] by (auto simp: object_key_def)
  show "snap_key c k \<Longrightarrow> ob' k = ob k"
    using S [of k] by (auto simp: snap_key_def is_prefix_iff)
  show "s3_storage c = Cow \<Longrightarrow> ob' (chunk_key c i) = ob (chunk_key c i)"
    using S [of "chunk_key c i"] by (auto simp: cow_chunk_key)
  show "ob' k = None \<or> ob' k = ob k"
    using S [of k] by blast
qed

lemma sweep_key_hoare:
  assumes "delete_law E objs" and "gc_parsable c ob" and "is_prefix (s3_prefix c @ ''/objects/'') k" and "ob k \<noteq> None"
  shows "hoare (\<lambda>s. swept c ref ob (objs s)) (sweep_key E (s3_prefix c @ ''/objects/'') ref n k)
    (\<lambda>_ s. swept c ref ob (objs s)) (\<lambda>s. swept c ref ob (objs s))"
proof -
  let ?S = "\<lambda>s. swept c ref ob (objs s)"
  obtain rel where k: "k = s3_prefix c @ ''/objects/'' @ rel"
    using assms(3) by (auto simp: is_prefix_iff)
  then have "strip_prefix (s3_prefix c @ ''/objects/'') k = Some rel"
    by (simp add: strip_prefix_Some)
  moreover have np: "hash_from_object_relpath rel \<noteq> Panic"
    using assms(2,4) k by (auto simp: gc_parsable_def)
  moreover have "hoare ?S (delete_object_key E k) (\<lambda>_. ?S) ?S"
    if h: "hash_from_object_relpath rel = Ok (Some h)" "h \<notin> set ref" for h
  proof (rule hoare_state)
    fix s0 assume s0: "?S s0"
    have "swept c ref ob ((objs s0)(k := None))"
      using s0 h k unfolding swept_def by auto
    then show "hoare (\<lambda>s. s = s0) (delete_object_key E k) (\<lambda>_. ?S) ?S"
      by (intro hoare_conseq [OF delete_object_hoare [OF assms(1), of "objs s0"]]) (use s0 in auto)
  qed
  ultimately show ?thesis
    by (cases "hash_from_object_relpath rel")
      (auto simp: sweep_key_def split: option.splits intro!: hoare_ret hoare_err intro: hoare_bind)
qed

lemma sweep_fold:
  assumes "delete_law E objs" and "gc_parsable c ob" and "set ks = {k. ob k \<noteq> None \<and> is_prefix (s3_prefix c @ ''/objects/'') k}"
  shows "hoare (\<lambda>s. swept c ref ob (objs s)) (fold_op (sweep_key E (s3_prefix c @ ''/objects/'') ref) 0 ks)
    (\<lambda>_ s. swept c ref ob (objs s)) (\<lambda>s. swept c ref ob (objs s))"
  by (rule fold_op_inv, rule sweep_key_hoare) (use assms in auto)

text \<open>What a collection leaves: everything but pool objects that nothing marked.\<close>

definition marked :: "('s, 'm) s3_env_scheme \<Rightarrow> ('s \<Rightarrow> string \<rightharpoonup> bytes) \<Rightarrow> s3_conf \<Rightarrow> (string \<rightharpoonup> bytes) \<Rightarrow> hash list \<Rightarrow> bool" where
  "marked E objs c ob ref \<longleftrightarrow>
     (\<forall>i h. is_index i \<longrightarrow> ptr_of c ob i = Some h \<longrightarrow> h \<in> set ref) \<and>
     (reads_succeed E objs \<longrightarrow>
       (\<forall>sid b m. ob (snapshot_manifest_key c sid) = Some b \<longrightarrow> e_man_dec E b = Inr m \<longrightarrow> index_marked c ob (sm_id m) ref))"

definition collected_to :: "('s, 'm) s3_env_scheme \<Rightarrow> ('s \<Rightarrow> string \<rightharpoonup> bytes) \<Rightarrow> s3_conf \<Rightarrow> (string \<rightharpoonup> bytes) \<Rightarrow> 's \<Rightarrow> bool" where
  "collected_to E objs c ob s \<longleftrightarrow> (\<exists>ref. marked E objs c ob ref \<and> swept c ref ob (objs s)) \<or> objs s = ob"

lemma gc_core_hoare:
  assumes L: "s3_laws E objs" and p: "gc_parsable c ob"
  shows "hoare (\<lambda>s. objs s = ob) (gc_unreferenced_objects E c) (\<lambda>_. collected_to E objs c ob) (collected_to E objs c ob)"
proof -
  let ?P = "s3_prefix c @ ''/objects/''" and ?F = "collected_to E objs c ob"
  let ?live = "\<lambda>ref. \<forall>i h. is_index i \<longrightarrow> ptr_of c ob i = Some h \<longrightarrow> h \<in> set ref"
  have sweep: "hoare (\<lambda>s. objs s = ob \<and> marked E objs c ob ref) (bind_op (list_keys E ?P) (\<lambda>keys.
     bind_op (fold_op (sweep_key E ?P ref) 0 keys) (\<lambda>deleted.
       ret_op \<lparr>gc_objects_deleted = deleted, gc_objects_referenced = length (remdups ref)\<rparr>))) (\<lambda>_. ?F) ?F" for ref
  proof (cases "marked E objs c ob ref")
    case True
    have keys: "hoare (\<lambda>s. objs s = ob \<and> marked E objs c ob ref) (list_keys E ?P)
        (\<lambda>ks s. objs s = ob \<and> set ks = {k. ob k \<noteq> None \<and> is_prefix ?P k}) ?F"
      by (rule hoare_conseq [OF list_keys_hoare [OF s3_lawsD(4) [OF L], of ob ?P]]) (auto simp: collected_to_def)
    have "hoare (\<lambda>s. objs s = ob \<and> set ks = {k. ob k \<noteq> None \<and> is_prefix ?P k})
        (fold_op (sweep_key E ?P ref) 0 ks) (\<lambda>_. ?F) ?F" for ks
    proof (cases "set ks = {k. ob k \<noteq> None \<and> is_prefix ?P k}")
      case ks: True
      show ?thesis
        by (rule hoare_conseq [OF sweep_fold [OF s3_lawsD(3) [OF L] p ks, of ref]]) (use True in \<open>auto simp: collected_to_def\<close>)
    qed (simp add: hoare_def)
    then show ?thesis
      by (rule hoare_bind [OF keys hoare_bind]) (auto intro: hoare_ret)
  qed (simp add: hoare_def)
  let ?ms = "\<lambda>ms. \<forall>sid b m. ob (snapshot_manifest_key c sid) = Some b \<longrightarrow> e_man_dec E b = Inr m \<longrightarrow> m \<in> set ms"
  show ?thesis
    unfolding gc_unreferenced_objects_def present_at_def
  proof (rule require_cow_hoare)
    assume c: "s3_storage c = Cow"
    have list: "hoare (\<lambda>s. objs s = ob) (list_chunk_indices E (chunks_prefix c)) (\<lambda>xs s. objs s = ob \<and> set xs = listed c ob) ?F"
      by (rule hoare_conseq [OF list_chunk_indices_hoare [OF s3_lawsD(4) [OF L], of ob c]])
        (auto simp: collected_to_def listed_def)
    have live: "hoare (\<lambda>s. objs s = ob \<and> set xs = listed c ob) (fold_op (mark_live E c) [] xs) (\<lambda>ref s. objs s = ob \<and> ?live ref) ?F" for xs
    proof (cases "set xs = listed c ob")
      case True
      show ?thesis
        by (rule hoare_conseq [OF mark_live_fold [OF s3_lawsD(1) [OF L], of ob c xs]])
          (use True ptr_of_listed [OF c] in \<open>auto simp: collected_to_def\<close>)
    qed (simp add: hoare_def)
    have ms: "hoare (\<lambda>s. objs s = ob \<and> ?live ref) (snapshot_list E c) (\<lambda>ms s. objs s = ob \<and> ?live ref \<and> ?ms ms) ?F" for ref
    proof (cases "?live ref")
      case True
      show ?thesis
        by (rule hoare_conseq [OF snapshot_list_hoare [OF L c, of ob]]) (use True in \<open>auto simp: collected_to_def\<close>)
    qed (auto simp: hoare_def)
    have mark: "hoare (\<lambda>s. objs s = ob \<and> ?live ref \<and> ?ms ms) (fold_op (mark_snapshot E c) ref ms)
        (\<lambda>ref' s. objs s = ob \<and> marked E objs c ob ref') ?F" for ref ms
    proof (cases "?live ref \<and> ?ms ms")
      case True
      show ?thesis
        by (rule hoare_conseq [OF mark_snapshots_fold [OF s3_lawsD(1) [OF L] p, of ref ms]])
          (use True in \<open>auto simp: collected_to_def marked_def subset_iff\<close>)
    qed (auto simp: hoare_def)
    show "hoare (\<lambda>s. objs s = ob) (bind_op (list_chunk_indices E (chunks_prefix c)) (\<lambda>live.
     bind_op (fold_op (mark_live E c) [] live) (\<lambda>ref1.
     bind_op (snapshot_list E c) (\<lambda>ms.
     bind_op (fold_op (mark_snapshot E c) ref1 ms) (\<lambda>referenced.
     bind_op (list_keys E ?P) (\<lambda>keys.
     bind_op (fold_op (sweep_key E ?P referenced) 0 keys) (\<lambda>deleted.
       ret_op \<lparr>gc_objects_deleted = deleted, gc_objects_referenced = length (remdups referenced)\<rparr>))))))) (\<lambda>_. ?F) ?F"
      by (rule hoare_bind [OF list], rule hoare_bind [OF live], rule hoare_bind [OF ms], rule hoare_bind [OF mark], rule sweep)
  qed (simp add: collected_to_def)
qed

section \<open>What a collection keeps\<close>

lemma gc_hoare:
  assumes L: "s3_laws E objs" and c: "s3_storage c = Cow"
  shows "hoare (\<lambda>s. svc_rep E objs c U d s \<and> gc_parsable c (objs s)) (gc_unreferenced_objects E c)
    (\<lambda>_. svc_rep E objs c U d) (svc_rep E objs c U d)"
proof (rule hoare_state)
  fix s0 assume s0: "svc_rep E objs c U d s0 \<and> gc_parsable c (objs s0)"
  let ?ob = "objs s0"
  have keep: "svc_rep E objs c U d s" if "collected_to E objs c ?ob s" for s
    using that unfolding collected_to_def
  proof (elim disjE exE conjE)
    fix ref assume m: "marked E objs c ?ob ref" and sw: "swept c ref ?ob (objs s)"
    note K = swept_keeps [OF sw]
    have "chunk_value E c (objs s) i = chunk_value E c ?ob i" if "is_index i" for i
    proof -
      have "objs s (object_key c h) = ?ob (object_key c h)" if "ptr_of c ?ob i = Some h" for h
        using K(1) [OF ptr_of_length [OF that]] m that \<open>is_index i\<close> by (simp add: marked_def)
      then show ?thesis
        by (auto simp: chunk_value_def c K(3) ptr_of_def split: option.splits result.splits)
    qed
    moreover have "pool_ok E c U (objs s)"
      using s0 K(4) unfolding svc_rep_def pool_ok_def by (metis option.distinct(1))
    ultimately show ?thesis
      using s0 by (simp add: svc_rep_def chunks_hold_def)
  qed (use s0 in \<open>simp add: svc_rep_def\<close>)
  show "hoare (\<lambda>s. s = s0) (gc_unreferenced_objects E c) (\<lambda>_. svc_rep E objs c U d) (svc_rep E objs c U d)"
    by (rule hoare_conseq [OF gc_core_hoare [OF L, of c ?ob]]) (use s0 keep in auto)
qed

lemma gc_snapshot_hoare:
  assumes L: "s3_laws E objs" and ok: "reads_succeed E objs"
  shows "hoare (\<lambda>s. gc_parsable c (objs s) \<and> snapshot_holds E c (objs s) sid m ds) (gc_unreferenced_objects E c)
    (\<lambda>_ s. snapshot_holds E c (objs s) sid m ds) (\<lambda>s. snapshot_holds E c (objs s) sid m ds)"
proof (rule hoare_state)
  fix s0 assume s0: "gc_parsable c (objs s0) \<and> snapshot_holds E c (objs s0) sid m ds"
  let ?ob = "objs s0"
  obtain mb bin refs where S: "?ob (snapshot_manifest_key c sid) = Some mb" "e_man_dec E mb = Inr m" "sm_id m = sid"
      "?ob (snapshot_chunks_key c sid) = Some bin" "read_chunks_bin bin = Ok refs" "refs_hold E c ?ob refs ds"
    using s0 by (auto simp: snapshot_holds_def)
  have keep: "snapshot_holds E c (objs s) sid m ds" if "collected_to E objs c ?ob s" for s
    using that unfolding collected_to_def
  proof (elim disjE exE conjE)
    fix ref assume mk: "marked E objs c ?ob ref" and sw: "swept c ref ?ob (objs s)"
    note K = swept_keeps [OF sw]
    have hashes: "cr_hash ` set refs \<subseteq> set ref"
      using mk ok S unfolding marked_def index_marked_def by blast
    have "ref_value E c (objs s) (refs_map refs i) = ref_value E c ?ob (refs_map refs i)" for i
    proof (cases "refs_map refs i")
      case (Some h)
      have "length h = hash_len"
        using refs_map_wf [OF _ Some] S(6) by (simp add: refs_hold_def)
      moreover have "h \<in> set ref"
        using Some hashes by (auto simp: refs_map_def image_subset_iff dest!: map_of_SomeD)
      ultimately show ?thesis
        using K(1) by (simp add: ref_value_def Some)
    qed (simp add: ref_value_def)
    then have "refs_hold E c (objs s) refs ds"
      using S(6) by (simp add: refs_hold_def)
    then show ?thesis
      using s0 S K(2) [OF snap_key_keys(1)] K(2) [OF snap_key_keys(2)] unfolding snapshot_holds_def by auto
  qed (use s0 in simp)
  show "hoare (\<lambda>s. s = s0) (gc_unreferenced_objects E c)
    (\<lambda>_ s. snapshot_holds E c (objs s) sid m ds) (\<lambda>s. snapshot_holds E c (objs s) sid m ds)"
    by (rule hoare_conseq [OF gc_core_hoare [OF L, of c ?ob]]) (use s0 keep in auto)
qed

end
