(* ===== verification/MigrateRefine.thy ===== *)
theory MigrateRefine
  imports GcRefine
begin

text \<open>
  Migration from the legacy to the copy-on-write layout. \<open>mig_value\<close> is the content of a chunk of a
  volume that may be half migrated: the legacy object if there is one, else what the pointer says.
  A run that returns \<open>Ok\<close> leaves a copy-on-write volume with the same disk. A run that fails leaves
  a half-migrated volume with the same disk, from which the next run continues, provided no chunk
  has both a sharded and a flat legacy object.
\<close>

definition cow_of :: "s3_conf \<Rightarrow> s3_conf" where
  "cow_of c = c\<lparr>s3_storage := Cow\<rparr>"

lemma cow_of_simps [simp]:
  "s3_storage (cow_of c) = Cow" "s3_chunk_size (cow_of c) = s3_chunk_size c" "object_key (cow_of c) h = object_key c h"
  "legacy_chunk_key (cow_of c) i = legacy_chunk_key c i" "legacy_flat_chunk_key (cow_of c) i = legacy_flat_chunk_key c i"
  "chunk_key (cow_of c) i = live_pointer_key c i" "decoded E (cow_of c) b = decoded E c b"
  "s3_prefix (cow_of c) = s3_prefix c" "s3_compression (cow_of c) = s3_compression c"
  by (simp_all add: cow_of_def key_defs chunk_key_def chunks_prefix_def live_pointer_key_def decoded_def)

definition mig_value :: "('s, 'm) s3_env_scheme \<Rightarrow> s3_conf \<Rightarrow> (string \<rightharpoonup> bytes) \<Rightarrow> nat \<Rightarrow> bytes option" where
  "mig_value E c ob i =
     (case ob (legacy_chunk_key c i) of
        Some b \<Rightarrow> decoded E c b
      | None \<Rightarrow>
          (case ob (legacy_flat_chunk_key c i) of
             Some b \<Rightarrow> decoded E c b
           | None \<Rightarrow> chunk_value E (cow_of c) ob i))"

definition wanted :: "s3_conf \<Rightarrow> (nat \<Rightarrow> byte) \<Rightarrow> nat \<Rightarrow> bytes" where
  "wanted c d i = disk_read d (i * s3_chunk_size c) (s3_chunk_size c)"

definition single_copy :: "s3_conf \<Rightarrow> (string \<rightharpoonup> bytes) \<Rightarrow> bool" where
  "single_copy c ob \<longleftrightarrow>
     (\<forall>i. is_index i \<longrightarrow> ob (legacy_chunk_key c i) = None \<or> ob (legacy_flat_chunk_key c i) = None)"

definition bodies_in :: "s3_conf \<Rightarrow> bytes set \<Rightarrow> (string \<rightharpoonup> bytes) \<Rightarrow> bool" where
  "bodies_in c U ob \<longleftrightarrow>
     (\<forall>i b. is_index i \<longrightarrow> ob (legacy_chunk_key c i) = Some b \<or> ob (legacy_flat_chunk_key c i) = Some b \<longrightarrow> b \<in> U)"

text \<open>The state of a migration that has dealt with the indices \<open>ys\<close>.\<close>

definition migrating ::
  "('s, 'm) s3_env_scheme \<Rightarrow> s3_conf \<Rightarrow> bytes set \<Rightarrow> (nat \<Rightarrow> byte) \<Rightarrow> nat set \<Rightarrow> (string \<rightharpoonup> bytes) \<Rightarrow> bool" where
  "migrating E c U d ys ob \<longleftrightarrow>
     pool_ok E (cow_of c) U ob \<and> bodies_in c U ob \<and>
     (\<forall>i \<in> ys. is_index i \<longrightarrow> chunk_value E (cow_of c) ob i = Some (wanted c d i)) \<and>
     (\<forall>i. is_index i \<longrightarrow> i \<notin> ys \<longrightarrow> mig_value E c ob i = Some (wanted c d i))"

text \<open>From which a later run can continue.\<close>

definition resumable ::
  "('s, 'm) s3_env_scheme \<Rightarrow> s3_conf \<Rightarrow> bytes set \<Rightarrow> (nat \<Rightarrow> byte) \<Rightarrow> (string \<rightharpoonup> bytes) \<Rightarrow> bool" where
  "resumable E c U d ob \<longleftrightarrow> migrating E c U d {} ob \<and> single_copy c ob"

lemma mig_keys [simp]:
  "is_index i \<Longrightarrow> is_index j \<Longrightarrow> live_pointer_key c i = live_pointer_key c j \<longleftrightarrow> i = j"
  "live_pointer_key c i \<noteq> object_key c h" "object_key c h \<noteq> live_pointer_key c i"
  "live_pointer_key c i \<noteq> legacy_chunk_key c j" "live_pointer_key c i \<noteq> legacy_flat_chunk_key c j"
  "legacy_chunk_key c j \<noteq> live_pointer_key c i" "legacy_flat_chunk_key c j \<noteq> live_pointer_key c i"
  "legacy_chunk_key c j \<noteq> object_key c h" "legacy_flat_chunk_key c j \<noteq> object_key c h"
  "object_key c h \<noteq> legacy_chunk_key c j" "object_key c h \<noteq> legacy_flat_chunk_key c j"
  by (auto simp: live_pointer_key_def key_defs)

text \<open>Adding the object, then the pointer, then removing legacy objects.\<close>

lemma mig_put_object:
  assumes "migrating E c U d ys ob" and "inj_on (e_blake3 E) U" and "b \<in> U" and "length (e_blake3 E b) = hash_len"
  shows "migrating E c U d ys (ob(object_key c (e_blake3 E b) \<mapsto> b))"
proof -
  let ?ob = "ob(object_key c (e_blake3 E b) \<mapsto> b)"
  have pool: "pool_ok E (cow_of c) U ob" using assms(1) by (simp add: migrating_def)
  note A = pool_add [of "cow_of c", OF cow_of_simps(1) pool assms(2,3,4), simplified]
  have cow: "chunk_value E (cow_of c) ob j = Some v \<Longrightarrow> chunk_value E (cow_of c) ?ob j = Some v" if "is_index j" for j v
    using A(2) that by (simp add: keeps_chunks_def)
  have "mig_value E c ob j = Some v \<Longrightarrow> mig_value E c ?ob j = Some v" if "is_index j" for j v
    using cow [OF that] by (auto simp: mig_value_def split: option.splits)
  then show ?thesis
    using assms(1) A(1) cow by (simp add: migrating_def bodies_in_def)
qed

lemma mig_put_pointer:
  assumes m: "migrating E c U d ys ob" and i: "is_index i" and ob: "ob (object_key c h) = Some b" "length h = hash_len"
    and v: "decoded E c b = Some (wanted c d i)"
  shows "migrating E c U d (insert i ys) (ob(live_pointer_key c i \<mapsto> encode_pointer h))"
    and "ob (legacy_chunk_key c i) \<noteq> None \<or> ob (legacy_flat_chunk_key c i) \<noteq> None \<Longrightarrow> i \<notin> ys \<Longrightarrow>
      migrating E c U d ys (ob(live_pointer_key c i \<mapsto> encode_pointer h))"
proof -
  let ?ob = "ob(live_pointer_key c i \<mapsto> encode_pointer h)"
  have dec: "decode_pointer (encode_pointer h) = Ok h" using ob(2) by (rule decode_encode_pointer)
  have own: "chunk_value E (cow_of c) ?ob i = Some (wanted c d i)"
    using ob v dec by (simp add: chunk_value_def)
  have other: "chunk_value E (cow_of c) ?ob j = chunk_value E (cow_of c) ob j" if "is_index j" "j \<noteq> i" for j
    using i that by (auto simp: chunk_value_def split: option.splits result.splits)
  have mig: "mig_value E c ?ob j = mig_value E c ob j" if "is_index j" "j \<noteq> i" for j
    using other [OF that] by (simp add: mig_value_def split: option.split)
  have migi: "mig_value E c ?ob i = mig_value E c ob i"
    if "ob (legacy_chunk_key c i) \<noteq> None \<or> ob (legacy_flat_chunk_key c i) \<noteq> None"
    using that by (auto simp: mig_value_def split: option.split)
  have pool: "pool_ok E (cow_of c) U ?ob" and bod: "bodies_in c U ?ob"
    using m by (simp_all add: migrating_def pool_ok_def bodies_in_def)
  have "chunk_value E (cow_of c) ?ob j = Some (wanted c d j)" if "is_index j" "j \<in> insert i ys" for j
    using m own other that by (cases "j = i") (simp_all add: migrating_def)
  moreover have "mig_value E c ?ob j = Some (wanted c d j)" if "is_index j" "j \<notin> insert i ys" for j
    using m mig that by (simp add: migrating_def)
  ultimately show "migrating E c U d (insert i ys) ?ob"
    using pool bod unfolding migrating_def by blast
  show "migrating E c U d ys ?ob"
    if "ob (legacy_chunk_key c i) \<noteq> None \<or> ob (legacy_flat_chunk_key c i) \<noteq> None" "i \<notin> ys"
    using m migi [OF that(1)] that(2) other mig pool bod i unfolding migrating_def by metis
qed

lemma mig_delete:
  assumes m: "migrating E c U d ys ob" and i: "is_index i" "i \<in> ys" and k: "k = legacy_chunk_key c i \<or> k = legacy_flat_chunk_key c i"
  shows "migrating E c U d ys (ob(k := None))"
proof -
  have "chunk_value E (cow_of c) (ob(k := None)) j = chunk_value E (cow_of c) ob j" for j
    using k by (auto simp: chunk_value_def split: option.split result.split)
  moreover have "mig_value E c (ob(k := None)) j = mig_value E c ob j" if "is_index j" "j \<noteq> i" for j
    using k i(1) that calculation by (auto simp: mig_value_def split: option.split)
  moreover have "pool_ok E (cow_of c) U (ob(k := None))"
    using m k by (auto simp: migrating_def pool_ok_def)
  moreover have "bodies_in c U (ob(k := None))"
    using m k by (auto simp: migrating_def bodies_in_def)
  ultimately show ?thesis
    using m i unfolding migrating_def by metis
qed

text \<open>With one legacy object per chunk, removing it uncovers the pointer that replaced it.\<close>

lemma migrating_uncover:
  assumes m: "migrating E c U d {i} ob" and "ob (legacy_chunk_key c i) = None" "ob (legacy_flat_chunk_key c i) = None"
  shows "migrating E c U d {} ob"
  using assms unfolding migrating_def by (auto simp: mig_value_def)

lemma resumable_delete:
  assumes r: "resumable E c U d ob" and i: "is_index i" and v: "chunk_value E (cow_of c) ob i = Some (wanted c d i)"
    and k: "k = legacy_chunk_key c i \<or> k = legacy_flat_chunk_key c i"
  shows "resumable E c U d (ob(k := None))"
proof (cases "ob k")
  case None
  then have "ob(k := None) = ob" by auto
  with r show ?thesis by simp
next
  case (Some b)
  have "migrating E c U d {i} ob"
    using r v by (auto simp: resumable_def migrating_def)
  then have m: "migrating E c U d {i} (ob(k := None))"
    by (rule mig_delete [OF _ i _ k]) simp
  have "(ob(k := None)) (legacy_chunk_key c i) = None" "(ob(k := None)) (legacy_flat_chunk_key c i) = None"
    using r Some k i by (auto simp: resumable_def single_copy_def)
  then have "migrating E c U d {} (ob(k := None))"
    by (rule migrating_uncover [OF m])
  moreover have "single_copy c (ob(k := None))"
    using r by (auto simp: resumable_def single_copy_def)
  ultimately show ?thesis by (simp add: resumable_def)
qed

section \<open>One chunk\<close>

definition legacy_within :: "s3_conf \<Rightarrow> nat set \<Rightarrow> (string \<rightharpoonup> bytes) \<Rightarrow> bool" where
  "legacy_within c L ob \<longleftrightarrow>
     (\<forall>i. is_index i \<longrightarrow> i \<notin> L \<longrightarrow> ob (legacy_chunk_key c i) = None \<and> ob (legacy_flat_chunk_key c i) = None)"

definition mig_state ::
  "('s, 'm) s3_env_scheme \<Rightarrow> s3_conf \<Rightarrow> bytes set \<Rightarrow> (nat \<Rightarrow> byte) \<Rightarrow> bool \<Rightarrow> nat set \<Rightarrow> nat set \<Rightarrow> (string \<rightharpoonup> bytes) \<Rightarrow> bool" where
  "mig_state E c U d sc L ys ob \<longleftrightarrow>
     migrating E c U d ys ob \<and> legacy_within c L ob \<and> (sc \<longrightarrow> resumable E c U d ob)"

lemma mig_state_object:
  assumes "mig_state E c U d sc L ys ob" and "inj_on (e_blake3 E) U" and "b \<in> U" and "length (e_blake3 E b) = hash_len"
  shows "mig_state E c U d sc L ys (ob(object_key c (e_blake3 E b) \<mapsto> b))"
  using assms mig_put_object [OF _ assms(2,3,4), of c d _ ob]
  by (simp add: mig_state_def resumable_def single_copy_def legacy_within_def)

lemma mig_state_pointer:
  assumes m: "mig_state E c U d sc L ys ob" and i: "is_index i" and ob: "ob (object_key c h) = Some b" "length h = hash_len"
    and v: "decoded E c b = Some (wanted c d i)" and some: "ob (legacy_chunk_key c i) \<noteq> None \<or> ob (legacy_flat_chunk_key c i) \<noteq> None"
  shows "mig_state E c U d sc L (insert i ys) (ob(live_pointer_key c i \<mapsto> encode_pointer h))"
  using m mig_put_pointer(1) [where ob = ob, OF _ i ob v, of U ys] mig_put_pointer(2) [where ob = ob, OF _ i ob v some, of U "{}"]
  by (simp add: mig_state_def resumable_def single_copy_def legacy_within_def)

lemma mig_state_delete:
  assumes m: "mig_state E c U d sc L ys ob" and i: "is_index i" "i \<in> ys"
    and k: "k = legacy_chunk_key c i \<or> k = legacy_flat_chunk_key c i"
  shows "mig_state E c U d sc L ys (ob(k := None))"
proof -
  have "chunk_value E (cow_of c) ob i = Some (wanted c d i)"
    using m i by (simp add: mig_state_def migrating_def)
  then have "sc \<longrightarrow> resumable E c U d (ob(k := None))"
    using m resumable_delete [OF _ i(1) _ k, of E U d ob] by (simp add: mig_state_def)
  moreover have "legacy_within c L (ob(k := None))"
    using m by (simp add: mig_state_def legacy_within_def)
  ultimately show ?thesis
    using m mig_delete [OF _ i k, of E U d ob] by (simp add: mig_state_def)
qed

lemma mig_state_skip:
  assumes "mig_state E c U d sc L ys ob" and "ob (legacy_chunk_key c i) = None" and "ob (legacy_flat_chunk_key c i) = None"
  shows "mig_state E c U d sc L (insert i ys) ob"
proof -
  have "mig_value E c ob i = chunk_value E (cow_of c) ob i"
    using assms(2,3) by (simp add: mig_value_def)
  then show ?thesis
    using assms(1) by (cases "i \<in> ys") (auto simp: mig_state_def migrating_def insert_absorb)
qed

lemma migrate_body_hoare:
  assumes "get_law E objs"
  shows "hoare (\<lambda>s. objs s = ob) (migrate_body E c i)
    (\<lambda>r s. objs s = ob \<and> r = (case ob (legacy_chunk_key c i) of Some b \<Rightarrow> Some b | None \<Rightarrow> ob (legacy_flat_chunk_key c i)))
    (\<lambda>s. objs s = ob)"
  unfolding migrate_body_def
proof (rule hoare_bind [OF get_bytes_hoare [OF assms, of ob]])
  fix r
  show "hoare (\<lambda>s. objs s = ob \<and> map_option fst r = ob (legacy_chunk_key c i))
      (case r of None \<Rightarrow> bind_op (get_bytes E (legacy_flat_chunk_key c i)) (\<lambda>r2. ret_op (map_option fst r2))
       | Some (body, u) \<Rightarrow> ret_op (Some body))
      (\<lambda>r s. objs s = ob \<and> r = (case ob (legacy_chunk_key c i) of Some b \<Rightarrow> Some b | None \<Rightarrow> ob (legacy_flat_chunk_key c i)))
      (\<lambda>s. objs s = ob)"
  proof (cases r)
    case None
    have "hoare (\<lambda>s. objs s = ob \<and> ob (legacy_chunk_key c i) = None) (get_bytes E (legacy_flat_chunk_key c i))
       (\<lambda>r2 s. objs s = ob \<and> ob (legacy_chunk_key c i) = None \<and> map_option fst r2 = ob (legacy_flat_chunk_key c i)) (\<lambda>s. objs s = ob)"
      using get_bytes_hoare [OF assms, of ob "legacy_flat_chunk_key c i"] by (auto simp: hoare_def elim: post_mono)
    then show ?thesis
      unfolding None option.case by (auto intro!: hoare_ret elim!: hoare_bind [OF hoare_pre])
  next
    case (Some p)
    then show ?thesis
      by (cases p) (auto simp: hoare_def ret_op_def dest: sym)
  qed
qed

lemma mig_body_value:
  assumes "mig_state E c U d sc L ys ob" and i: "is_index i" "i \<notin> ys"
    and b: "(case ob (legacy_chunk_key c i) of Some b \<Rightarrow> Some b | None \<Rightarrow> ob (legacy_flat_chunk_key c i)) = Some b"
  shows "b \<in> U" and "decoded E c b = Some (wanted c d i)"
proof -
  have "bodies_in c U ob" and v: "mig_value E c ob i = Some (wanted c d i)"
    using assms by (auto simp: mig_state_def migrating_def)
  then show "b \<in> U"
    using b i(1) by (cases "ob (legacy_chunk_key c i)") (auto simp: bodies_in_def)
  show "decoded E c b = Some (wanted c d i)"
    using v b by (cases "ob (legacy_chunk_key c i)") (auto simp: mig_value_def)
qed

lemma migrate_chunk_hoare:
  assumes L: "s3_laws E objs" and U: "inj_on (e_blake3 E) U" and i: "is_index i" "i \<notin> ys"
  shows "hoare (\<lambda>s. mig_state E c U d sc L' ys (objs s)) (migrate_chunk E c n i)
    (\<lambda>_ s. mig_state E c U d sc L' (insert i ys) (objs s)) (\<lambda>s. sc \<longrightarrow> resumable E c U d (objs s))"
    (is "hoare _ _ (\<lambda>_ s. ?T (objs s)) ?F")
proof (rule hoare_state)
  fix s0 assume s0: "mig_state E c U d sc L' ys (objs s0)"
  let ?ob = "objs s0"
  let ?body = "case ?ob (legacy_chunk_key c i) of Some b \<Rightarrow> Some b | None \<Rightarrow> ?ob (legacy_flat_chunk_key c i)"
  have F: "sc \<longrightarrow> resumable E c U d ob" if "mig_state E c U d sc L' zs ob" for ob zs
    using that by (simp add: mig_state_def)
  have del: "hoare (\<lambda>s. ?T (objs s)) (ignore_err (delete_object_key E k)) (\<lambda>_ s. ?T (objs s)) ?F"
    if k: "k = legacy_chunk_key c i \<or> k = legacy_flat_chunk_key c i" for k
  proof (rule hoare_state)
    fix s assume s: "?T (objs s)"
    show "hoare (\<lambda>t. t = s) (ignore_err (delete_object_key E k)) (\<lambda>_ s. ?T (objs s)) ?F"
      by (rule hoare_conseq [OF ignore_delete_hoare [OF s3_lawsD(3) [OF L], of "objs s"]])
        (use s mig_state_delete [OF s i(1) insertI1 k] in auto)
  qed
  have put: "hoare (\<lambda>s. objs s = ?ob)
      (bind_op (put_bytes E (object_key c (e_blake3 E b)) b None None) (\<lambda>_.
       bind_op (put_bytes E (live_pointer_key c i) (encode_pointer (e_blake3 E b)) None None) (\<lambda>_.
       bind_op (ignore_err (delete_object_key E (legacy_chunk_key c i))) (\<lambda>_.
       bind_op (ignore_err (delete_object_key E (legacy_flat_chunk_key c i))) (\<lambda>_. ret_op (n + 1)))))) (\<lambda>_ s. ?T (objs s)) ?F"
    if b: "?body = Some b" for b
  proof -
    let ?h = "e_blake3 E b"
    define ob1 where "ob1 = ?ob(object_key c ?h \<mapsto> b)"
    define ob2 where "ob2 = ob1(live_pointer_key c i \<mapsto> encode_pointer ?h)"
    note len = s3_lawsD(6) [OF L, of b]
    note bU = mig_body_value(1) [OF s0 i b] and v = mig_body_value(2) [OF s0 i b]
    have m1: "mig_state E c U d sc L' ys ob1"
      unfolding ob1_def by (rule mig_state_object [OF s0 U bU len])
    have m2: "?T ob2"
      unfolding ob2_def by (rule mig_state_pointer [OF m1 i(1) _ len v]) (use b in \<open>auto simp: ob1_def split: option.splits\<close>)
    have p1: "hoare (\<lambda>s. objs s = ?ob) (put_bytes E (object_key c ?h) b None None) (\<lambda>_ s. objs s = ob1) ?F"
      by (rule hoare_conseq [OF put_bytes_hoare [OF s3_lawsD(2) [OF L], of ?ob]]) (use F [OF s0] F [OF m1] in \<open>auto simp: ob1_def\<close>)
    have p2: "hoare (\<lambda>s. objs s = ob1) (put_bytes E (live_pointer_key c i) (encode_pointer ?h) None None) (\<lambda>_ s. ?T (objs s)) ?F"
      by (rule hoare_conseq [OF put_bytes_hoare [OF s3_lawsD(2) [OF L], of ob1 "live_pointer_key c i" "encode_pointer ?h" None None,
            folded ob2_def]]) (use F [OF m1] F [OF m2] m2 in auto)
    show ?thesis
      by (rule hoare_bind [OF p1], rule hoare_bind [OF p2], rule hoare_bind [OF del], simp, rule hoare_bind [OF del])
        (auto intro: hoare_ret)
  qed
  show "hoare (\<lambda>s. s = s0) (migrate_chunk E c n i) (\<lambda>_ s. ?T (objs s)) ?F"
    unfolding migrate_chunk_def
  proof (rule hoare_bind)
    show "hoare (\<lambda>s. s = s0) (migrate_body E c i) (\<lambda>r s. objs s = ?ob \<and> r = ?body) ?F"
      by (rule hoare_conseq [OF migrate_body_hoare [OF s3_lawsD(1) [OF L], of ?ob]]) (use F [OF s0] in auto)
    fix r
    show "hoare (\<lambda>s. objs s = ?ob \<and> r = ?body) (case r of None \<Rightarrow> ret_op n
     | Some body \<Rightarrow>
         (let h = e_blake3 E body in
          bind_op (put_bytes E (object_key c h) body None None) (\<lambda>_.
          bind_op (put_bytes E (live_pointer_key c i) (encode_pointer h) None None) (\<lambda>_.
          bind_op (ignore_err (delete_object_key E (legacy_chunk_key c i))) (\<lambda>_.
          bind_op (ignore_err (delete_object_key E (legacy_flat_chunk_key c i))) (\<lambda>_. ret_op (n + 1))))))) (\<lambda>_ s. ?T (objs s)) ?F"
    proof (cases r)
      case None
      have "?T ?ob" if "None = ?body"
        by (rule mig_state_skip [OF s0]) (use that in \<open>auto split: option.splits\<close>)
      then show ?thesis
        unfolding None option.case by (intro hoare_ret) simp
    next
      case (Some b)
      show ?thesis
        unfolding Some option.case Let_def
        by (cases "?body = Some b") (use put in \<open>auto simp: hoare_def\<close>)
    qed
  qed
qed

section \<open>The whole migration\<close>

text \<open>Keys that hold no chunk data in either layout.\<close>

definition quiet_key :: "s3_conf \<Rightarrow> string \<Rightarrow> bool" where
  "quiet_key c k \<longleftrightarrow>
     (\<forall>i. k \<noteq> legacy_chunk_key c i \<and> k \<noteq> legacy_flat_chunk_key c i \<and> k \<noteq> live_pointer_key c i) \<and> (\<forall>h. k \<noteq> object_key c h)"

lemma quiet_keys [simp]: "quiet_key c (migrating_key c)" "quiet_key c (live_meta_key c)" "quiet_key c (flat_meta_key c)"
  by (auto simp: quiet_key_def key_defs live_pointer_key_def)

lemma quiet_update:
  assumes "quiet_key c k"
  shows "mig_state E c U d sc L ys (ob(k := v)) \<longleftrightarrow> mig_state E c U d sc L ys ob"
    and "chunks_hold E (cow_of c) (ob(k := v)) d \<longleftrightarrow> chunks_hold E (cow_of c) ob d"
    and "pool_ok E (cow_of c) U (ob(k := v)) \<longleftrightarrow> pool_ok E (cow_of c) U ob"
proof -
  have keys: "(ob(k := v)) (legacy_chunk_key c i) = ob (legacy_chunk_key c i)"
    "(ob(k := v)) (legacy_flat_chunk_key c i) = ob (legacy_flat_chunk_key c i)"
    "(ob(k := v)) (live_pointer_key c i) = ob (live_pointer_key c i)" "(ob(k := v)) (object_key c h) = ob (object_key c h)" for i h
    using assms unfolding quiet_key_def by (metis fun_upd_other)+
  have cow: "chunk_value E (cow_of c) (ob(k := v)) i = chunk_value E (cow_of c) ob i" for i
    unfolding chunk_value_def cow_of_simps storage_mode.case keys ..
  show pool: "pool_ok E (cow_of c) U (ob(k := v)) \<longleftrightarrow> pool_ok E (cow_of c) U ob"
    unfolding pool_ok_def cow_of_simps keys ..
  show "chunks_hold E (cow_of c) (ob(k := v)) d \<longleftrightarrow> chunks_hold E (cow_of c) ob d"
    unfolding chunks_hold_def cow ..
  show "mig_state E c U d sc L ys (ob(k := v)) \<longleftrightarrow> mig_state E c U d sc L ys ob"
    unfolding mig_state_def migrating_def resumable_def single_copy_def legacy_within_def bodies_in_def mig_value_def
      keys cow pool ..
qed

lemma mig_state_start:
  assumes "migrating E c U d {} ob" and "sc \<longrightarrow> single_copy c ob" and "s3_storage c = Legacy"
  shows "mig_state E c U d sc (listed c ob) {} ob"
proof -
  have "legacy_within c (listed c ob) ob"
    unfolding legacy_within_def
  proof (intro allI impI)
    fix i assume i: "is_index i" "i \<notin> listed c ob"
    show "ob (legacy_chunk_key c i) = None \<and> ob (legacy_flat_chunk_key c i) = None"
      using i listed_index(1,2) [OF i(1) assms(3)] unfolding listed_def by blast
  qed
  with assms show ?thesis by (simp add: mig_state_def resumable_def)
qed

lemma mig_state_finish:
  assumes "mig_state E c U d sc L L ob"
  shows "chunks_hold E (cow_of c) ob d" and "pool_ok E (cow_of c) U ob"
proof -
  have "chunk_value E (cow_of c) ob i = Some (wanted c d i)" if "is_index i" for i
    using assms that by (cases "i \<in> L") (auto simp: mig_state_def migrating_def legacy_within_def mig_value_def)
  then show "chunks_hold E (cow_of c) ob d"
    by (simp add: chunks_hold_def wanted_def)
  show "pool_ok E (cow_of c) U ob"
    using assms by (simp add: mig_state_def migrating_def)
qed

lemma migrate_fold_hoare:
  assumes L: "s3_laws E objs" and U: "inj_on (e_blake3 E) U" and xs: "distinct xs" "\<And>i. i \<in> set xs \<Longrightarrow> is_index i"
  shows "hoare (\<lambda>s. mig_state E c U d sc L' {} (objs s)) (fold_op (migrate_chunk E c) 0 xs)
    (\<lambda>_ s. mig_state E c U d sc L' (set xs) (objs s)) (\<lambda>s. sc \<longrightarrow> resumable E c U d (objs s))"
proof -
  have "hoare (\<lambda>s. mig_state E c U d sc L' (set []) (objs s)) (fold_op (migrate_chunk E c) 0 xs)
    (\<lambda>_ s. mig_state E c U d sc L' (set xs) (objs s)) (\<lambda>s. sc \<longrightarrow> resumable E c U d (objs s))"
    by (rule fold_op_hoare [where I = "\<lambda>ys _ s. mig_state E c U d sc L' (set ys) (objs s)"])
      (use xs migrate_chunk_hoare [OF L U] in auto)
  then show ?thesis by simp
qed

lemma migrate_objects_hoare:
  assumes L: "s3_laws E objs" and U: "inj_on (e_blake3 E) U" and c: "s3_storage c = Legacy"
  shows "hoare (\<lambda>s. migrating E c U d {} (objs s) \<and> (sc \<longrightarrow> single_copy c (objs s)))
    (bind_op (put_bytes E (migrating_key c) marker_bytes (Some ''application/json'') None) (\<lambda>_.
     bind_op (list_chunk_indices E (s3_prefix c @ ''/chunks/'')) (fold_op (migrate_chunk E c) 0)))
    (\<lambda>_ s. \<exists>L. mig_state E c U d sc L L (objs s)) (\<lambda>s. sc \<longrightarrow> resumable E c U d (objs s))"
    (is "hoare _ _ ?Q ?F")
proof (rule hoare_state)
  fix s0 assume P: "migrating E c U d {} (objs s0) \<and> (sc \<longrightarrow> single_copy c (objs s0))"
  let ?L0 = "listed c (objs s0)"
  define ob where "ob = (objs s0)(migrating_key c \<mapsto> marker_bytes)"
  have m0: "mig_state E c U d sc ?L0 {} (objs s0)"
    using P c by (intro mig_state_start) auto
  then have m: "mig_state E c U d sc ?L0 {} ob"
    unfolding ob_def by (simp add: quiet_update)
  then have start: "mig_state E c U d sc (listed c ob) {} ob"
    using c by (intro mig_state_start) (auto simp: mig_state_def resumable_def)
  have put: "hoare (\<lambda>s. s = s0) (put_bytes E (migrating_key c) marker_bytes (Some ''application/json'') None)
      (\<lambda>_ s. objs s = ob) ?F"
    by (rule hoare_conseq [OF put_bytes_hoare [OF s3_lawsD(2) [OF L], of "objs s0"]])
      (use m0 m in \<open>auto simp: ob_def mig_state_def\<close>)
  have pre: "s3_prefix c @ ''/chunks/'' = chunks_prefix c" by (simp add: chunks_prefix_def c)
  have list: "hoare (\<lambda>s. objs s = ob) (list_chunk_indices E (s3_prefix c @ ''/chunks/''))
      (\<lambda>xs s. objs s = ob \<and> distinct xs \<and> set xs = listed c ob) ?F"
    unfolding pre by (rule hoare_conseq [OF list_chunk_indices_hoare [OF s3_lawsD(4) [OF L], of ob c]])
      (use start in \<open>auto simp: listed_def mig_state_def\<close>)
  have fold: "hoare (\<lambda>s. objs s = ob \<and> distinct xs \<and> set xs = listed c ob) (fold_op (migrate_chunk E c) 0 xs) ?Q ?F" for xs
  proof (cases "distinct xs \<and> set xs = listed c ob")
    case True
    show ?thesis
      by (rule hoare_conseq [OF migrate_fold_hoare [OF L U, of xs c d sc "listed c ob"]])
        (use True start listed_is_index in auto)
  qed (auto simp: hoare_def)
  show "hoare (\<lambda>s. s = s0) (bind_op (put_bytes E (migrating_key c) marker_bytes (Some ''application/json'') None) (\<lambda>_.
     bind_op (list_chunk_indices E (s3_prefix c @ ''/chunks/'')) (fold_op (migrate_chunk E c) 0))) ?Q ?F"
    by (rule hoare_bind [OF put], rule hoare_bind [OF list fold])
qed

lemma bind_assoc: "bind_op (bind_op m f) g = bind_op m (\<lambda>a. bind_op (f a) g)"
  by (auto simp: fun_eq_iff bind_op_def split: prod.splits result.splits)

lemma on_svc_bind: "bind_op (on_svc m) (\<lambda>a. bind_op (on_svc (f a)) g) = bind_op (on_svc (bind_op m f)) g"
  by (auto simp: fun_eq_iff bind_op_def on_svc_def split: prod.splits result.splits)

lemma on_svc_hoare:
  assumes "hoare P m Q F"
  shows "hoare (\<lambda>s. st_conf s = c \<and> P (st_svc s)) (on_svc m)
    (\<lambda>x s. st_conf s = c \<and> Q x (st_svc s)) (\<lambda>s. st_conf s = c \<and> F (st_svc s))"
  using at_conf_hoare [where m = "\<lambda>_. m" and c = c, OF assms] by (simp add: hoare_def at_conf_def)

lemma svc_rep_quiet:
  "quiet_key c k \<Longrightarrow> svc_rep E objs (cow_of c) U d s \<Longrightarrow> objs s' = (objs s)(k := v) \<Longrightarrow> svc_rep E objs (cow_of c) U d s'"
  by (simp add: svc_rep_def quiet_update)

lemma quiet_delete_hoare:
  assumes "delete_law E objs" and "quiet_key c k"
  shows "hoare (svc_rep E objs (cow_of c) U d) (ignore_err (delete_object_key E k)) (\<lambda>_. svc_rep E objs (cow_of c) U d) F"
proof (rule hoare_state)
  fix s assume s: "svc_rep E objs (cow_of c) U d s"
  have keep: "objs s' = objs s \<Longrightarrow> svc_rep E objs (cow_of c) U d s'" for s'
    using s by (simp add: svc_rep_def)
  show "hoare (\<lambda>t. t = s) (ignore_err (delete_object_key E k)) (\<lambda>_. svc_rep E objs (cow_of c) U d) F"
    by (rule hoare_conseq [OF ignore_delete_hoare [OF assms(1), of "objs s"]])
      (use keep svc_rep_quiet [OF assms(2) s] in auto)
qed

lemma migrate_hoare:
  assumes L: "s3_laws E objs" and U: "inj_on (e_blake3 E) U" and c: "s3_storage c = Legacy"
  shows "hoare (\<lambda>s. st_conf s = c \<and> migrating E c U d {} (objs (st_svc s)) \<and> (sc \<longrightarrow> single_copy c (objs (st_svc s))))
    (migrate_to_cow E)
    (\<lambda>_ s. st_conf s = cow_of c \<and> svc_rep E objs (cow_of c) U d (st_svc s))
    (\<lambda>s. st_conf s = c \<and> (sc \<longrightarrow> resumable E c U d (objs (st_svc s))))"
    (is "hoare ?P _ ?Q ?F")
proof -
  let ?mt = "\<lparr>vm_version = meta_version, vm_capacity_bytes = s3_capacity c, vm_chunk_size = s3_chunk_size c,
             vm_block_size = s3_block_size c, vm_compression = s3_compression c, vm_storage = Cow\<rparr>"
  let ?body = "bind_op (put_bytes E (migrating_key c) marker_bytes (Some ''application/json'') None) (\<lambda>_.
     bind_op (list_chunk_indices E (s3_prefix c @ ''/chunks/'')) (fold_op (migrate_chunk E c) 0))"
  let ?R = "svc_rep E objs (cow_of c) U d"
  have meta: "hoare (\<lambda>v. \<exists>L. mig_state E c U d sc L L (objs v)) (put_meta_at E (live_meta_key c) ?mt) (\<lambda>_. ?R)
      (\<lambda>v. sc \<longrightarrow> resumable E c U d (objs v))"
  proof (rule hoare_exists, rule hoare_state)
    fix L' s0 assume m: "mig_state E c U d sc L' L' (objs s0)"
    have "mig_state E c U d sc L' L' ((objs s0)(live_meta_key c := v))" for v
      using m by (simp add: quiet_update)
    note M = this mig_state_finish [OF this]
    show "hoare (\<lambda>s. s = s0) (put_meta_at E (live_meta_key c) ?mt) (\<lambda>_. ?R) (\<lambda>v. sc \<longrightarrow> resumable E c U d (objs v))"
      by (rule hoare_conseq [OF put_meta_objs_hoare [OF s3_lawsD(2) [OF L], of "objs s0"]])
        (use M in \<open>auto simp: svc_rep_def mig_state_def\<close>)
  qed
  have switch: "hoare (\<lambda>s. st_conf s = c \<and> ?R (st_svc s)) (\<lambda>s1. (Ok (), s1\<lparr>st_conf := (st_conf s1)\<lparr>s3_storage := Cow\<rparr>\<rparr>))
      (\<lambda>_ s. st_conf s = cow_of c \<and> ?R (st_svc s)) ?F"
    by (simp add: hoare_def cow_of_def)
  have del: "hoare (\<lambda>s. st_conf s = cow_of c \<and> ?R (st_svc s)) (on_svc (ignore_err (delete_object_key E k)))
      (\<lambda>_ s. st_conf s = cow_of c \<and> ?R (st_svc s)) ?F" if "quiet_key c k" for k
    by (rule hoare_conseq [OF on_svc_hoare [OF quiet_delete_hoare [OF s3_lawsD(3) [OF L] that, where F = "\<lambda>_. False"]]]) auto
  have "hoare ?P (bind_op (on_svc ?body) (\<lambda>n.
      bind_op (on_svc (put_meta_at E (live_meta_key c) ?mt)) (\<lambda>_.
      bind_op (\<lambda>s1. (Ok (), s1\<lparr>st_conf := (st_conf s1)\<lparr>s3_storage := Cow\<rparr>\<rparr>)) (\<lambda>_.
      bind_op (on_svc (ignore_err (delete_object_key E (flat_meta_key c)))) (\<lambda>_.
      bind_op (on_svc (ignore_err (delete_object_key E (migrating_key c)))) (\<lambda>_.
          ret_op \<lparr>mg_chunks_migrated = n, mg_chunks_deleted = n\<rparr>)))))) ?Q ?F"
    by (rule hoare_bind [OF on_svc_hoare [OF migrate_objects_hoare [OF L U c]]],
        rule hoare_bind [OF on_svc_hoare [OF meta]], rule hoare_bind [OF switch], rule hoare_bind [OF del], simp,
        rule hoare_bind [OF del], simp, rule hoare_ret)
  then show ?thesis
    unfolding hoare_def migrate_to_cow_def Let_def on_svc_bind [symmetric]
    by (auto simp: c on_svc_bind)
qed

section \<open>Migrating a volume\<close>

text \<open>A volume that has never been copy-on-write has no pointers and no pool.\<close>

definition never_cow :: "s3_conf \<Rightarrow> (string \<rightharpoonup> bytes) \<Rightarrow> bool" where
  "never_cow c ob \<longleftrightarrow> (\<forall>i. ob (live_pointer_key c i) = None) \<and> (\<forall>h. ob (object_key c h) = None)"

lemma never_cow_migrating:
  assumes "s3_storage c = Legacy" and "chunks_hold E c ob d" and "never_cow c ob" and "bodies_in c U ob"
  shows "migrating E c U d {} ob"
proof -
  have "mig_value E c ob i = chunk_value E c ob i" for i
    using assms(1,3) by (simp add: mig_value_def chunk_value_def never_cow_def split: option.split)
  then show ?thesis
    using assms by (simp add: migrating_def pool_ok_def never_cow_def chunks_hold_def wanted_def)
qed

definition migratable ::
  "('s, 'm) s3_env_scheme \<Rightarrow> ('s \<Rightarrow> string \<rightharpoonup> bytes) \<Rightarrow> bytes set \<Rightarrow> (nat \<Rightarrow> byte) \<Rightarrow> 's s3_store \<Rightarrow> bool" where
  "migratable E objs U d s \<longleftrightarrow>
     s3_storage (st_conf s) = Legacy \<and> codable (st_conf s) \<and> wf_geom (conf_geom (st_conf s)) \<and>
     zero_beyond (s3_capacity (st_conf s)) d \<and> resumable E (st_conf s) U d (objs (st_svc s))"

lemma migratable_start:
  assumes "s3_rep E objs a U d g s" and "s3_storage (st_conf s) = Legacy" and "never_cow (st_conf s) (objs (st_svc s))"
    and "bodies_in (st_conf s) U (objs (st_svc s))" and "single_copy (st_conf s) (objs (st_svc s))"
  shows "migratable E objs U d s"
  using assms never_cow_migrating [of "st_conf s" E "objs (st_svc s)" d U]
  by (auto simp: migratable_def s3_rep_def Let_def conf_geom_def resumable_def)

lemma migratable_hoare:
  assumes L: "s3_laws E objs" and U: "inj_on (e_blake3 E) U"
  shows "hoare (\<lambda>s. migratable E objs U d s \<and> conf_geom (st_conf s) = g \<and> s3_compression (st_conf s) = a) (migrate_to_cow E)
    (\<lambda>_ s. s3_storage (st_conf s) = Cow \<and> s3_rep E objs a U d g s)
    (\<lambda>s. migratable E objs U d s \<and> conf_geom (st_conf s) = g \<and> s3_compression (st_conf s) = a)"
    (is "hoare ?P _ ?Q ?F")
proof (rule hoare_state)
  fix s0 assume s0: "?P s0"
  let ?c = "st_conf s0"
  have c: "s3_storage ?c = Legacy" using s0 by (simp add: migratable_def)
  have ok: "?Q x s" if "st_conf s = cow_of ?c" "svc_rep E objs (cow_of ?c) U d (st_svc s)" for x :: migrate_stats and s
    using that s0 by (auto simp: migratable_def s3_rep_def Let_def svc_rep_def conf_geom_def cow_of_def codable_def)
  show "hoare (\<lambda>s. s = s0) (migrate_to_cow E) ?Q ?F"
    by (rule hoare_conseq [OF migrate_hoare [OF L U c, where sc = True]])
      (use s0 ok in \<open>auto simp: migratable_def resumable_def\<close>)
qed

end
