(* ===== verification/SnapshotProps.thy ===== *)
theory SnapshotProps
  imports Instances RestoreRefine CloneRefine GcRefine MigrateRefine
begin

text \<open>
  What snapshots, restore, garbage collection, cloning and migration guarantee about the disk that a
  volume stands for, with instances on the in-memory bucket.
\<close>

section \<open>A volume with one snapshot\<close>

lemma post_snd: "post Q E x \<Longrightarrow> (\<And>a s. Q a s \<Longrightarrow> R s) \<Longrightarrow> (\<And>s. E s \<Longrightarrow> R s) \<Longrightarrow> R (snd x)"
  by (auto simp: post_def split: prod.splits result.splits)

text \<open>
  \<open>demo_written\<close> is the empty copy-on-write volume after a write of two bytes across a chunk
  boundary, \<open>demo_snap\<close> the bucket after a snapshot of it.
\<close>

definition demo_disk :: "nat \<Rightarrow> byte" where
  "demo_disk = disk_write (\<lambda>_. 0) 3 [1, 2]"

definition demo_newdisk :: "nat \<Rightarrow> byte" where
  "demo_newdisk = disk_write demo_disk 2 [9, 9]"

definition demo_written :: "bucket s3_store" where
  "demo_written = snd (s3_write_at bk_env 3 [1, 2] (demo_store Cow))"

definition demo_create :: "snapshot_manifest result \<times> bucket" where
  "demo_create = snapshot_create bk_env (demo_conf Cow) ''s'' ''vol'' (st_svc demo_written)"

definition demo_snap :: "bucket s3_store" where
  "demo_snap = \<lparr>st_conf = demo_conf Cow, st_svc = snd demo_create\<rparr>"

definition demo_overwritten :: "bucket s3_store" where
  "demo_overwritten = snd (s3_write_at bk_env 2 [9, 9] demo_snap)"

definition demo_manifest :: snapshot_manifest where
  "demo_manifest =
     \<lparr>sm_id = ''s'', sm_created_at_unix = 7, sm_parent = None, sm_source_volume = ''vol'', sm_capacity_bytes = 8,
      sm_chunk_size = 4, sm_block_size = 2, sm_compression = CNone, sm_chunk_count = 2,
      sm_chunks_object = ''chunks.bin'', sm_hash_algo = ''blake3'', sm_state = Ready, sm_format_version = 1\<rparr>"

text \<open>The objects of the bucket at each stage.\<close>

definition demo_obj :: "string \<Rightarrow> string" where
  "demo_obj h = ''v/objects/'' @ h @ replicate 56 (CHR ''0'')"

definition demo_live :: "bytes \<Rightarrow> (string \<times> bytes) list" where
  "demo_live h =
     [(demo_obj ''00/00/0001'', [0, 0, 0, 1]),
      (''v/live/chunks/0000000000000000'', [73, 83, 67, 80, 1] @ h @ zeros 28),
      (demo_obj ''02/00/0000'', [2, 0, 0, 0]),
      (''v/live/chunks/0000000000000001'', [73, 83, 67, 80, 1, 2] @ zeros 31)]"

definition demo_index :: "(string \<times> bytes) list" where
  "demo_index =
     [(''v/snapshots/s/manifest.json'', bucket_man_enc demo_manifest),
      (''v/snapshots/s/chunks.bin'',
       [73, 83, 67, 51, 83, 78, 65, 80, 0, 0, 0, 1] @ zeros 7 @ [2] @ zeros 11 @ [1] @ zeros 35 @ [1, 2] @ zeros 31)]"

lemma demo_written_code [code]:
  "demo_written = \<lparr>st_conf = demo_conf Cow, st_svc = \<lparr>bk_objs = demo_live [0, 0, 0, 1], bk_script = []\<rparr>\<rparr>"
  by code_simp

lemma demo_create_code [code]:
  "demo_create = (Ok demo_manifest, \<lparr>bk_objs = demo_live [0, 0, 0, 1] @ demo_index, bk_script = []\<rparr>)"
  by code_simp

lemma demo_overwritten_code [code]:
  "demo_overwritten =
     \<lparr>st_conf = demo_conf Cow,
      st_svc = \<lparr>bk_objs = demo_live [0, 0, 9, 9] @ demo_index @ [(demo_obj ''00/00/0909'', [0, 0, 9, 9])], bk_script = []\<rparr>\<rparr>"
  by code_simp

lemma demo_written_ok: "fst (s3_write_at bk_env 3 [1, 2] (demo_store Cow)) = Ok ()"
  by code_simp

lemma demo_overwritten_ok: "fst (s3_write_at bk_env 2 [9, 9] demo_snap) = Ok ()"
  by code_simp

lemma demo_conf_kept: "st_conf demo_written = demo_conf Cow" "st_conf demo_overwritten = demo_conf Cow"
  by (simp_all add: demo_written_code demo_overwritten_code)

lemma demo_create_ok: "fst demo_create = Ok demo_manifest"
  by (simp add: demo_create_code)

lemma demo_written_rep: "s3_rep bk_env objs_of CNone small_bodies demo_disk demo_geom demo_written"
proof -
  have "adm_write (s3_adm bk_env CNone small_bodies) (g_chunk demo_geom) (\<lambda>_. 0) 3 [1, 2]"
    using small_adm by (simp add: demo_geom_def)
  from hoare_post [OF s3_write_hoare [OF bk_laws small_inj this] demo_rep [of Cow]]
  show ?thesis
    using demo_written_ok unfolding demo_written_def demo_disk_def
    by (cases "s3_write_at bk_env 3 [1, 2] (demo_store Cow)") simp
qed

lemma listed_bucket: "card (listed c (objs_of b)) \<le> length (bk_objs b)"
proof -
  let ?f = "\<lambda>k. the (parse_chunk_index_from_key (chunks_prefix c) k)"
  have "listed c (objs_of b) \<subseteq> ?f ` set (map fst (bk_objs b))"
    by (force simp: listed_def objs_of_def dest: map_of_SomeD)
  then have "card (listed c (objs_of b)) \<le> card (?f ` set (map fst (bk_objs b)))"
    by (intro card_mono) auto
  also have "\<dots> \<le> length (bk_objs b)"
    by (metis List.finite_set card_image_le card_length le_trans length_map)
  finally show ?thesis .
qed

lemma indexable_bucket: "vec_capacity_ok (length (bk_objs b)) \<Longrightarrow> indexable c (objs_of b)"
  using listed_bucket [of c b] unfolding indexable_def vec_capacity_ok_def by linarith

lemma demo_svc_rep:
  "svc_rep bk_env objs_of (demo_conf Cow) small_bodies demo_disk (st_svc demo_written) \<and>
   indexable (demo_conf Cow) (objs_of (st_svc demo_written)) \<and> zero_beyond (s3_capacity (demo_conf Cow)) demo_disk"
proof (intro conjI)
  show "svc_rep bk_env objs_of (demo_conf Cow) small_bodies demo_disk (st_svc demo_written)"
    using s3_rep_svc [OF demo_written_rep] demo_conf_kept by simp
  have "vec_capacity_ok (length (bk_objs (st_svc demo_written)))" by code_simp
  then show "indexable (demo_conf Cow) (objs_of (st_svc demo_written))" by (rule indexable_bucket)
  show "zero_beyond (s3_capacity (demo_conf Cow)) demo_disk"
    using demo_written_rep by (simp add: s3_rep_def demo_geom_def demo_conf_kept demo_conf_def Let_def)
qed

lemma demo_snap_holds:
  "svc_rep bk_env objs_of (demo_conf Cow) small_bodies demo_disk (snd demo_create)"
  "snapshot_holds bk_env (demo_conf Cow) (objs_of (snd demo_create)) ''s'' demo_manifest demo_disk"
proof -
  from hoare_post [OF snapshot_create_hoare [OF bk_laws] demo_svc_rep, of "''s''" "''vol''"] demo_create_ok
  have "svc_rep bk_env objs_of (demo_conf Cow) small_bodies demo_disk (snd demo_create) \<and>
      snapshot_holds bk_env (demo_conf Cow) (objs_of (snd demo_create)) ''s'' demo_manifest demo_disk"
    unfolding demo_create_def
    by (cases "snapshot_create bk_env (demo_conf Cow) ''s'' ''vol'' (st_svc demo_written)") simp
  then show "svc_rep bk_env objs_of (demo_conf Cow) small_bodies demo_disk (snd demo_create)"
    "snapshot_holds bk_env (demo_conf Cow) (objs_of (snd demo_create)) ''s'' demo_manifest demo_disk"
    by auto
qed

lemma demo_snap_rep:
  "s3_rep bk_env objs_of CNone small_bodies demo_disk demo_geom demo_snap \<and>
   snap_state bk_env objs_of ''s'' demo_manifest demo_disk demo_snap"
proof -
  have "zero_beyond 8 demo_disk"
    using demo_svc_rep by (simp add: demo_conf_def)
  then show ?thesis
    using demo_snap_holds
    by (simp add: demo_snap_def s3_rep_def demo_geom_def demo_conf_def svc_rep_def snap_state_def codable_def wf_geom_def)
qed

lemma demo_snap_ready: "snap_ready bk_env objs_of small_bodies ''s'' demo_manifest demo_disk demo_snap"
  using demo_snap_rep by (auto intro: snap_ready_rep)

lemma demo_adm: "adm_write (s3_adm bk_env CNone small_bodies) (g_chunk demo_geom) d off bs"
  using small_adm by (simp add: demo_geom_def)


section \<open>Snapshots\<close>

text \<open>
  C8: A snapshot that \<open>snapshot_create\<close> acknowledges holds exactly the live disk: its manifest is
  ready, has the capacity of the volume, and its index resolves every chunk to the live bytes. The
  live disk itself is unchanged whatever the outcome.
\<close>

theorem snapshot_create_exact:
  assumes "s3_laws E objs"
  shows "hoare (\<lambda>s. svc_rep E objs c U d s \<and> indexable c (objs s) \<and> zero_beyond (s3_capacity c) d)
    (snapshot_create E c sid vol)
    (\<lambda>m s. svc_rep E objs c U d s \<and> sm_capacity_bytes m = s3_capacity c \<and> snapshot_holds E c (objs s) sid m d)
    (svc_rep E objs c U d)"
  using assms by (rule snapshot_create_hoare)

theorem snapshot_create_exact_witness:
  "s3_laws bk_env objs_of \<and> fst demo_create = Ok demo_manifest \<and>
   post (\<lambda>m s. svc_rep bk_env objs_of (demo_conf Cow) small_bodies demo_disk s \<and>
       sm_capacity_bytes m = s3_capacity (demo_conf Cow) \<and> snapshot_holds bk_env (demo_conf Cow) (objs_of s) ''s'' m demo_disk)
     (svc_rep bk_env objs_of (demo_conf Cow) small_bodies demo_disk) demo_create"
  using bk_laws demo_create_ok hoare_post [OF snapshot_create_exact [OF bk_laws] demo_svc_rep, of "''s''" "''vol''"]
  unfolding demo_create_def by blast

text \<open>
  C6: Snapshots are immutable under writes: whatever a write to the live volume does, and even when it
  fails half-way, every snapshot of the volume still holds its own disk and stays restorable.
\<close>

theorem write_keeps_snapshots:
  assumes "s3_laws E objs" and "inj_on (e_blake3 E) U" and "adm_write (s3_adm E a U) (g_chunk g) d off bs"
  shows "hoare (\<lambda>s. s3_rep E objs a U d g s \<and> snap_state E objs sid m ds s) (s3_write_at E off bs)
    (\<lambda>_ s. s3_rep E objs a U (disk_write d off bs) g s \<and> snap_ready E objs U sid m ds s) (snap_ready E objs U sid m ds)"
  using assms by (rule s3_write_snap_ready)

theorem write_keeps_snapshots_witness:
  "s3_laws bk_env objs_of \<and> inj_on (e_blake3 bk_env) small_bodies \<and>
   adm_write (s3_adm bk_env CNone small_bodies) (g_chunk demo_geom) demo_disk 2 [9, 9] \<and>
   fst (s3_write_at bk_env 2 [9, 9] demo_snap) = Ok () \<and>
   snap_ready bk_env objs_of small_bodies ''s'' demo_manifest demo_disk (snd (s3_write_at bk_env 2 [9, 9] demo_snap))"
proof (intro conjI)
  show "snap_ready bk_env objs_of small_bodies ''s'' demo_manifest demo_disk (snd (s3_write_at bk_env 2 [9, 9] demo_snap))"
    by (rule post_snd [OF hoare_post [OF write_keeps_snapshots [OF bk_laws small_inj demo_adm] demo_snap_rep]]) auto
  show "fst (s3_write_at bk_env 2 [9, 9] demo_snap) = Ok ()" by (rule demo_overwritten_ok)
qed (rule bk_laws small_inj demo_adm)+

text \<open>
  C7: Restoring a snapshot that holds a disk makes the live volume hold exactly that disk: chunks
  written since are dropped, overwritten ones revert, the capacity grows to the snapshot's if it is
  smaller. A restore that fails leaves the snapshot restorable, so it can be repeated.
\<close>

theorem restore_exact:
  assumes "s3_laws E objs" and "sm_capacity_bytes m < 2 ^ 64"
  shows "hoare (snap_ready E objs U sid m ds) (snapshot_restore E sid)
    (\<lambda>_ s. snap_ready E objs U sid m ds s \<and> s3_rep E objs (s3_compression (st_conf s)) U ds (conf_geom (st_conf s)) s)
    (snap_ready E objs U sid m ds)"
  using assms by (rule snapshot_restore_hoare)

lemma demo_overwritten_ready: "snap_ready bk_env objs_of small_bodies ''s'' demo_manifest demo_disk demo_overwritten"
  unfolding demo_overwritten_def
  by (rule post_snd [OF hoare_post [OF s3_write_snap_ready [OF bk_laws small_inj demo_adm] demo_snap_rep]]) auto

theorem restore_exact_witness:
  "s3_laws bk_env objs_of \<and> sm_capacity_bytes demo_manifest < 2 ^ 64 \<and>
   snap_ready bk_env objs_of small_bodies ''s'' demo_manifest demo_disk demo_overwritten \<and>
   fst (s3_read_at bk_env 0 8 demo_overwritten) = Ok [0, 0, 9, 9, 2, 0, 0, 0] \<and>
   fst (s3_read_at bk_env 0 8 (snd (snapshot_restore bk_env ''s'' demo_overwritten))) = Ok [0, 0, 0, 1, 2, 0, 0, 0] \<and>
   post (\<lambda>_ s. snap_ready bk_env objs_of small_bodies ''s'' demo_manifest demo_disk s \<and>
       s3_rep bk_env objs_of (s3_compression (st_conf s)) small_bodies demo_disk (conf_geom (st_conf s)) s)
     (snap_ready bk_env objs_of small_bodies ''s'' demo_manifest demo_disk) (snapshot_restore bk_env ''s'' demo_overwritten)"
proof (intro conjI)
  show cap: "sm_capacity_bytes demo_manifest < 2 ^ 64" by (simp add: demo_manifest_def)
  show "post (\<lambda>_ s. snap_ready bk_env objs_of small_bodies ''s'' demo_manifest demo_disk s \<and>
       s3_rep bk_env objs_of (s3_compression (st_conf s)) small_bodies demo_disk (conf_geom (st_conf s)) s)
     (snap_ready bk_env objs_of small_bodies ''s'' demo_manifest demo_disk) (snapshot_restore bk_env ''s'' demo_overwritten)"
    by (rule hoare_post [OF restore_exact [OF bk_laws cap] demo_overwritten_ready])
  show "fst (s3_read_at bk_env 0 8 demo_overwritten) = Ok [0, 0, 9, 9, 2, 0, 0, 0]" by code_simp
  show "fst (s3_read_at bk_env 0 8 (snd (snapshot_restore bk_env ''s'' demo_overwritten))) = Ok [0, 0, 0, 1, 2, 0, 0, 0]"
    by code_simp
qed (rule bk_laws demo_overwritten_ready)+

section \<open>Garbage collection\<close>

text \<open>The collector's parsers do not panic on a bucket whose entries pass this check.\<close>

definition parsable_entries :: "s3_conf \<Rightarrow> (string \<times> bytes) list \<Rightarrow> bool" where
  "parsable_entries c es =
     list_all (\<lambda>(k, b). read_chunks_bin b \<noteq> Panic \<and>
       (case strip_prefix (s3_prefix c @ ''/objects/'') k of None \<Rightarrow> True | Some rel \<Rightarrow> hash_from_object_relpath rel \<noteq> Panic)) es"

lemma gc_parsable_bucket:
  assumes "parsable_entries c (bk_objs b)"
  shows "gc_parsable c (objs_of b)"
proof -
  have "read_chunks_bin x \<noteq> Panic \<and>
      (case strip_prefix (s3_prefix c @ ''/objects/'') k of None \<Rightarrow> True | Some rel \<Rightarrow> hash_from_object_relpath rel \<noteq> Panic)"
    if "objs_of b k = Some x" for k x
    using assms that by (force simp: parsable_entries_def objs_of_def list_all_iff dest: map_of_SomeD)
  note entry = this
  have "hash_from_object_relpath rel \<noteq> Panic" if "objs_of b (s3_prefix c @ ''/objects/'' @ rel) \<noteq> None" for rel
    using that entry [of "s3_prefix c @ ''/objects/'' @ rel"] strip_prefix_append [of "s3_prefix c @ ''/objects/''" rel]
    by auto
  then show ?thesis
    using entry by (auto simp: gc_parsable_def)
qed

lemma demo_parsable: "gc_parsable (demo_conf Cow) (objs_of (st_svc demo_overwritten))"
proof (rule gc_parsable_bucket)
  show "parsable_entries (demo_conf Cow) (bk_objs (st_svc demo_overwritten))" by code_simp
qed

text \<open>
  C9: Garbage collection never harms the live volume: after a run with any outcome, an unreadable
  snapshot or a failed delete included, the live disk is the same.
\<close>

theorem gc_keeps_live:
  assumes "s3_laws E objs" and "s3_storage c = Cow"
  shows "hoare (\<lambda>s. svc_rep E objs c U d s \<and> gc_parsable c (objs s)) (gc_unreferenced_objects E c)
    (\<lambda>_. svc_rep E objs c U d) (svc_rep E objs c U d)"
  using assms by (rule gc_hoare)

lemma demo_overwritten_svc: "svc_rep bk_env objs_of (demo_conf Cow) small_bodies demo_newdisk (st_svc demo_overwritten)"
proof -
  from hoare_post [OF s3_write_hoare [OF bk_laws small_inj demo_adm] conjunct1 [OF demo_snap_rep], of 2 "[9, 9]"]
  have "s3_rep bk_env objs_of CNone small_bodies demo_newdisk demo_geom demo_overwritten"
    using demo_overwritten_ok unfolding demo_overwritten_def demo_newdisk_def
    by (cases "s3_write_at bk_env 2 [9, 9] demo_snap") simp
  from s3_rep_svc [OF this] demo_conf_kept show ?thesis by simp
qed

theorem gc_keeps_live_witness:
  "s3_laws bk_env objs_of \<and> s3_storage (demo_conf Cow) = Cow \<and>
   svc_rep bk_env objs_of (demo_conf Cow) small_bodies demo_newdisk (st_svc demo_overwritten) \<and>
   gc_parsable (demo_conf Cow) (objs_of (st_svc demo_overwritten)) \<and>
   svc_rep bk_env objs_of (demo_conf Cow) small_bodies demo_newdisk
     (snd (gc_unreferenced_objects bk_env (demo_conf Cow) (st_svc demo_overwritten)))"
proof (intro conjI)
  show cow: "s3_storage (demo_conf Cow) = Cow" by (simp add: demo_conf_def)
  show "svc_rep bk_env objs_of (demo_conf Cow) small_bodies demo_newdisk
     (snd (gc_unreferenced_objects bk_env (demo_conf Cow) (st_svc demo_overwritten)))"
    by (rule post_snd [OF hoare_post [OF gc_keeps_live [OF bk_laws cow] conjI [OF demo_overwritten_svc demo_parsable]]])
qed (rule bk_laws demo_overwritten_svc demo_parsable)+

text \<open>
  C10: If every object that is in the bucket can be read, garbage collection keeps every snapshot: each
  still holds its disk afterwards, whatever the outcome of the run.
\<close>

theorem gc_keeps_snapshots:
  assumes "s3_laws E objs" and "reads_succeed E objs"
  shows "hoare (\<lambda>s. gc_parsable c (objs s) \<and> snapshot_holds E c (objs s) sid m ds) (gc_unreferenced_objects E c)
    (\<lambda>_ s. snapshot_holds E c (objs s) sid m ds) (\<lambda>s. snapshot_holds E c (objs s) sid m ds)"
  using assms by (rule gc_snapshot_hoare)

text \<open>A bucket whose reads never time out.\<close>

definition calm_get :: "string \<Rightarrow> bucket \<Rightarrow> get_reply reply \<times> bucket" where
  "calm_get k s =
     (case map_of (bk_objs s) k of
        Some b \<Rightarrow> (Done (GetOk b (Some (bk_etag b))), s)
      | None \<Rightarrow> (Done (GetErr True ''NoSuchKey''), s))"

definition calm_env :: "bucket s3_env" where
  "calm_env = bk_env\<lparr>e_get := calm_get\<rparr>"

lemma calm_laws: "s3_laws calm_env objs_of" and calm_reads: "reads_succeed calm_env objs_of"
proof -
  have "get_law calm_env objs_of"
    by (auto simp: get_law_def calm_env_def calm_get_def objs_of_def split: option.splits)
  then show "s3_laws calm_env objs_of"
    using bk_laws by (simp add: s3_laws_def put_law_def delete_law_def list_law_def pages_ok_def calm_env_def)
  show "reads_succeed calm_env objs_of"
    by (simp add: reads_succeed_def calm_env_def calm_get_def objs_of_def)
qed

lemma calm_holds [simp]: "snapshot_holds calm_env c ob sid m d \<longleftrightarrow> snapshot_holds bk_env c ob sid m d"
proof -
  have "ref_value calm_env c ob r = ref_value bk_env c ob r" for r
    by (simp add: ref_value_def decoded_def calm_env_def split: option.split)
  then have "refs_hold calm_env c ob refs d = refs_hold bk_env c ob refs d" for refs
    by (simp add: refs_hold_def)
  then show ?thesis by (simp add: snapshot_holds_def) (simp add: calm_env_def)
qed

theorem gc_keeps_snapshots_witness:
  "s3_laws calm_env objs_of \<and> reads_succeed calm_env objs_of \<and>
   gc_parsable (demo_conf Cow) (objs_of (st_svc demo_overwritten)) \<and>
   snapshot_holds calm_env (demo_conf Cow) (objs_of (st_svc demo_overwritten)) ''s'' demo_manifest demo_disk \<and>
   snapshot_holds calm_env (demo_conf Cow)
     (objs_of (snd (gc_unreferenced_objects calm_env (demo_conf Cow) (st_svc demo_overwritten)))) ''s'' demo_manifest demo_disk"
proof (intro conjI)
  show snap: "snapshot_holds calm_env (demo_conf Cow) (objs_of (st_svc demo_overwritten)) ''s'' demo_manifest demo_disk"
    using snap_readyD(2) [OF demo_overwritten_ready] demo_conf_kept by simp
  show "snapshot_holds calm_env (demo_conf Cow)
     (objs_of (snd (gc_unreferenced_objects calm_env (demo_conf Cow) (st_svc demo_overwritten)))) ''s'' demo_manifest demo_disk"
    by (rule post_snd [OF hoare_post [OF gc_keeps_snapshots [OF calm_laws calm_reads] conjI [OF demo_parsable snap]]])
qed (rule calm_laws calm_reads demo_parsable)+

end
