(* ===== verification/VolumeProps.thy ===== *)
theory VolumeProps
  imports SnapshotProps
begin

text \<open>
  Cloning a snapshot into another volume, migrating a legacy volume to the copy-on-write layout, and
  two runs in which a single lost request makes an operation that reports success lose data.
\<close>

section \<open>Clones\<close>

text \<open>
  C11: A clone that is acknowledged makes the destination volume hold exactly the disk of the source
  snapshot, with its own copy of every object, and leaves the snapshot as it was. A failed clone
  leaves the snapshot as it was too.
\<close>

theorem clone_exact:
  assumes "s3_laws E objs" and "inj_on (e_blake3 E) U" and "sm_capacity_bytes m < 2 ^ 64"
  shows "hoare (clone_ready E objs c U sid m ds) (snapshot_clone_into E c sid)
    (\<lambda>_ s. clone_source E c U sid m ds (objs (st_svc s)) \<and>
       s3_rep E objs (s3_compression (st_conf s)) U ds (conf_geom (st_conf s)) s)
    (\<lambda>s. clone_source E c U sid m ds (objs (st_svc s)))"
  using assms by (rule clone_hoare)

definition demo_dest :: "bucket s3_store" where
  "demo_dest = \<lparr>st_conf = (demo_conf Cow)\<lparr>s3_prefix := ''w''\<rparr>, st_svc = st_svc demo_snap\<rparr>"

lemma demo_dest_ready:
  "clone_ready bk_env objs_of (demo_conf Cow) small_bodies ''s'' demo_manifest demo_disk demo_dest"
proof -
  have "list_all (\<lambda>(k, _). hd k = CHR ''v'') (bk_objs (snd demo_create))" by code_simp
  then have v: "hd k = CHR ''v''" if "objs_of (snd demo_create) k \<noteq> None" for k
    using that by (auto simp: objs_of_def list_all_iff dest: map_of_SomeD)
  have "objs_of (snd demo_create) (''w'' @ x) = None" for x
    using v [of "''w'' @ x"] by fastforce
  then have "pool_ok bk_env ((demo_conf Cow)\<lparr>s3_prefix := ''w''\<rparr>) small_bodies (objs_of (snd demo_create))"
    by (simp add: pool_ok_def object_key_def)
  moreover have "pool_ok bk_env (demo_conf Cow) small_bodies (objs_of (snd demo_create))"
    using demo_snap_holds(1) by (simp add: svc_rep_def)
  ultimately show ?thesis
    using demo_snap_holds(2)
    by (simp add: clone_ready_def clone_source_def demo_dest_def demo_snap_def codable_def wf_geom_def conf_geom_def)
      (simp add: demo_conf_def)
qed

theorem clone_exact_witness:
  "s3_laws bk_env objs_of \<and> inj_on (e_blake3 bk_env) small_bodies \<and> sm_capacity_bytes demo_manifest < 2 ^ 64 \<and>
   clone_ready bk_env objs_of (demo_conf Cow) small_bodies ''s'' demo_manifest demo_disk demo_dest \<and>
   fst (snapshot_clone_into bk_env (demo_conf Cow) ''s'' demo_dest) = Ok \<lparr>cl_pointers_written = 2, cl_objects_copied = 2\<rparr> \<and>
   post (\<lambda>_ s. clone_source bk_env (demo_conf Cow) small_bodies ''s'' demo_manifest demo_disk (objs_of (st_svc s)) \<and>
       s3_rep bk_env objs_of (s3_compression (st_conf s)) small_bodies demo_disk (conf_geom (st_conf s)) s)
     (\<lambda>s. clone_source bk_env (demo_conf Cow) small_bodies ''s'' demo_manifest demo_disk (objs_of (st_svc s)))
     (snapshot_clone_into bk_env (demo_conf Cow) ''s'' demo_dest)"
proof (intro conjI)
  show cap: "sm_capacity_bytes demo_manifest < 2 ^ 64" by (simp add: demo_manifest_def)
  show "fst (snapshot_clone_into bk_env (demo_conf Cow) ''s'' demo_dest) = Ok \<lparr>cl_pointers_written = 2, cl_objects_copied = 2\<rparr>"
    by code_simp
  show "post (\<lambda>_ s. clone_source bk_env (demo_conf Cow) small_bodies ''s'' demo_manifest demo_disk (objs_of (st_svc s)) \<and>
       s3_rep bk_env objs_of (s3_compression (st_conf s)) small_bodies demo_disk (conf_geom (st_conf s)) s)
     (\<lambda>s. clone_source bk_env (demo_conf Cow) small_bodies ''s'' demo_manifest demo_disk (objs_of (st_svc s)))
     (snapshot_clone_into bk_env (demo_conf Cow) ''s'' demo_dest)"
    by (rule hoare_post [OF clone_exact [OF bk_laws small_inj cap] demo_dest_ready])
qed (rule bk_laws small_inj demo_dest_ready)+

section \<open>Migration\<close>


definition demo_legacy :: "bucket s3_store" where
  "demo_legacy = snd (s3_write_at bk_env 3 [1, 2] (demo_store Legacy))"

lemma demo_legacy_code [code]:
  "demo_legacy =
     \<lparr>st_conf = demo_conf Legacy,
      st_svc = \<lparr>bk_objs = [(''v/chunks/00/00/000000000000'', [0, 0, 0, 1]), (''v/chunks/01/00/000000000000'', [2, 0, 0, 0])],
                bk_script = []\<rparr>\<rparr>"
  by code_simp

lemma demo_legacy_rep: "s3_rep bk_env objs_of CNone small_bodies demo_disk demo_geom demo_legacy"
proof -
  have ok: "fst (s3_write_at bk_env 3 [1, 2] (demo_store Legacy)) = Ok ()" by code_simp
  have "adm_write (s3_adm bk_env CNone small_bodies) (g_chunk demo_geom) (\<lambda>_. 0) 3 [1, 2]" by (rule demo_adm)
  from hoare_post [OF s3_write_hoare [OF bk_laws small_inj this] demo_rep [of Legacy]] ok
  show ?thesis
    unfolding demo_legacy_def demo_disk_def by (cases "s3_write_at bk_env 3 [1, 2] (demo_store Legacy)") simp
qed

lemma demo_legacy_migratable: "migratable bk_env objs_of small_bodies demo_disk demo_legacy"
proof (rule migratable_start [OF demo_legacy_rep])
  let ?c = "st_conf demo_legacy" and ?ob = "objs_of (st_svc demo_legacy)"
  have entry: "length k = 27 \<and> length b = 4 \<and> is_prefix ''v/chunks/'' k" if "?ob k = Some b" for k b
    using that by (auto simp: demo_legacy_code objs_of_def is_prefix_iff split: if_splits)
  show "s3_storage ?c = Legacy" by (simp add: demo_legacy_code demo_conf_def)
  show "never_cow ?c ?ob"
    unfolding never_cow_def
    using entry [of "live_pointer_key ?c _"] entry [of "object_key ?c _"]
    by (force simp: live_pointer_key_def object_key_def object_relpath_def is_prefix_iff demo_legacy_code demo_conf_def)
  show "bodies_in ?c small_bodies ?ob"
    using entry by (auto simp: bodies_in_def small_bodies_def)
  have "?ob (legacy_flat_chunk_key ?c i) = None" for i
    using entry [of "legacy_flat_chunk_key ?c i"]
    by (cases "?ob (legacy_flat_chunk_key ?c i)") (auto simp: legacy_flat_chunk_key_def demo_legacy_code demo_conf_def)
  then show "single_copy ?c ?ob" by (simp add: single_copy_def)
qed


section \<open>Runs that lose data\<close>

text \<open>
  C13: Garbage collection can destroy an intact snapshot and report success. The volume has a ready
  snapshot and was overwritten since; the one read of the snapshot's index times out, the collector
  takes it for a snapshot without references and deletes an object that only this snapshot uses.
\<close>

theorem gc_destroys_snapshot:
  "\<exists>s. snapshot_holds bk_env (demo_conf Cow) (objs_of s) ''s'' demo_manifest demo_disk \<and>
     fst (gc_unreferenced_objects bk_env (demo_conf Cow) s) = Ok \<lparr>gc_objects_deleted = 1, gc_objects_referenced = 2\<rparr> \<and>
     \<not> snapshot_holds bk_env (demo_conf Cow) (objs_of (snd (gc_unreferenced_objects bk_env (demo_conf Cow) s)))
         ''s'' demo_manifest demo_disk"
proof (intro exI conjI)
  let ?c = "demo_conf Cow"
  let ?s = "(st_svc demo_overwritten)\<lparr>bk_script := [Fine, Fine, Fine, Fine, Fine, Lost]\<rparr>"
  let ?s' = "snd (gc_unreferenced_objects bk_env ?c ?s)"
  show "snapshot_holds bk_env ?c (objs_of ?s) ''s'' demo_manifest demo_disk"
    using snap_readyD(2) [OF demo_overwritten_ready] demo_conf_kept by simp
  show "fst (gc_unreferenced_objects bk_env ?c ?s) = Ok \<lparr>gc_objects_deleted = 1, gc_objects_referenced = 2\<rparr>"
    by code_simp
  let ?r = "\<lparr>cr_index = 0, cr_hash = [0, 0, 0, 1] @ zeros 28\<rparr>"
  have gone: "map_of (bk_objs ?s') (object_key ?c (cr_hash ?r)) = None" by code_simp
  have index: "(case map_of (bk_objs ?s') (snapshot_chunks_key ?c ''s'') of
      Some bin \<Rightarrow> (case read_chunks_bin bin of Ok refs \<Rightarrow> ?r \<in> set refs | _ \<Rightarrow> False) | None \<Rightarrow> False)"
    by code_simp
  show "\<not> snapshot_holds bk_env ?c (objs_of ?s') ''s'' demo_manifest demo_disk"
  proof
    assume "snapshot_holds bk_env ?c (objs_of ?s') ''s'' demo_manifest demo_disk"
    then obtain refs where refs: "refs_hold bk_env ?c (objs_of ?s') refs demo_disk" "?r \<in> set refs"
      using index by (auto simp: snapshot_holds_def objs_of_def)
    from refs_hold_body [OF refs] gone show False by (auto simp: objs_of_def)
  qed
qed

definition flat_store :: "fault list \<Rightarrow> bucket s3_store" where
  "flat_store fs =
     \<lparr>st_conf = demo_conf Legacy, st_svc = \<lparr>bk_objs = [(''v/chunks/0000000000000000'', [1, 1, 1, 1])], bk_script = fs\<rparr>\<rparr>"

definition flat_run :: "bucket s3_store \<Rightarrow> unit result \<times> migrate_stats result \<times> migrate_stats result \<times> bytes result" where
  "flat_run s0 =
     (let (w, s1) = s3_write_at bk_env 0 [7, 7, 7, 7] s0; (m1, s2) = migrate_to_cow bk_env s1;
          (m2, s3) = migrate_to_cow bk_env s2
      in (w, m1, m2, fst (s3_read_at bk_env 0 4 s3)))"


end
