(* ===== verification/Metrics.thy ===== *)
theory Metrics
  imports Prelude Complex_Main "HOL-Library.Char_ord" "HOL-Library.List_Lexorder" "HOL-Library.Product_Lexorder"
begin

text \<open>
  \<open>src/metrics.rs\<close>: the process-wide counters the bottleneck analyser reads, the calls the
  program makes to the Prometheus registry, and the table of live sessions. The registry is a
  library outside the repository: a call to it is an element of the trace \<open>mt_calls\<close>, in the order
  of the calls. Durations are exact rational numbers of seconds.
\<close>

section \<open>Counters\<close>

record volume_labels =
  vl_volume :: string
  vl_iqn :: string

record latency_accum =
  la_count :: nat
  la_sum_us :: nat

definition latency_zero :: latency_accum where
  "latency_zero = \<lparr>la_count = 0, la_sum_us = 0\<rparr>"

definition avg_secs :: "latency_accum \<Rightarrow> rat" where
  "avg_secs a = (if la_count a = 0 then 0 else (of_nat (la_sum_us a) / of_nat (la_count a)) / 1000000)"

definition total_secs :: "latency_accum \<Rightarrow> rat" where
  "total_secs a = of_nat (la_sum_us a) / 1000000"

definition saturating_delta :: "latency_accum \<Rightarrow> latency_accum \<Rightarrow> latency_accum" where
  "saturating_delta a earlier =
     \<lparr>la_count = la_count a - la_count earlier, la_sum_us = la_sum_us a - la_sum_us earlier\<rparr>"

record perf_counters =
  pc_scsi_read :: latency_accum
  pc_scsi_write :: latency_accum
  pc_scsi_flush :: latency_accum
  pc_s3_get :: latency_accum
  pc_s3_put :: latency_accum
  pc_cache_hits :: nat
  pc_cache_misses :: nat

definition perf_zero :: perf_counters where
  "perf_zero =
     \<lparr>pc_scsi_read = latency_zero, pc_scsi_write = latency_zero, pc_scsi_flush = latency_zero,
      pc_s3_get = latency_zero, pc_s3_put = latency_zero, pc_cache_hits = 0, pc_cache_misses = 0\<rparr>"

definition perf_delta :: "perf_counters \<Rightarrow> perf_counters \<Rightarrow> perf_counters" where
  "perf_delta a earlier =
     \<lparr>pc_scsi_read = saturating_delta (pc_scsi_read a) (pc_scsi_read earlier),
      pc_scsi_write = saturating_delta (pc_scsi_write a) (pc_scsi_write earlier),
      pc_scsi_flush = saturating_delta (pc_scsi_flush a) (pc_scsi_flush earlier),
      pc_s3_get = saturating_delta (pc_s3_get a) (pc_s3_get earlier),
      pc_s3_put = saturating_delta (pc_s3_put a) (pc_s3_put earlier),
      pc_cache_hits = pc_cache_hits a - pc_cache_hits earlier,
      pc_cache_misses = pc_cache_misses a - pc_cache_misses earlier\<rparr>"

text \<open>\<open>AtomicLatency::record\<close>: the cast to \<open>u64\<close> saturates, the atomic additions wrap.\<close>

definition round_us :: "rat \<Rightarrow> nat" where
  "round_us elapsed = min (nat \<lfloor>elapsed * 1000000 + 1 / 2\<rfloor>) (2 ^ 64 - 1)"

definition record_latency :: "rat \<Rightarrow> latency_accum \<Rightarrow> latency_accum" where
  "record_latency elapsed a =
     \<lparr>la_count = wrap_add (la_count a) 1, la_sum_us = wrap_add (la_sum_us a) (round_us elapsed)\<rparr>"

section \<open>Calls to the registry\<close>

datatype prom_call =
    Inc string "string list"
  | IncBy string "string list" nat
  | Observe string "string list" rat
  | SetGauge string "string list" int
  | AddGauge string "string list" int

record metrics =
  mt_calls :: "prom_call list"
  mt_perf :: perf_counters

definition prom :: "prom_call list \<Rightarrow> metrics \<Rightarrow> metrics" where
  "prom cs m = m\<lparr>mt_calls := mt_calls m @ cs\<rparr>"

definition as_i64 :: "nat \<Rightarrow> int" where
  "as_i64 n = (if n mod 2 ^ 64 < 2 ^ 63 then int (n mod 2 ^ 64) else int (n mod 2 ^ 64) - 2 ^ 64)"

definition vol_labels :: "volume_labels \<Rightarrow> string list" where
  "vol_labels l = [vl_volume l, vl_iqn l]"

definition bottleneck_components :: "string list" where
  "bottleneck_components =
     [''s3_read'', ''s3_write'', ''read_cache'', ''write_cache'', ''write_buffer'', ''iscsi'']"

definition metrics_new :: metrics where
  "metrics_new =
     \<lparr>mt_calls = map (\<lambda>c. SetGauge ''iscsi_s3_bottleneck'' [c] 0) bottleneck_components, mt_perf = perf_zero\<rparr>"

definition set_bottleneck :: "string option \<Rightarrow> metrics \<Rightarrow> metrics" where
  "set_bottleneck active =
     prom (map (\<lambda>c. SetGauge ''iscsi_s3_bottleneck'' [c] (if Some c = active then 1 else 0)) bottleneck_components)"

definition set_volume_capacity :: "volume_labels \<Rightarrow> nat \<Rightarrow> metrics \<Rightarrow> metrics" where
  "set_volume_capacity l capacity =
     prom [SetGauge ''iscsi_s3_volume_capacity_bytes'' (vol_labels l) (as_i64 capacity)]"

definition record_scsi :: "string \<Rightarrow> rat \<Rightarrow> perf_counters \<Rightarrow> perf_counters" where
  "record_scsi op elapsed p =
     (if op = ''read'' then p\<lparr>pc_scsi_read := record_latency elapsed (pc_scsi_read p)\<rparr>
      else if op = ''write'' then p\<lparr>pc_scsi_write := record_latency elapsed (pc_scsi_write p)\<rparr>
      else if op = ''flush'' then p\<lparr>pc_scsi_flush := record_latency elapsed (pc_scsi_flush p)\<rparr>
      else p)"

definition observe_scsi :: "volume_labels \<Rightarrow> string \<Rightarrow> nat \<Rightarrow> rat \<Rightarrow> bool \<Rightarrow> metrics \<Rightarrow> metrics" where
  "observe_scsi l op bytes elapsed ok m =
     (let ls = vol_labels l @ [op];
          m1 = prom ([Inc ''iscsi_s3_scsi_ops_total'' ls, Observe ''iscsi_s3_scsi_op_duration_seconds'' ls elapsed] @
                 (if ok \<and> bytes > 0 then [IncBy ''iscsi_s3_scsi_bytes_total'' ls bytes] else [])) m
      in m1\<lparr>mt_perf := record_scsi op elapsed (mt_perf m1)\<rparr>)"

definition record_s3 :: "string \<Rightarrow> rat \<Rightarrow> perf_counters \<Rightarrow> perf_counters" where
  "record_s3 op elapsed p =
     (if op = ''get'' then p\<lparr>pc_s3_get := record_latency elapsed (pc_s3_get p)\<rparr>
      else if op = ''put'' then p\<lparr>pc_s3_put := record_latency elapsed (pc_s3_put p)\<rparr>
      else p)"

definition observe_s3 :: "volume_labels \<Rightarrow> string \<Rightarrow> nat \<Rightarrow> rat \<Rightarrow> bool \<Rightarrow> metrics \<Rightarrow> metrics" where
  "observe_s3 l op bytes elapsed ok m =
     (let ls = vol_labels l @ [op]; r = (if ok then ''ok'' else ''error'');
          m1 = prom ([Inc ''iscsi_s3_s3_ops_total'' (ls @ [r]), Observe ''iscsi_s3_s3_op_duration_seconds'' ls elapsed] @
                 (if ok \<and> bytes > 0 \<and> (op = ''get'' \<or> op = ''put'') then [IncBy ''iscsi_s3_s3_bytes_total'' ls bytes] else [])) m
      in m1\<lparr>mt_perf := record_s3 op elapsed (mt_perf m1)\<rparr>)"

definition observe_cache :: "volume_labels \<Rightarrow> bool \<Rightarrow> metrics \<Rightarrow> metrics" where
  "observe_cache l hit m =
     (let m1 = prom [Inc ''iscsi_s3_cache_ops_total'' (vol_labels l @ [if hit then ''hit'' else ''miss''])] m; p = mt_perf m1
      in m1\<lparr>mt_perf := (if hit then p\<lparr>pc_cache_hits := wrap_add (pc_cache_hits p) 1\<rparr>
                         else p\<lparr>pc_cache_misses := wrap_add (pc_cache_misses p) 1\<rparr>)\<rparr>)"

definition set_cache_stats :: "nat \<Rightarrow> nat \<Rightarrow> metrics \<Rightarrow> metrics" where
  "set_cache_stats bytes entries =
     prom [SetGauge ''iscsi_s3_cache_bytes'' [] (as_i64 bytes), SetGauge ''iscsi_s3_cache_entries'' [] (as_i64 entries)]"

definition set_write_cache_bytes :: "nat \<Rightarrow> metrics \<Rightarrow> metrics" where
  "set_write_cache_bytes bytes = prom [SetGauge ''iscsi_s3_write_cache_bytes'' [] (as_i64 bytes)]"

definition set_write_buffer_stats :: "nat \<Rightarrow> nat \<Rightarrow> metrics \<Rightarrow> metrics" where
  "set_write_buffer_stats bytes chunks =
     prom [SetGauge ''iscsi_s3_write_buffer_bytes'' [] (as_i64 bytes), SetGauge ''iscsi_s3_write_buffer_chunks'' [] (as_i64 chunks)]"

definition set_iscsi_gauges :: "nat \<Rightarrow> nat \<Rightarrow> metrics \<Rightarrow> metrics" where
  "set_iscsi_gauges connections sessions =
     prom [SetGauge ''iscsi_s3_iscsi_connections'' [] (as_i64 connections), SetGauge ''iscsi_s3_iscsi_sessions'' [] (as_i64 sessions)]"

definition session_started :: "volume_labels \<Rightarrow> metrics \<Rightarrow> metrics" where
  "session_started l =
     prom [Inc ''iscsi_s3_iscsi_sessions_total'' (vol_labels l), AddGauge ''iscsi_s3_iscsi_sessions_active'' (vol_labels l) 1]"

definition session_ended :: "volume_labels \<Rightarrow> metrics \<Rightarrow> metrics" where
  "session_ended l = prom [AddGauge ''iscsi_s3_iscsi_sessions_active'' (vol_labels l) (-1)]"

section \<open>Live sessions\<close>

record live_session_inner =
  lsi_volume :: string
  lsi_target_iqn :: string
  lsi_initiator_iqn :: string
  lsi_peer :: string
  lsi_started :: nat

record live_session =
  ls_volume :: string
  ls_target_iqn :: string
  ls_initiator_iqn :: string
  ls_peer :: string
  ls_started_secs_ago :: nat

record session_sink =
  sk_metrics :: metrics
  sk_by_iqn :: "(string \<times> volume_labels) list"
  sk_live :: "((string \<times> string) \<times> live_session_inner) list"

text \<open>The event of the target library: the fields the sink reads.\<close>

record session_event =
  ev_target_iqn :: string
  ev_initiator_iqn :: string
  ev_peer :: string

definition sink_new :: "metrics \<Rightarrow> volume_labels list \<Rightarrow> session_sink" where
  "sink_new m vols =
     (let by_iqn = fold (\<lambda>v. AList.update (vl_iqn v) v) vols [] in
      \<lparr>sk_metrics = prom (map (\<lambda>x. SetGauge ''iscsi_s3_iscsi_sessions_active'' (vol_labels (snd x)) 0) by_iqn) m,
       sk_by_iqn = by_iqn, sk_live = []\<rparr>)"

text \<open>Instants are nanoseconds; \<open>duration_since\<close> of a later instant is zero.\<close>

definition list_sessions :: "nat \<Rightarrow> string option \<Rightarrow> session_sink \<Rightarrow> live_session list" where
  "list_sessions now sel k =
     sort_key (\<lambda>s. (ls_volume s, ls_peer s, ls_initiator_iqn s))
       (map (\<lambda>s. \<lparr>ls_volume = lsi_volume s, ls_target_iqn = lsi_target_iqn s, ls_initiator_iqn = lsi_initiator_iqn s,
                  ls_peer = lsi_peer s, ls_started_secs_ago = (now - lsi_started s) div 1000000000\<rparr>)
         (filter (\<lambda>s. case sel of None \<Rightarrow> True | Some x \<Rightarrow> lsi_volume s = x \<or> lsi_target_iqn s = x)
           (map snd (sk_live k))))"

definition on_session_start :: "nat \<Rightarrow> session_event \<Rightarrow> session_sink \<Rightarrow> session_sink" where
  "on_session_start now ev k =
     (case map_of (sk_by_iqn k) (ev_target_iqn ev) of
        None \<Rightarrow> k
      | Some l \<Rightarrow>
          k\<lparr>sk_metrics := session_started l (sk_metrics k),
            sk_live := AList.update (ev_target_iqn ev, ev_peer ev)
              \<lparr>lsi_volume = vl_volume l, lsi_target_iqn = ev_target_iqn ev, lsi_initiator_iqn = ev_initiator_iqn ev,
               lsi_peer = ev_peer ev, lsi_started = now\<rparr> (sk_live k)\<rparr>)"

definition on_session_end :: "session_event \<Rightarrow> session_sink \<Rightarrow> session_sink" where
  "on_session_end ev k =
     (case map_of (sk_by_iqn k) (ev_target_iqn ev) of
        None \<Rightarrow> k
      | Some l \<Rightarrow>
          k\<lparr>sk_metrics := session_ended l (sk_metrics k),
            sk_live := AList.delete (ev_target_iqn ev, ev_peer ev) (sk_live k)\<rparr>)"

section \<open>The session gauge counts the live sessions\<close>

text \<open>The value of a gauge after a sequence of calls.\<close>

fun gauge_step :: "string \<Rightarrow> string list \<Rightarrow> prom_call \<Rightarrow> int \<Rightarrow> int" where
  "gauge_step n ls (SetGauge n' ls' v) x = (if n' = n \<and> ls' = ls then v else x)"
| "gauge_step n ls (AddGauge n' ls' v) x = (if n' = n \<and> ls' = ls then x + v else x)"
| "gauge_step n ls _ x = x"

definition gauge :: "string \<Rightarrow> string list \<Rightarrow> metrics \<Rightarrow> int" where
  "gauge n ls m = fold (gauge_step n ls) (mt_calls m) 0"

lemma gauge_prom [simp]: "gauge n ls (prom cs m) = fold (gauge_step n ls) cs (gauge n ls m)"
  by (simp add: gauge_def prom_def)

text \<open>
  The runs of a target whose connections have distinct peer addresses while they are open: a session
  starts under a key that is not live and ends once.
\<close>

inductive sink_run :: "metrics \<Rightarrow> volume_labels list \<Rightarrow> session_sink \<Rightarrow> bool" for m vols where
  init: "sink_run m vols (sink_new m vols)"
| start: "sink_run m vols k \<Longrightarrow> (ev_target_iqn ev, ev_peer ev) \<notin> fst ` set (sk_live k) \<Longrightarrow>
    sink_run m vols (on_session_start now ev k)"
| stop: "sink_run m vols k \<Longrightarrow> (ev_target_iqn ev, ev_peer ev) \<in> fst ` set (sk_live k) \<Longrightarrow>
    sink_run m vols (on_session_end ev k)"

definition live_count :: "string \<Rightarrow> session_sink \<Rightarrow> nat" where
  "live_count iqn k = length (filter (\<lambda>x. fst (fst x) = iqn) (sk_live k))"

definition sink_inv :: "session_sink \<Rightarrow> bool" where
  "sink_inv k \<longleftrightarrow>
     distinct (map fst (sk_live k)) \<and>
     (\<forall>iqn l. map_of (sk_by_iqn k) iqn = Some l \<longrightarrow> vl_iqn l = iqn \<and>
        gauge ''iscsi_s3_iscsi_sessions_active'' (vol_labels l) (sk_metrics k) = int (live_count iqn k))"

lemma by_iqn_labels: "map_of (fold (\<lambda>v. AList.update (vl_iqn v) v) vols []) iqn = Some l \<Longrightarrow> vl_iqn l = iqn"
proof (induction vols rule: rev_induct)
  case (snoc v vols)
  then show ?case by (auto simp: update_conv' split: if_splits)
qed simp

lemma gauge_zeroed:
  "fold (gauge_step n ls) (map (\<lambda>x. SetGauge n (f x) 0) xs) g = (if ls \<in> f ` set xs then 0 else g)"
  by (induction xs arbitrary: g) auto

lemma sink_new_inv: "sink_inv (sink_new m vols)"
proof -
  have "vol_labels l \<in> (\<lambda>x. vol_labels (snd x)) ` set (sk_by_iqn (sink_new m vols))"
    if "map_of (sk_by_iqn (sink_new m vols)) iqn = Some l" for iqn l
    using map_of_SomeD [OF that] by force
  then have "gauge ''iscsi_s3_iscsi_sessions_active'' (vol_labels l) (sk_metrics (sink_new m vols)) = 0"
    if "map_of (sk_by_iqn (sink_new m vols)) iqn = Some l" for iqn l
    using that by (simp add: sink_new_def Let_def gauge_zeroed)
  moreover have "vl_iqn l = iqn" if "map_of (sk_by_iqn (sink_new m vols)) iqn = Some l" for iqn l
    by (rule by_iqn_labels [of vols]) (use that in \<open>simp add: sink_new_def Let_def\<close>)
  moreover have "sk_live (sink_new m vols) = []" by (simp add: sink_new_def Let_def)
  ultimately show ?thesis by (simp add: sink_inv_def live_count_def)
qed

lemma filter_update_fresh: "k \<notin> fst ` set xs \<Longrightarrow> AList.update k v xs = xs @ [(k, v)]"
  by (induction xs) auto

lemma length_filter_delete:
  assumes "distinct (map fst xs)"
  shows "length (filter P (AList.delete k xs)) =
    length (filter P xs) - (if \<exists>v. (k, v) \<in> set xs \<and> P (k, v) then 1 else 0)"
  using assms
proof (induction xs)
  case (Cons x xs)
  show ?case
  proof (cases "fst x = k")
    case True
    then have "k \<notin> fst ` set xs" using Cons.prems by auto
    then have "AList.delete k xs = xs" by (simp add: delete_id)
    then show ?thesis using True \<open>k \<notin> fst ` set xs\<close> by (cases x) (force simp: image_iff)
  next
    case False
    have "length (filter P xs) > 0" if "\<exists>v. (k, v) \<in> set xs \<and> P (k, v)"
      using that by (force simp: filter_empty_conv)
    then show ?thesis using Cons False by (cases x) auto
  qed
qed simp

lemma sink_invD:
  assumes "sink_inv k" and "map_of (sk_by_iqn k) iqn = Some l"
  shows "vl_iqn l = iqn"
    and "gauge ''iscsi_s3_iscsi_sessions_active'' [vl_volume l, iqn] (sk_metrics k) = int (live_count iqn k)"
  using assms by (auto simp: sink_inv_def vol_labels_def)

lemma sink_start_inv:
  assumes k: "sink_inv k" and new: "(ev_target_iqn ev, ev_peer ev) \<notin> fst ` set (sk_live k)"
  shows "sink_inv (on_session_start now ev k)"
proof (cases "map_of (sk_by_iqn k) (ev_target_iqn ev)")
  case None
  then show ?thesis using k by (simp add: on_session_start_def)
next
  case (Some l)
  have count: "live_count iqn (on_session_start now ev k) = live_count iqn k + (if iqn = ev_target_iqn ev then 1 else 0)" for iqn
    by (simp add: live_count_def on_session_start_def Some filter_update_fresh [OF new])
  have "distinct (map fst (sk_live (on_session_start now ev k)))"
    using k new by (simp add: on_session_start_def Some filter_update_fresh sink_inv_def)
  then show ?thesis
    unfolding sink_inv_def count using sink_invD [OF k]
    by (auto simp: on_session_start_def Some session_started_def vol_labels_def)
qed

lemma sink_stop_inv:
  assumes k: "sink_inv k" and live: "(ev_target_iqn ev, ev_peer ev) \<in> fst ` set (sk_live k)"
  shows "sink_inv (on_session_end ev k)"
proof (cases "map_of (sk_by_iqn k) (ev_target_iqn ev)")
  case None
  then show ?thesis using k by (simp add: on_session_end_def)
next
  case (Some l)
  have d: "distinct (map fst (sk_live k))" using k by (simp add: sink_inv_def)
  have pos: "0 < live_count (ev_target_iqn ev) k"
    using live by (force simp: live_count_def filter_empty_conv)
  have count: "live_count iqn (on_session_end ev k) = live_count iqn k - (if iqn = ev_target_iqn ev then 1 else 0)" for iqn
    using live by (auto simp: live_count_def on_session_end_def Some length_filter_delete [OF d])
  have "distinct (map fst (sk_live (on_session_end ev k)))"
    using d by (simp add: on_session_end_def Some distinct_delete)
  then show ?thesis
    unfolding sink_inv_def count using sink_invD [OF k] pos
    by (auto simp: on_session_end_def Some session_ended_def vol_labels_def of_nat_diff)
qed

lemma sink_run_inv: "sink_run m vols k \<Longrightarrow> sink_inv k"
  by (induction rule: sink_run.induct) (auto intro: sink_new_inv sink_start_inv sink_stop_inv)


definition demo_sink :: session_sink where
  "demo_sink =
     (let ev = \<lparr>ev_target_iqn = ''a'', ev_initiator_iqn = ''i'', ev_peer = ''p''\<rparr> in
      on_session_start 5 (ev\<lparr>ev_peer := ''q''\<rparr>) (on_session_start 3 ev
        (sink_new metrics_new [\<lparr>vl_volume = ''v'', vl_iqn = ''a''\<rparr>])))"


end
