(* ===== verification/Perf.thy ===== *)
theory Perf
  imports Metrics
begin

text \<open>
  \<open>src/perf.rs\<close>: the background analyser that names the bottleneck. \<open>decide\<close> judges one window,
  \<open>tracker_observe\<close> adds hysteresis, \<open>perf_window\<close> is one round of the thread's loop. Ratios are
  exact rationals where the code has \<open>f64\<close>; the additions of \<open>u64\<close> counters wrap.
\<close>

datatype perf_component = S3Read | S3Write | ReadCache | WriteCache | WriteBuffer | Iscsi

fun component_as_str :: "perf_component \<Rightarrow> string" where
  "component_as_str S3Read = ''s3_read''"
| "component_as_str S3Write = ''s3_write''"
| "component_as_str ReadCache = ''read_cache''"
| "component_as_str WriteCache = ''write_cache''"
| "component_as_str WriteBuffer = ''write_buffer''"
| "component_as_str Iscsi = ''iscsi''"

record window_sample =
  ws_scsi_read :: latency_accum
  ws_scsi_write :: latency_accum
  ws_scsi_flush :: latency_accum
  ws_s3_get :: latency_accum
  ws_s3_put :: latency_accum
  ws_cache_hits :: nat
  ws_cache_misses :: nat
  ws_read_cache_used :: nat
  ws_read_cache_max :: nat
  ws_write_cache_dirty :: nat
  ws_write_cache_max :: nat
  ws_write_cache_dirty_prev :: nat
  ws_write_buffer_bytes :: nat
  ws_write_buffer_max :: nat
  ws_write_buffer_bytes_prev :: nat

definition sample_from_counters ::
  "perf_counters \<Rightarrow> nat \<Rightarrow> nat \<Rightarrow> nat \<Rightarrow> nat \<Rightarrow> nat \<Rightarrow> nat \<Rightarrow> nat \<Rightarrow> nat \<Rightarrow> window_sample" where
  "sample_from_counters c used rmax dirty wmax dirty_prev buf bmax buf_prev =
     \<lparr>ws_scsi_read = pc_scsi_read c, ws_scsi_write = pc_scsi_write c, ws_scsi_flush = pc_scsi_flush c,
      ws_s3_get = pc_s3_get c, ws_s3_put = pc_s3_put c, ws_cache_hits = pc_cache_hits c,
      ws_cache_misses = pc_cache_misses c, ws_read_cache_used = used, ws_read_cache_max = rmax,
      ws_write_cache_dirty = dirty, ws_write_cache_max = wmax, ws_write_cache_dirty_prev = dirty_prev,
      ws_write_buffer_bytes = buf, ws_write_buffer_max = bmax, ws_write_buffer_bytes_prev = buf_prev\<rparr>"

section \<open>Hysteresis\<close>

definition hysteresis_windows :: nat where "hysteresis_windows = 2"

record bottleneck_tracker =
  bt_pending :: "perf_component option"
  bt_streak :: nat
  bt_lit :: "perf_component option"

definition tracker_new :: bottleneck_tracker where
  "tracker_new = \<lparr>bt_pending = None, bt_streak = 0, bt_lit = None\<rparr>"

text \<open>\<open>streak\<close> is a \<open>u8\<close> with a saturating addition.\<close>

definition tracker_observe :: "perf_component option \<Rightarrow> bottleneck_tracker \<Rightarrow> perf_component option \<times> bottleneck_tracker" where
  "tracker_observe winner t =
     (if winner = bt_lit t then (bt_lit t, t\<lparr>bt_pending := None, bt_streak := 0\<rparr>)
      else
        let t1 = (if bt_pending t = winner then t\<lparr>bt_streak := min (bt_streak t + 1) 255\<rparr>
                  else t\<lparr>bt_pending := winner, bt_streak := 1\<rparr>);
            t2 = (if hysteresis_windows \<le> bt_streak t1 then \<lparr>bt_pending = None, bt_streak = 0, bt_lit = winner\<rparr> else t1)
        in (bt_lit t2, t2))"

section \<open>The decision of one window\<close>

definition min_ops :: nat where "min_ops = 8"
definition write_cache_fill_ratio :: rat where "write_cache_fill_ratio = 85 / 100"
definition write_cache_min_drain :: rat where "write_cache_min_drain = 10 / 100"
definition read_cache_fill_ratio :: rat where "read_cache_fill_ratio = 90 / 100"
definition read_cache_miss :: rat where "read_cache_miss = 25 / 100"
definition s3_avg_secs :: rat where "s3_avg_secs = 50 / 1000"
definition iscsi_avg_secs :: rat where "iscsi_avg_secs = 20 / 1000"
definition s3_share_of_scsi :: rat where "s3_share_of_scsi = 40 / 100"
definition majority :: rat where "majority = 50 / 100"

definition write_buffer_pinned :: "window_sample \<Rightarrow> bool" where
  "write_buffer_pinned s =
     (if ws_write_buffer_max s = 0 \<or> la_count (ws_scsi_write s) = 0 then False
      else if of_nat (ws_write_buffer_bytes s) / of_nat (ws_write_buffer_max s) < write_cache_fill_ratio then False
      else if ws_write_buffer_bytes_prev s = 0 \<or> ws_write_buffer_bytes_prev s \<le> ws_write_buffer_bytes s then True
      else of_nat (ws_write_buffer_bytes_prev s - ws_write_buffer_bytes s) / of_nat (ws_write_buffer_bytes_prev s)
             < write_cache_min_drain)"

definition write_cache_pinned :: "window_sample \<Rightarrow> bool" where
  "write_cache_pinned s =
     (if ws_write_cache_max s = 0 \<or> la_count (ws_scsi_write s) = 0 then False
      else if of_nat (ws_write_cache_dirty s) / of_nat (ws_write_cache_max s) < write_cache_fill_ratio then False
      else if ws_write_cache_dirty_prev s = 0 \<or> ws_write_cache_dirty_prev s \<le> ws_write_cache_dirty s then True
      else of_nat (ws_write_cache_dirty_prev s - ws_write_cache_dirty s) / of_nat (ws_write_cache_dirty_prev s)
             < write_cache_min_drain)"

definition read_cache_thrashing :: "window_sample \<Rightarrow> bool" where
  "read_cache_thrashing s =
     (if ws_read_cache_max s = 0 then False
      else
        let lookups = sat_add (ws_cache_hits s) (ws_cache_misses s) in
        if lookups < min_ops then False
        else read_cache_fill_ratio \<le> of_nat (ws_read_cache_used s) / of_nat (ws_read_cache_max s) \<and>
             read_cache_miss \<le> of_nat (ws_cache_misses s) / of_nat lookups)"

definition s3_read_score :: "window_sample \<Rightarrow> rat option" where
  "s3_read_score s =
     (if la_count (ws_s3_get s) < min_ops \<or> la_count (ws_scsi_read s) < min_ops then None
      else if avg_secs (ws_s3_get s) < s3_avg_secs then None
      else
        let get = total_secs (ws_s3_get s); scsi = total_secs (ws_scsi_read s) in
        if scsi \<le> 0 \<or> get < scsi * majority then None else Some get)"

definition s3_write_score :: "window_sample \<Rightarrow> rat option" where
  "s3_write_score s =
     (let scsi_ops = wrap_add (la_count (ws_scsi_write s)) (la_count (ws_scsi_flush s)) in
      if la_count (ws_s3_put s) < min_ops \<or> scsi_ops < min_ops then None
      else if avg_secs (ws_s3_put s) < s3_avg_secs then None
      else
        let put = total_secs (ws_s3_put s); scsi = total_secs (ws_scsi_write s) + total_secs (ws_scsi_flush s) in
        if scsi \<le> 0 \<or> put < scsi * majority then None else Some put)"

definition scsi_count :: "window_sample \<Rightarrow> nat" where
  "scsi_count s =
     wrap_add (wrap_add (la_count (ws_scsi_read s)) (la_count (ws_scsi_write s))) (la_count (ws_scsi_flush s))"

definition iscsi_score :: "window_sample \<Rightarrow> rat option" where
  "iscsi_score s =
     (let count = scsi_count s in
      if count < min_ops then None
      else
        let scsi = total_secs (ws_scsi_read s) + total_secs (ws_scsi_write s) + total_secs (ws_scsi_flush s) in
        if scsi \<le> 0 \<or> scsi / of_nat count < iscsi_avg_secs then None
        else
          let s3 = total_secs (ws_s3_get s) + total_secs (ws_s3_put s) in
          if scsi * s3_share_of_scsi \<le> s3 then None else Some (scsi - s3))"

definition consider_score :: "perf_component \<Rightarrow> rat \<Rightarrow> (perf_component \<times> rat) option \<Rightarrow> (perf_component \<times> rat) option" where
  "consider_score c score best =
     (case best of Some (_, prev) \<Rightarrow> if score \<le> prev then best else Some (c, score) | None \<Rightarrow> Some (c, score))"

definition consider_opt :: "perf_component \<Rightarrow> rat option \<Rightarrow> (perf_component \<times> rat) option \<Rightarrow> (perf_component \<times> rat) option" where
  "consider_opt c score best = (case score of None \<Rightarrow> best | Some x \<Rightarrow> consider_score c x best)"

definition decide :: "window_sample \<Rightarrow> perf_component option" where
  "decide s =
     (let s3_ops = wrap_add (la_count (ws_s3_get s)) (la_count (ws_s3_put s)) in
      if scsi_count s < min_ops \<and> s3_ops < min_ops then None
      else if write_buffer_pinned s then Some WriteBuffer
      else if write_cache_pinned s then Some WriteCache
      else if read_cache_thrashing s then Some ReadCache
      else map_option fst
        (consider_opt Iscsi (iscsi_score s) (consider_opt S3Read (s3_read_score s) (consider_opt S3Write (s3_write_score s) None))))"

section \<open>The analyser thread\<close>

text \<open>What the thread reads of a volume's store.\<close>

record store_fill =
  sf_mode_none :: bool
  sf_max_bytes :: nat
  sf_dirty_bytes :: nat
  sf_buffer_max_bytes :: nat
  sf_buffer_bytes :: nat

definition write_buffer_fill :: "store_fill list \<Rightarrow> nat \<times> nat" where
  "write_buffer_fill stores =
     fold (\<lambda>s (bytes, mx). if sf_buffer_max_bytes s = 0 then (bytes, mx)
        else (sat_add bytes (sf_buffer_bytes s), sat_add mx (sf_buffer_max_bytes s))) stores (0, 0)"

definition write_cache_fill :: "store_fill list \<Rightarrow> nat \<times> nat" where
  "write_cache_fill stores =
     fold (\<lambda>s (dirty, mx). if sf_max_bytes s = 0 \<or> sf_mode_none s then (dirty, mx)
        else (sat_add dirty (sf_dirty_bytes s), sat_add mx (sf_max_bytes s))) stores (0, 0)"

record perf_thread =
  pt_prev :: perf_counters
  pt_prev_dirty :: nat
  pt_prev_buffer :: nat
  pt_tracker :: bottleneck_tracker

definition perf_start :: "metrics \<Rightarrow> store_fill list \<Rightarrow> perf_thread" where
  "perf_start m stores =
     \<lparr>pt_prev = mt_perf m, pt_prev_dirty = fst (write_cache_fill stores), pt_prev_buffer = fst (write_buffer_fill stores),
      pt_tracker = tracker_new\<rparr>"

definition perf_window ::
  "store_fill list \<Rightarrow> nat \<Rightarrow> nat \<Rightarrow> perf_thread \<times> metrics \<Rightarrow> perf_thread \<times> metrics" where
  "perf_window stores used cache_max st =
     (let (t, m) = st; now = mt_perf m; counters = perf_delta now (pt_prev t);
          (dirty, write_max) = write_cache_fill stores; (buf, buf_max) = write_buffer_fill stores;
          sample = sample_from_counters counters used cache_max dirty write_max (pt_prev_dirty t) buf buf_max (pt_prev_buffer t);
          (next, tracker) = tracker_observe (decide sample) (pt_tracker t)
      in (\<lparr>pt_prev = now, pt_prev_dirty = dirty, pt_prev_buffer = buf, pt_tracker = tracker\<rparr>,
          set_bottleneck (map_option component_as_str next) m))"

section \<open>Properties\<close>

definition tracked :: "perf_component option list \<Rightarrow> bottleneck_tracker" where
  "tracked ws = fold (\<lambda>w t. snd (tracker_observe w t)) ws tracker_new"

definition tracker_inv :: "perf_component option list \<Rightarrow> bottleneck_tracker \<Rightarrow> bool" where
  "tracker_inv ws t \<longleftrightarrow>
     bt_streak t < 2 \<and> (bt_streak t = 0 \<longrightarrow> bt_pending t = None) \<and>
     (bt_streak t = 1 \<longrightarrow> bt_pending t \<noteq> bt_lit t \<and> ws \<noteq> [] \<and> last ws = bt_pending t)"

lemma tracker_step_inv: "tracker_inv ws t \<Longrightarrow> tracker_inv (ws @ [w]) (snd (tracker_observe w t))"
  by (auto simp: tracker_inv_def tracker_observe_def hysteresis_windows_def Let_def)

lemma tracked_inv: "tracker_inv ws (tracked ws)"
proof (induction ws rule: rev_induct)
  case Nil
  then show ?case by (simp add: tracker_inv_def tracked_def tracker_new_def)
next
  case (snoc w ws)
  then show ?case using tracker_step_inv by (simp add: tracked_def)
qed

lemma tracked_snoc: "tracked (ws @ [w]) = snd (tracker_observe w (tracked ws))"
  by (simp add: tracked_def)

text \<open>
  C19: Hysteresis. After any sequence of window decisions, one more window changes the reported
  component only to that window's decision and only if the window before decided the same; and two
  equal decisions in a row are always reported.
\<close>

theorem tracker_hysteresis:
  "(bt_lit (tracked (ws @ [w])) = bt_lit (tracked ws) \<or>
    bt_lit (tracked (ws @ [w])) = w \<and> ws \<noteq> [] \<and> last ws = w) \<and>
   bt_lit (tracked (ws @ [w, w])) = w"
proof -
  have two: "tracked (ws @ [w, w]) = snd (tracker_observe w (snd (tracker_observe w (tracked ws))))"
    by (simp add: tracked_def)
  show ?thesis
    using tracked_inv [of ws] unfolding two tracked_snoc
    by (auto simp: tracker_inv_def tracker_observe_def hysteresis_windows_def Let_def)
qed

lemma component_listed: "component_as_str c \<in> set bottleneck_components"
  by (cases c) (simp_all add: bottleneck_components_def)

lemma component_as_str_inject: "component_as_str c = component_as_str c' \<longleftrightarrow> c = c'"
  by (cases c; cases c') simp_all

lemma gauge_set_each:
  "distinct cs \<Longrightarrow> fold (gauge_step n [x]) (map (\<lambda>c. SetGauge n [c] (f c)) cs) g = (if x \<in> set cs then f x else g)"
  by (induction cs arbitrary: g) auto

lemma bottleneck_distinct: "distinct bottleneck_components"
  by (simp add: bottleneck_components_def)

lemma set_bottleneck_gauge:
  "gauge ''iscsi_s3_bottleneck'' [component_as_str c] (set_bottleneck (map_option component_as_str a) m) =
     (if a = Some c then 1 else 0)"
  unfolding set_bottleneck_def gauge_prom gauge_set_each [OF bottleneck_distinct]
  by (cases a) (auto simp: component_listed component_as_str_inject)

text \<open>
  C20: After every window of the analyser the exported gauge is 1 for exactly the component that the
  tracker reports and 0 for all others: at most one component is lit.
\<close>

theorem window_lights_one:
  assumes "perf_window stores used cmax (t, m) = (t', m')"
  shows "gauge ''iscsi_s3_bottleneck'' [component_as_str c] m' = (if bt_lit (pt_tracker t') = Some c then 1 else 0)"
proof -
  have "fst (tracker_observe w b) = bt_lit (snd (tracker_observe w b))" for w b
    by (simp add: tracker_observe_def Let_def)
  then have "m' = set_bottleneck (map_option component_as_str (bt_lit (pt_tracker t'))) m"
    using assms by (auto simp: perf_window_def Let_def split: prod.splits) (metis fst_conv snd_conv)
  then show ?thesis by (simp add: set_bottleneck_gauge)
qed

definition busy_metrics :: metrics where
  "busy_metrics =
     (let lat = \<lparr>la_count = 10, la_sum_us = 1000000\<rparr> in
      metrics_new\<lparr>mt_perf := perf_zero\<lparr>pc_scsi_read := lat, pc_s3_get := lat\<rparr>\<rparr>)"

theorem window_lights_one_witness:
  "perf_window [] 0 0 (perf_start metrics_new [], busy_metrics) =
     (fst (perf_window [] 0 0 (perf_start metrics_new [], busy_metrics)),
      snd (perf_window [] 0 0 (perf_start metrics_new [], busy_metrics))) \<and>
   bt_pending (pt_tracker (fst (perf_window [] 0 0 (perf_start metrics_new [], busy_metrics)))) = Some S3Read \<and>
   gauge ''iscsi_s3_bottleneck'' [component_as_str S3Read] (snd (perf_window [] 0 0 (perf_start metrics_new [], busy_metrics))) =
     (if bt_lit (pt_tracker (fst (perf_window [] 0 0 (perf_start metrics_new [], busy_metrics)))) = Some S3Read then 1 else 0)"
proof (intro conjI)
  show eq: "perf_window [] 0 0 (perf_start metrics_new [], busy_metrics) =
     (fst (perf_window [] 0 0 (perf_start metrics_new [], busy_metrics)),
      snd (perf_window [] 0 0 (perf_start metrics_new [], busy_metrics)))" by simp
  show "bt_pending (pt_tracker (fst (perf_window [] 0 0 (perf_start metrics_new [], busy_metrics)))) = Some S3Read" by code_simp
  show "gauge ''iscsi_s3_bottleneck'' [component_as_str S3Read] (snd (perf_window [] 0 0 (perf_start metrics_new [], busy_metrics))) =
     (if bt_lit (pt_tracker (fst (perf_window [] 0 0 (perf_start metrics_new [], busy_metrics)))) = Some S3Read then 1 else 0)"
    by (rule window_lights_one [OF eq])
qed

end
