(* ===== verification/Display.thy ===== *)
theory Display
  imports Prelude
begin

text \<open>
  Decimal numbers as Rust formats and parses them, and the messages of \<open>StoreError\<close> in
  \<open>src/store/mod.rs\<close>.
\<close>

definition dec_digit :: "nat \<Rightarrow> char" where
  "dec_digit n = char_of (48 + n)"

fun dec :: "nat \<Rightarrow> string" where
  "dec n = (if n < 10 then [dec_digit n] else dec (n div 10) @ [dec_digit (n mod 10)])"

definition to_digit10 :: "char \<Rightarrow> nat option" where
  "to_digit10 c = (let n = of_char c in if 48 \<le> n \<and> n \<le> 57 then Some (n - 48) else None)"

fun dec_val :: "nat \<Rightarrow> nat \<Rightarrow> string \<Rightarrow> nat option" where
  "dec_val lim acc [] = Some acc"
| "dec_val lim acc (c # cs) =
     (case to_digit10 c of
        None \<Rightarrow> None
      | Some d \<Rightarrow> if acc * 10 + d < lim then dec_val lim (acc * 10 + d) cs else None)"

text \<open>\<open>str::parse\<close> of an unsigned type with the given number of values: a leading \<open>+\<close> is accepted.\<close>

definition parse_unsigned :: "nat \<Rightarrow> string \<Rightarrow> nat option" where
  "parse_unsigned lim s =
     (case s of
        [] \<Rightarrow> None
      | c # cs \<Rightarrow>
          if c = CHR ''+'' then (if cs = [] then None else dec_val lim 0 cs) else dec_val lim 0 s)"

lemma to_digit10_dec [simp]: "n < 10 \<Longrightarrow> to_digit10 (dec_digit n) = Some n"
  by (simp add: to_digit10_def dec_digit_def Let_def)

lemma dec_digit_plus [simp]: "n < 10 \<Longrightarrow> dec_digit n \<noteq> CHR ''+''"
  using to_digit10_dec [of n] by (auto simp: to_digit10_def)

declare dec.simps [simp del]

lemma dec_val_append:
  "dec_val lim acc (xs @ ys) = (case dec_val lim acc xs of None \<Rightarrow> None | Some a \<Rightarrow> dec_val lim a ys)"
  by (induction xs arbitrary: acc) (auto split: option.splits)

lemma dec_val_dec: "n < lim \<Longrightarrow> dec_val lim 0 (dec n) = Some n"
proof (induction n rule: dec.induct)
  case (1 n)
  show ?case
  proof (cases "n < 10")
    case True
    then show ?thesis using "1.prems" by (simp add: dec.simps)
  next
    case False
    then have "dec_val lim 0 (dec (n div 10)) = Some (n div 10)"
      using 1 by simp
    moreover have "n div 10 * 10 + n mod 10 = n" by simp
    ultimately show ?thesis
      using False "1.prems" by (simp add: dec.simps [of n] dec_val_append)
  qed
qed

lemma dec_Cons: "\<exists>d cs. d < 10 \<and> dec n = dec_digit d # cs"
proof (induction n rule: dec.induct)
  case (1 n)
  then show ?case by (cases "n < 10") (fastforce simp: dec.simps [of n])+
qed

lemma parse_unsigned_dec: "n < lim \<Longrightarrow> parse_unsigned lim (dec n) = Some n"
  using dec_Cons [of n] dec_val_dec [of n lim] by (auto simp: parse_unsigned_def)

text \<open>
  The \<open>Debug\<close> form of a string: quoted, with quotes, backslashes and the ASCII control characters
  escaped. Bytes of other characters stand for themselves.
\<close>

definition hex_str :: "nat \<Rightarrow> string" where
  "hex_str n = (if n < 16 then [] else [if n div 16 < 10 then char_of (48 + n div 16) else char_of (87 + n div 16)]) @
     [if n mod 16 < 10 then char_of (48 + n mod 16) else char_of (87 + n mod 16)]"

definition escape_debug :: "char \<Rightarrow> string" where
  "escape_debug c =
     (let n = of_char c in
      if n = 0 then [CHR 0x5C, CHR ''0'']
      else if n = 9 then [CHR 0x5C, CHR ''t'']
      else if n = 10 then [CHR 0x5C, CHR ''n'']
      else if n = 13 then [CHR 0x5C, CHR ''r'']
      else if n = 34 \<or> n = 92 then [CHR 0x5C, c]
      else if n < 32 \<or> n = 127 then [CHR 0x5C, CHR ''u'', CHR ''{''] @ hex_str n @ [CHR ''}'']
      else [c])"

definition debug_str :: "string \<Rightarrow> string" where
  "debug_str s = [CHR 34] @ concat (map escape_debug s) @ [CHR 34]"

definition store_error_display :: "store_error \<Rightarrow> string" where
  "store_error_display e =
     (case e of
        OutOfRange off len cap \<Rightarrow>
          ''I/O out of range: offset='' @ dec off @ '' len='' @ dec len @ '' capacity='' @ dec cap
      | ShrinkRefused current requested \<Rightarrow> ''cannot shrink capacity from '' @ dec current @ '' to '' @ dec requested
      | GeometryMismatch m \<Rightarrow> ''geometry mismatch: '' @ m
      | S3 m \<Rightarrow> ''S3 error: '' @ m
      | Meta m \<Rightarrow> ''metadata error: '' @ m
      | Other m \<Rightarrow> m)"

end
