(* ===== verification/Device.thy ===== *)
theory Device
  imports Display BlockStore Identity Snapshot Metrics
begin

text \<open>
  \<open>src/device.rs\<close>: the SCSI block device over a block store. It turns logical block addresses into
  byte offsets, refuses a foreign block size and overflowing addresses, and records every request.
  The time a request took is an argument.
\<close>

section \<open>The device\<close>

datatype 'a scsi_result = SOk 'a | SErr string | SPanic

record 's device =
  dv_store :: 's
  dv_product :: string
  dv_serial :: string
  dv_naa :: bytes
  dv_labels :: volume_labels
  dv_metrics :: metrics

text \<open>\<open>String::truncate\<close> panics inside a character.\<close>

definition truncate_str :: "nat \<Rightarrow> string \<Rightarrow> string result" where
  "truncate_str n s =
     (if length s \<le> n then Ok s else if starts_at_boundary (drop n s) then Ok (take n s) else Panic)"

definition device_new :: "'s \<Rightarrow> volume_labels \<Rightarrow> metrics \<Rightarrow> 's device result" where
  "device_new store labels m =
     (case truncate_str 16 (''S3-'' @ vl_volume labels) of
        Ok p \<Rightarrow>
          Ok \<lparr>dv_store = store, dv_product = p @ replicate (16 - length p) (CHR '' ''),
              dv_serial = serial_from_iqn (vl_iqn labels), dv_naa = naa_from_iqn (vl_iqn labels),
              dv_labels = labels, dv_metrics = m\<rparr>
      | Err e \<Rightarrow> Err e
      | Panic \<Rightarrow> Panic)"

definition map_err :: "store_error \<Rightarrow> string" where
  "map_err e = store_error_display e"

definition dv_observe :: "string \<Rightarrow> nat \<Rightarrow> rat \<Rightarrow> bool \<Rightarrow> 's device \<Rightarrow> 's device" where
  "dv_observe op bytes el ok dv = dv\<lparr>dv_metrics := observe_scsi (dv_labels dv) op bytes el ok (dv_metrics dv)\<rparr>"

definition dv_fail :: "string \<Rightarrow> rat \<Rightarrow> store_error \<Rightarrow> 's device \<Rightarrow> 'a scsi_result \<times> 's device" where
  "dv_fail op el e dv = (SErr (map_err e), dv_observe op 0 el False dv)"

definition block_size_error :: "nat \<Rightarrow> nat \<Rightarrow> store_error" where
  "block_size_error block_size bs =
     GeometryMismatch (''unexpected block_size '' @ dec block_size @ '', expected '' @ dec bs)"

text \<open>The \<open>match\<close> on a store result that ends every request.\<close>

definition dv_finish :: "string \<Rightarrow> ('a \<Rightarrow> nat) \<Rightarrow> rat \<Rightarrow> 's device \<Rightarrow> 'a result \<times> 's \<Rightarrow> 'a scsi_result \<times> 's device" where
  "dv_finish op bytes el dv r =
     (case r of
        (Ok a, s) \<Rightarrow> (SOk a, dv_observe op (bytes a) el True (dv\<lparr>dv_store := s\<rparr>))
      | (Err e, s) \<Rightarrow> dv_fail op el e (dv\<lparr>dv_store := s\<rparr>)
      | (Panic, s) \<Rightarrow> (SPanic, dv\<lparr>dv_store := s\<rparr>))"

definition device_read ::
  "('s, 'm) store_ops_scheme \<Rightarrow> rat \<Rightarrow> nat \<Rightarrow> nat \<Rightarrow> nat \<Rightarrow> 's device \<Rightarrow> bytes scsi_result \<times> 's device" where
  "device_read B el lba blocks block_size dv =
     (let bs = bs_block_size B (dv_store dv) in
      if block_size \<noteq> bs then dv_fail ''read'' el (block_size_error block_size bs) dv
      else
        case checked_mul lba block_size of
          None \<Rightarrow> dv_fail ''read'' el (Other ''lba overflow'') dv
        | Some offset \<Rightarrow>
            (case checked_mul blocks block_size of
               None \<Rightarrow> dv_fail ''read'' el (Other ''length overflow'') dv
             | Some len \<Rightarrow>
                 if 2 ^ 63 \<le> len then (SPanic, dv)
                 else dv_finish ''read'' (\<lambda>_. len) el dv (bs_read_at B offset len (dv_store dv))))"

definition device_write ::
  "('s, 'm) store_ops_scheme \<Rightarrow> rat \<Rightarrow> nat \<Rightarrow> bytes \<Rightarrow> nat \<Rightarrow> 's device \<Rightarrow> unit scsi_result \<times> 's device" where
  "device_write B el lba data block_size dv =
     (let bs = bs_block_size B (dv_store dv) in
      if block_size \<noteq> bs then dv_fail ''write'' el (block_size_error block_size bs) dv
      else if block_size = 0 then (SPanic, dv)
      else if length data mod block_size \<noteq> 0 then
        dv_fail ''write'' el (Other ''write length not multiple of block_size'') dv
      else
        case checked_mul lba block_size of
          None \<Rightarrow> dv_fail ''write'' el (Other ''lba overflow'') dv
        | Some offset \<Rightarrow> dv_finish ''write'' (\<lambda>_. length data) el dv (bs_write_at B offset data (dv_store dv)))"

definition device_capacity :: "('s, 'm) store_ops_scheme \<Rightarrow> 's device \<Rightarrow> nat" where
  "device_capacity B dv = bs_capacity B (dv_store dv) div bs_block_size B (dv_store dv)"

definition device_flush :: "('s, 'm) store_ops_scheme \<Rightarrow> rat \<Rightarrow> 's device \<Rightarrow> unit scsi_result \<times> 's device" where
  "device_flush B el dv = dv_finish ''flush'' (\<lambda>_. 0) el dv (bs_flush B (dv_store dv))"

definition vendor_id :: string where "vendor_id = ''ISCSI-S3''"
definition product_rev :: string where "product_rev = ''0.1 ''"

section \<open>Requests in range\<close>

lemma dv_store_simps [simp]:
  "dv_store (dv_observe op n el ok dv) = dv_store dv" "dv_store (snd (dv_fail op el e dv)) = dv_store dv"
  "fst (dv_fail op el e dv) = SErr (map_err e)"
  by (simp_all add: dv_observe_def dv_fail_def)

lemma dv_finish_store [simp]: "dv_store (snd (dv_finish op f el dv r)) = snd r"
  by (auto simp: dv_finish_def dv_fail_def split: prod.split result.split)

lemma dv_finish_SOk: "fst (dv_finish op f el dv r) = SOk a \<longleftrightarrow> fst r = Ok a"
  by (auto simp: dv_finish_def dv_fail_def split: prod.split result.split)

lemma dv_finish_SPanic: "fst (dv_finish op f el dv r) = SPanic \<longleftrightarrow> fst r = Panic"
  by (auto simp: dv_finish_def dv_fail_def split: prod.split result.split)

lemma device_new_product:
  assumes "device_new s l m = Ok dv"
  shows "length (dv_product dv) = 16"
  using assms by (auto simp: device_new_def truncate_str_def split: if_splits result.splits)

text \<open>In units of blocks: the store accepts a range of bytes exactly if the blocks are below the capacity.\<close>

lemma block_range:
  assumes "wf_geom g"
  shows "lba * g_block g + n * g_block g \<le> g_cap g \<longleftrightarrow> lba + n \<le> g_cap g div g_block g"
proof -
  have "g_cap g div g_block g * g_block g = g_cap g" and pos: "0 < g_block g"
    using assms by (auto simp: wf_geom_def)
  then show ?thesis
    by (metis add_mult_distrib mult_le_cancel2 neq0_conv pos)
qed

context block_store
begin

lemma device_read_ok:
  assumes "Rep d g (dv_store dv)" and "device_read B el lba blocks block_size dv = (SOk buf, dv')"
  shows "block_size = g_block g \<and> lba + blocks \<le> device_capacity B dv \<and>
    buf = disk_read d (lba * block_size) (blocks * block_size) \<and> Rep d g (dv_store dv')"
proof -
  have g: "bs_block_size B (dv_store dv) = g_block g" "bs_capacity B (dv_store dv) = g_cap g" "wf_geom g"
    using geom [OF assms(1)] wf [OF assms(1)] by auto
  obtain len: "block_size = g_block g" "checked_mul lba block_size = Some (lba * block_size)"
      "checked_mul blocks block_size = Some (blocks * block_size)" "\<not> 2 ^ 63 \<le> blocks * block_size"
    and fin: "dv_finish ''read'' (\<lambda>_. blocks * block_size) el dv
      (bs_read_at B (lba * block_size) (blocks * block_size) (dv_store dv)) = (SOk buf, dv')"
    using assms(2) g(1)
    by (auto simp: device_read_def Let_def dv_fail_def checked_mul_def split: if_splits option.splits)
  let ?r = "bs_read_at B (lba * block_size) (blocks * block_size) (dv_store dv)"
  have "fst ?r = Ok buf" and store: "dv_store dv' = snd ?r"
    using fin dv_finish_SOk [of "''read''" _ el dv ?r buf] dv_finish_store [of "''read''" _ el dv ?r] by (metis fst_conv, metis snd_conv)
  then have "Rep d g (snd ?r) \<and> lba * block_size + blocks * block_size \<le> g_cap g \<and>
      buf = disk_read d (lba * block_size) (blocks * block_size)"
    using hoare_post [OF read_at assms(1), of "lba * block_size" "blocks * block_size"] by (cases ?r) simp
  then show ?thesis
    using len g block_range [OF g(3), of lba blocks] store by (simp add: device_capacity_def)
qed

lemma device_write_ok:
  assumes "Rep d g (dv_store dv)" and "device_write B el lba data block_size dv = (SOk (), dv')"
    and "adm_write adm (g_chunk g) d (lba * block_size) data"
  shows "block_size = g_block g \<and> block_size dvd length data \<and>
    lba + length data div block_size \<le> device_capacity B dv \<and> Rep (disk_write d (lba * block_size) data) g (dv_store dv')"
proof -
  have g: "bs_block_size B (dv_store dv) = g_block g" "bs_capacity B (dv_store dv) = g_cap g" "wf_geom g"
    using geom [OF assms(1)] wf [OF assms(1)] by auto
  obtain len: "block_size = g_block g" "block_size dvd length data"
    and fin: "dv_finish ''write'' (\<lambda>_. length data) el dv (bs_write_at B (lba * block_size) data (dv_store dv)) = (SOk (), dv')"
    using assms(2) g(1)
    by (auto simp: device_write_def Let_def dv_fail_def checked_mul_def split: if_splits option.splits)
  let ?r = "bs_write_at B (lba * block_size) data (dv_store dv)"
  have "fst ?r = Ok ()" and store: "dv_store dv' = snd ?r"
    using fin dv_finish_SOk [of "''write''" _ el dv ?r "()"] dv_finish_store [of "''write''" _ el dv ?r] by (metis fst_conv, metis snd_conv)
  then have "Rep (disk_write d (lba * block_size) data) g (snd ?r) \<and> lba * block_size + length data \<le> g_cap g"
    using hoare_post [OF write_at [OF assms(3)] assms(1)] by (cases ?r) simp
  moreover have "length data = length data div block_size * block_size" using len(2) by simp
  ultimately show ?thesis
    using len g block_range [OF g(3), of lba "length data div block_size"] store by (simp add: device_capacity_def)
qed

end

context reliable_block_store
begin

lemma device_read_iff:
  assumes rep: "Rep d g (dv_store dv)" and len: "blocks * g_block g < 2 ^ 63"
  shows "(\<exists>buf. fst (device_read B el lba blocks (g_block g) dv) = SOk buf) \<longleftrightarrow> lba + blocks \<le> device_capacity B dv"
proof
  assume "\<exists>buf. fst (device_read B el lba blocks (g_block g) dv) = SOk buf"
  then obtain buf dv' where "device_read B el lba blocks (g_block g) dv = (SOk buf, dv')" by (metis prod.collapse)
  from device_read_ok [OF rep this] show "lba + blocks \<le> device_capacity B dv" by simp
next
  assume le: "lba + blocks \<le> device_capacity B dv"
  have g: "bs_block_size B (dv_store dv) = g_block g" "bs_capacity B (dv_store dv) = g_cap g" "wf_geom g"
    using geom [OF rep] wf [OF rep] by auto
  have range: "lba * g_block g + blocks * g_block g \<le> g_cap g"
    using le block_range [OF g(3)] g by (simp add: device_capacity_def)
  then have "lba * g_block g < 2 ^ 64" "blocks * g_block g < 2 ^ 64"
    using g(3) by (auto simp: wf_geom_def)
  then have eq: "device_read B el lba blocks (g_block g) dv =
      dv_finish ''read'' (\<lambda>_. blocks * g_block g) el dv (bs_read_at B (lba * g_block g) (blocks * g_block g) (dv_store dv))"
    using len g(1) by (simp add: device_read_def checked_mul_def Let_def)
  have "\<exists>buf. fst (bs_read_at B (lba * g_block g) (blocks * g_block g) (dv_store dv)) = Ok buf"
    using hoare_post [OF read_ok [OF range] rep]
    by (cases "bs_read_at B (lba * g_block g) (blocks * g_block g) (dv_store dv)") (auto simp: post_def split: result.splits)
  then show "\<exists>buf. fst (device_read B el lba blocks (g_block g) dv) = SOk buf"
    unfolding eq dv_finish_SOk .
qed

end

end
