(* ===== verification/WriteCache.thy ===== *)
theory WriteCache
  imports BlockStore Codec Display
begin

text \<open>
  \<open>src/write_cache.rs\<close>: the write-back cache of a volume. Dirty chunks are kept in memory, in disk
  mode also in one file per chunk; an optional write buffer takes snapshots of old or quiet chunks,
  which a worker thread puts into the inner store.

  \<open>wcore\<close> is \<open>Core\<close> with the directory of the disk mode. A file system call takes the next entry of
  a script of faults, so that any call may fail and a failed write may leave part of its bytes. The
  clock \<open>wc_now\<close> is in nanoseconds. A wait on the condition variable is modelled by what other
  threads do meanwhile: \<open>pause_worker\<close> returns when the worker has parked, the loop of
  \<open>evict_into_buffer\<close> lets the worker make one round per wait and has fuel for the rounds.
\<close>

section \<open>Files\<close>

datatype io_fault = IoFault nat string

record fsys =
  fs_files :: "(string \<times> bytes) list"
  fs_faults :: "io_fault option list"

definition fs_next :: "fsys \<Rightarrow> io_fault option \<times> fsys" where
  "fs_next f = (case fs_faults f of [] \<Rightarrow> (None, f) | x # xs \<Rightarrow> (x, f\<lparr>fs_faults := xs\<rparr>))"

definition fs_call :: "(string \<Rightarrow> string) \<Rightarrow> (nat \<Rightarrow> fsys \<Rightarrow> fsys) \<Rightarrow> (fsys \<Rightarrow> 'a \<times> fsys) \<Rightarrow> (fsys, 'a) op" where
  "fs_call msg partial act f =
     (case fs_next f of
        (Some (IoFault n e), f') \<Rightarrow> (Err (Other (msg e)), partial n f')
      | (None, f') \<Rightarrow> (let (a, f'') = act f' in (Ok a, f'')))"

definition fs_set :: "string \<Rightarrow> bytes \<Rightarrow> fsys \<Rightarrow> fsys" where
  "fs_set name b f = f\<lparr>fs_files := AList.update name b (fs_files f)\<rparr>"

definition fs_unset :: "string \<Rightarrow> fsys \<Rightarrow> fsys" where
  "fs_unset name f = f\<lparr>fs_files := AList.delete name (fs_files f)\<rparr>"

definition fs_get :: "fsys \<Rightarrow> string \<Rightarrow> bytes option" where
  "fs_get f name = map_of (fs_files f) name"

definition fs_create :: "(string \<Rightarrow> string) \<Rightarrow> string \<Rightarrow> (fsys, unit) op" where
  "fs_create msg name = fs_call msg (\<lambda>_ f. f) (\<lambda>f. ((), fs_set name [] f))"

definition fs_write_all :: "(string \<Rightarrow> string) \<Rightarrow> string \<Rightarrow> bytes \<Rightarrow> (fsys, unit) op" where
  "fs_write_all msg name b = fs_call msg (\<lambda>n. fs_set name (take n b)) (\<lambda>f. ((), fs_set name b f))"

definition fs_touch :: "(string \<Rightarrow> string) \<Rightarrow> (fsys, unit) op" where
  "fs_touch msg = fs_call msg (\<lambda>_ f. f) (\<lambda>f. ((), f))"

definition fs_rename :: "(string \<Rightarrow> string) \<Rightarrow> string \<Rightarrow> string \<Rightarrow> (fsys, unit) op" where
  "fs_rename msg a b =
     fs_call msg (\<lambda>_ f. f) (\<lambda>f. ((), case fs_get f a of None \<Rightarrow> f | Some x \<Rightarrow> fs_set b x (fs_unset a f)))"

definition fs_remove :: "(string \<Rightarrow> string) \<Rightarrow> string \<Rightarrow> (fsys, unit) op" where
  "fs_remove msg name = fs_call msg (\<lambda>_ f. f) (\<lambda>f. ((), fs_unset name f))"

definition suffix_of :: "string \<Rightarrow> string \<Rightarrow> bool" where
  "suffix_of s x \<longleftrightarrow> length s \<le> length x \<and> drop (length x - length s) x = s"

definition path_join :: "string \<Rightarrow> string \<Rightarrow> string" where
  "path_join dir name = dir @ ''/'' @ name"

definition chunk_name :: "nat \<Rightarrow> string" where
  "chunk_name idx = hex_fixed hex_digit 16 idx"

definition chunk_path :: "string \<Rightarrow> nat \<Rightarrow> string" where
  "chunk_path dir idx = path_join dir (chunk_name idx)"

definition write_chunk_file :: "string \<Rightarrow> nat \<Rightarrow> bytes \<Rightarrow> (fsys, unit) op" where
  "write_chunk_file dir idx data =
     (let dest = chunk_name idx; tmp = dest @ ''.tmp'' in
      bind_op (fs_touch (\<lambda>e. ''create write-cache dir '' @ dir @ '': '' @ e)) (\<lambda>_.
      bind_op (fs_create (\<lambda>e. ''create '' @ path_join dir tmp @ '': '' @ e) tmp) (\<lambda>_.
      bind_op (fs_write_all (\<lambda>e. ''write '' @ path_join dir tmp @ '': '' @ e) tmp data) (\<lambda>_.
      bind_op (fs_touch (\<lambda>e. ''sync '' @ path_join dir tmp @ '': '' @ e)) (\<lambda>_.
        fs_rename (\<lambda>e. ''rename '' @ path_join dir tmp @ '' -> '' @ path_join dir dest @ '': '' @ e) tmp dest)))))"

section \<open>Dirty chunks\<close>

datatype write_cache_mode = WNone | WMemory | WDisk

record dirty_chunk =
  dc_data :: bytes
  dc_tick :: nat
  dc_written_at :: nat

record dirty_state =
  ds_chunks :: "(nat \<times> dirty_chunk) list"
  ds_tick :: nat
  ds_used :: nat

definition dirty_new :: dirty_state where
  "dirty_new = \<lparr>ds_chunks = [], ds_tick = 0, ds_used = 0\<rparr>"

definition dirty_insert :: "nat \<Rightarrow> nat \<Rightarrow> bytes \<Rightarrow> dirty_state \<Rightarrow> dirty_state" where
  "dirty_insert now idx data d =
     (let tick = wrap_add (ds_tick d) 1;
          used = (case map_of (ds_chunks d) idx of None \<Rightarrow> ds_used d | Some old \<Rightarrow> ds_used d - length (dc_data old))
      in \<lparr>ds_chunks = AList.update idx \<lparr>dc_data = data, dc_tick = tick, dc_written_at = now\<rparr> (ds_chunks d),
          ds_tick = tick, ds_used = sat_add used (length data)\<rparr>)"

definition dirty_remove :: "nat \<Rightarrow> dirty_state \<Rightarrow> bytes option \<times> dirty_state" where
  "dirty_remove idx d =
     (case map_of (ds_chunks d) idx of
        None \<Rightarrow> (None, d)
      | Some e \<Rightarrow>
          (Some (dc_data e),
           d\<lparr>ds_chunks := AList.delete idx (ds_chunks d), ds_used := ds_used d - length (dc_data e)\<rparr>))"

definition dirty_get :: "dirty_state \<Rightarrow> nat \<Rightarrow> bytes option" where
  "dirty_get d idx = map_option dc_data (map_of (ds_chunks d) idx)"

definition dirty_from_recovered :: "nat \<Rightarrow> (nat \<times> bytes) list \<Rightarrow> dirty_state" where
  "dirty_from_recovered now xs = fold (\<lambda>(idx, data). dirty_insert now idx data) xs dirty_new"

text \<open>\<open>min_by_key\<close> keeps the first of equal minima.\<close>

fun min_by :: "('a \<Rightarrow> nat) \<Rightarrow> 'a list \<Rightarrow> 'a option" where
  "min_by f [] = None"
| "min_by f (x # xs) = (case min_by f xs of None \<Rightarrow> Some x | Some y \<Rightarrow> if f x \<le> f y then Some x else Some y)"

definition oldest :: "dirty_state \<Rightarrow> nat option" where
  "oldest d = map_option fst (min_by (\<lambda>(_, e). dc_tick e) (ds_chunks d))"

definition quiet_period :: nat where "quiet_period = 100000000"

definition oldest_quiet :: "nat \<Rightarrow> dirty_state \<Rightarrow> nat option" where
  "oldest_quiet now d =
     map_option fst (min_by (\<lambda>(_, c). dc_written_at c)
       (filter (\<lambda>(_, c). quiet_period \<le> now - dc_written_at c) (ds_chunks d)))"

section \<open>The write buffer\<close>

record buffered_chunk =
  bc_data :: bytes
  bc_generation :: nat

record job =
  jb_idx :: nat
  jb_data :: bytes
  jb_generation :: nat

record buf_state =
  bu_chunks :: "(nat \<times> buffered_chunk) list"
  bu_order :: "nat list"
  bu_used :: nat
  bu_inflight :: "nat option"

definition buf_new :: buf_state where
  "buf_new = \<lparr>bu_chunks = [], bu_order = [], bu_used = 0, bu_inflight = None\<rparr>"

definition buf_push :: "nat \<Rightarrow> bytes \<Rightarrow> nat \<Rightarrow> buf_state \<Rightarrow> buf_state" where
  "buf_push idx data generation b =
     (let b1 = (case map_of (bu_chunks b) idx of
                  None \<Rightarrow> b
                | Some old \<Rightarrow> b\<lparr>bu_used := bu_used b - length (bc_data old), bu_order := filter (\<lambda>i. i \<noteq> idx) (bu_order b)\<rparr>)
      in b1\<lparr>bu_chunks := AList.update idx \<lparr>bc_data = data, bc_generation = generation\<rparr> (bu_chunks b1),
            bu_used := sat_add (bu_used b1) (length data), bu_order := bu_order b1 @ [idx]\<rparr>)"

definition buf_remove :: "nat \<Rightarrow> buf_state \<Rightarrow> buf_state" where
  "buf_remove idx b =
     (case map_of (bu_chunks b) idx of
        None \<Rightarrow> b
      | Some old \<Rightarrow>
          b\<lparr>bu_chunks := AList.delete idx (bu_chunks b), bu_used := bu_used b - length (bc_data old),
            bu_order := filter (\<lambda>i. i \<noteq> idx) (bu_order b),
            bu_inflight := (if bu_inflight b = Some idx then None else bu_inflight b)\<rparr>)"

definition buf_clear :: "buf_state \<Rightarrow> buf_state" where
  "buf_clear b = buf_new"

record buffer_rt =
  br_max :: nat
  br_state :: buf_state

section \<open>The core\<close>

record wctl =
  ct_pause :: bool
  ct_stop :: bool
  ct_putting :: bool
  ct_parked :: bool
  ct_exclusive :: bool
  ct_writers :: nat

record 's wcore =
  wc_inner :: 's
  wc_mode :: write_cache_mode
  wc_disk :: "string option"
  wc_fs :: fsys
  wc_dirty :: dirty_state
  wc_cache_max :: nat
  wc_buffer :: "buffer_rt option"
  wc_ctl :: wctl
  wc_now :: nat

definition buf_update :: "(buf_state \<Rightarrow> buf_state) \<Rightarrow> 's wcore \<Rightarrow> 's wcore" where
  "buf_update f w = w\<lparr>wc_buffer := map_option (\<lambda>b. b\<lparr>br_state := f (br_state b)\<rparr>) (wc_buffer w)\<rparr>"

definition on_winner :: "('s, 'a) op \<Rightarrow> ('s wcore, 'a) op" where
  "on_winner m w = (case m (wc_inner w) of (r, s) \<Rightarrow> (r, w\<lparr>wc_inner := s\<rparr>))"

definition on_fs :: "(fsys, 'a) op \<Rightarrow> ('s wcore, 'a) op" where
  "on_fs m w = (case m (wc_fs w) of (r, f) \<Rightarrow> (r, w\<lparr>wc_fs := f\<rparr>))"

definition buf_lookup :: "'s wcore \<Rightarrow> nat \<Rightarrow> bytes option" where
  "buf_lookup w idx =
     (case wc_buffer w of None \<Rightarrow> None | Some b \<Rightarrow> map_option bc_data (map_of (bu_chunks (br_state b)) idx))"

definition wc_lookup :: "'s wcore \<Rightarrow> nat \<Rightarrow> bytes option" where
  "wc_lookup w idx = (case dirty_get (wc_dirty w) idx of Some data \<Rightarrow> Some data | None \<Rightarrow> buf_lookup w idx)"

text \<open>\<open>read_full_chunk\<close>: the part beyond the capacity reads as zeros.\<close>

definition read_full_chunk :: "('s, 'm) store_ops_scheme \<Rightarrow> nat \<Rightarrow> ('s, bytes) op" where
  "read_full_chunk B idx s =
     (let chunk_size = bs_chunk_size B s; offset = sat_mul idx chunk_size; capacity = bs_capacity B s in
      if capacity \<le> offset then (Err (OutOfRange offset chunk_size capacity), s)
      else
        let valid = min (capacity - offset) chunk_size in
        bind_op (bs_read_at B offset valid) (\<lambda>b. ret_op (b @ zeros (chunk_size - valid))) s)"

definition load_for_write :: "('s, 'm) store_ops_scheme \<Rightarrow> nat \<Rightarrow> ('s wcore, bytes) op" where
  "load_for_write B idx w =
     (case wc_lookup w idx of Some data \<Rightarrow> (Ok data, w) | None \<Rightarrow> on_winner (read_full_chunk B idx) w)"

definition wc_persist :: "nat \<Rightarrow> bytes \<Rightarrow> ('s wcore, unit) op" where
  "wc_persist idx data w =
     (case wc_disk w of None \<Rightarrow> (Ok (), w) | Some dir \<Rightarrow> on_fs (write_chunk_file dir idx data) w)"

definition wc_remove_file :: "nat \<Rightarrow> ('s wcore, unit) op" where
  "wc_remove_file idx w =
     (case wc_disk w of
        None \<Rightarrow> (Ok (), w)
      | Some dir \<Rightarrow> on_fs (fs_remove (\<lambda>e. ''remove write-cache '' @ chunk_path dir idx @ '': '' @ e) (chunk_name idx)) w)"

definition write_inner :: "('s, 'm) store_ops_scheme \<Rightarrow> nat \<Rightarrow> bytes \<Rightarrow> ('s, unit) op" where
  "write_inner B idx data s =
     (let chunk_size = bs_chunk_size B s; capacity = bs_capacity B s; offset = sat_mul idx chunk_size in
      if offset < capacity then bs_write_at B offset (take (min (capacity - offset) (length data)) data) s
      else (Ok (), s))"

definition dirty_has :: "'s wcore \<Rightarrow> nat \<Rightarrow> bool" where
  "dirty_has w idx \<longleftrightarrow> map_of (ds_chunks (wc_dirty w)) idx \<noteq> None"

definition write_snapshot :: "('s, 'm) store_ops_scheme \<Rightarrow> job \<Rightarrow> ('s wcore, unit) op" where
  "write_snapshot B j =
     bind_op (on_winner (write_inner B (jb_idx j) (jb_data j)))
       (\<lambda>_ w. if \<not> dirty_has w (jb_idx j) then wc_remove_file (jb_idx j) w else (Ok (), w))"

definition take_all_jobs :: "'s wcore \<Rightarrow> job list \<times> 's wcore" where
  "take_all_jobs w =
     (let dirty_jobs = map (\<lambda>(idx, c). \<lparr>jb_idx = idx, jb_data = dc_data c, jb_generation = dc_tick c\<rparr>) (ds_chunks (wc_dirty w));
          dirty_idxs = map jb_idx dirty_jobs;
          jobs = (case wc_buffer w of
                    None \<Rightarrow> []
                  | Some b \<Rightarrow>
                      map (\<lambda>(idx, c). \<lparr>jb_idx = idx, jb_data = bc_data c, jb_generation = bc_generation c\<rparr>)
                        (filter (\<lambda>(idx, _). idx \<notin> set dirty_idxs) (bu_chunks (br_state b))))
      in (jobs @ dirty_jobs,
          buf_update buf_clear (w\<lparr>wc_dirty := (wc_dirty w)\<lparr>ds_chunks := [], ds_used := 0\<rparr>\<rparr>)))"

section \<open>Eviction\<close>

text \<open>\<open>evict_direct\<close>: put the oldest chunks until the budget is met.\<close>

definition evict_victim :: "'s wcore \<Rightarrow> (nat \<times> bytes) option" where
  "evict_victim w =
     (if ds_used (wc_dirty w) \<le> wc_cache_max w then None
      else case oldest (wc_dirty w) of
             None \<Rightarrow> None
           | Some idx \<Rightarrow> map_option (Pair idx) (dirty_get (wc_dirty w) idx))"

lemma min_by_in: "min_by f xs = Some x \<Longrightarrow> x \<in> set xs"
  by (induction xs) (auto split: option.splits if_splits)

lemma evict_victim_in: "evict_victim w = Some (idx, data) \<Longrightarrow> idx \<in> fst ` set (ds_chunks (wc_dirty w))"
  by (auto simp: evict_victim_def oldest_def dest!: min_by_in split: if_splits option.splits)

lemma length_delete_less: "k \<in> fst ` set xs \<Longrightarrow> length (AList.delete k xs) < length xs"
proof (induction xs)
  case (Cons x xs)
  have "length (AList.delete k xs) \<le> length xs"
    by (simp add: AList.delete_eq)
  then show ?case using Cons by (cases x) auto
qed simp

lemma dirty_remove_less:
  "idx \<in> fst ` set (ds_chunks d) \<Longrightarrow> length (ds_chunks (snd (dirty_remove idx d))) < length (ds_chunks d)"
  using length_delete_less [of idx "ds_chunks d"]
  by (auto simp: dirty_remove_def map_of_eq_None_iff split: option.splits)

lemma on_fs_frame: "on_fs m w = (r, w') \<Longrightarrow> wc_dirty w' = wc_dirty w \<and> wc_inner w' = wc_inner w \<and> wc_buffer w' = wc_buffer w"
  by (auto simp: on_fs_def split: prod.splits)

lemma remove_file_frame:
  "wc_remove_file idx w = (r, w') \<Longrightarrow> wc_dirty w' = wc_dirty w \<and> wc_inner w' = wc_inner w \<and> wc_buffer w' = wc_buffer w"
  by (auto simp: wc_remove_file_def dest: on_fs_frame split: option.splits)

lemma on_winner_frame:
  "on_winner m w = (r, w') \<Longrightarrow> wc_dirty w' = wc_dirty w \<and> wc_fs w' = wc_fs w \<and> wc_buffer w' = wc_buffer w"
  by (auto simp: on_winner_def split: prod.splits)

function evict_loop :: "('s, 'm) store_ops_scheme \<Rightarrow> 's wcore \<Rightarrow> unit result \<times> 's wcore" where
  "evict_loop B w =
     (case evict_victim w of
        None \<Rightarrow> (Ok (), w)
      | Some (idx, data) \<Rightarrow>
          (case on_winner (write_inner B idx data) w of
             (Ok _, w1) \<Rightarrow>
               (case wc_remove_file idx (w1\<lparr>wc_dirty := snd (dirty_remove idx (wc_dirty w1))\<rparr>) of
                  (Ok _, w2) \<Rightarrow> evict_loop B w2
                | (r, w2) \<Rightarrow> (r, w2))
           | (r, w1) \<Rightarrow> (r, w1)))"
  by pat_completeness auto
termination
  by (relation "measure (\<lambda>(_, w). length (ds_chunks (wc_dirty w)))")
    (auto dest!: on_winner_frame [OF sym] remove_file_frame [OF sym] evict_victim_in simp: dirty_remove_less rev_image_eqI)

declare evict_loop.simps [simp del]

definition evict_direct :: "('s, 'm) store_ops_scheme \<Rightarrow> ('s wcore, unit) op" where
  "evict_direct B w = (if wc_cache_max w = 0 \<or> wc_mode w = WNone then (Ok (), w) else evict_loop B w)"

text \<open>
  One pass of the loop of \<open>evict_into_buffer\<close> under the locks: \<open>None\<close> if the budget is met, otherwise
  whether a chunk moved.
\<close>

definition move_to_buffer :: "nat \<Rightarrow> 's wcore \<Rightarrow> buffer_rt \<Rightarrow> bool \<times> 's wcore" where
  "move_to_buffer idx w b =
     (let d = wc_dirty w; st = br_state b;
          size' = (case map_of (ds_chunks d) idx of None \<Rightarrow> 0 | Some c \<Rightarrow> length (dc_data c));
          generation = (case map_of (ds_chunks d) idx of None \<Rightarrow> 0 | Some c \<Rightarrow> dc_tick c)
      in if bu_inflight st = Some idx \<or> map_of (bu_chunks st) idx \<noteq> None then (False, w)
         else if sat_add (bu_used st) size' > br_max b then (False, w)
         else (case dirty_remove idx d of
                 (Some data, d') \<Rightarrow> (True, buf_update (buf_push idx data generation) (w\<lparr>wc_dirty := d'\<rparr>))
               | (None, d') \<Rightarrow> (False, w)))"

definition evict_pass :: "buffer_rt \<Rightarrow> 's wcore \<Rightarrow> (bool \<times> 's wcore) option" where
  "evict_pass b w =
     (if ds_used (wc_dirty w) \<le> wc_cache_max w then None
      else case oldest (wc_dirty w) of
             None \<Rightarrow> None
           | Some idx \<Rightarrow> Some (move_to_buffer idx w b))"

section \<open>The worker\<close>

definition handoff_quiet :: "'s wcore \<Rightarrow> bool \<times> 's wcore" where
  "handoff_quiet w =
     (case wc_buffer w of
        None \<Rightarrow> (False, w)
      | Some b \<Rightarrow>
          (case oldest_quiet (wc_now w) (wc_dirty w) of
             None \<Rightarrow> (False, w)
           | Some idx \<Rightarrow> move_to_buffer idx w b))"

definition next_job :: "'s wcore \<Rightarrow> job option \<times> 's wcore" where
  "next_job w =
     (case wc_buffer w of
        None \<Rightarrow> (None, w)
      | Some b \<Rightarrow>
          (let st = br_state b in
           if bu_inflight st \<noteq> None then (None, w)
           else case bu_order st of
                  [] \<Rightarrow> (None, w)
                | idx # _ \<Rightarrow>
                    (case map_of (bu_chunks st) idx of
                       None \<Rightarrow> (None, w)
                     | Some c \<Rightarrow>
                         (Some \<lparr>jb_idx = idx, jb_data = bc_data c, jb_generation = bc_generation c\<rparr>,
                          buf_update (\<lambda>st. st\<lparr>bu_inflight := Some idx\<rparr>) w))))"

definition drop_inflight :: "nat \<Rightarrow> buf_state \<Rightarrow> buf_state" where
  "drop_inflight idx st = (if bu_inflight st = Some idx then st\<lparr>bu_inflight := None\<rparr> else st)"

definition clear_inflight :: "nat \<Rightarrow> 's wcore \<Rightarrow> 's wcore" where
  "clear_inflight idx = buf_update (drop_inflight idx)"

text \<open>The part of \<open>finish_put\<close> after \<open>write_inner\<close>; a failed removal of the file replaces the result.\<close>

definition finish_books :: "job \<Rightarrow> unit result \<Rightarrow> 's wcore \<Rightarrow> unit result \<times> 's wcore" where
  "finish_books j r w =
     (let w1 = buf_update (\<lambda>st.
                 let st1 = drop_inflight (jb_idx j) st in
                 if is_ok r \<and> map_option bc_generation (map_of (bu_chunks st1) (jb_idx j)) = Some (jb_generation j)
                 then buf_remove (jb_idx j) st1 else st1) w
      in if is_ok r \<and> \<not> dirty_has w1 (jb_idx j) then
           (case wc_remove_file (jb_idx j) w1 of (Ok _, w2) \<Rightarrow> (r, w2) | (e, w2) \<Rightarrow> (e, w2))
         else (r, w1))"

definition finish_put :: "('s, 'm) store_ops_scheme \<Rightarrow> job \<Rightarrow> 's wcore \<Rightarrow> unit result \<times> 's wcore" where
  "finish_put B j w =
     (case on_winner (write_inner B (jb_idx j) (jb_data j)) w of
        (Panic, w1) \<Rightarrow> (Panic, w1)
      | (r, w1) \<Rightarrow> finish_books j r w1)"

text \<open>
  One round of \<open>run_worker\<close> up to the next wait. A paused worker is parked, a stopped one has
  returned. The error of a put is only logged.
\<close>

definition worker_round :: "('s, 'm) store_ops_scheme \<Rightarrow> 's wcore \<Rightarrow> 's wcore" where
  "worker_round B w =
     (if ct_stop (wc_ctl w) then w
      else if ct_pause (wc_ctl w) then w\<lparr>wc_ctl := (wc_ctl w)\<lparr>ct_parked := True, ct_putting := False\<rparr>\<rparr>
      else
        let w0 = w\<lparr>wc_ctl := (wc_ctl w)\<lparr>ct_parked := False\<rparr>\<rparr> in
        case next_job w0 of
          (Some j, w1) \<Rightarrow> snd (finish_put B j w1)
        | (None, w1) \<Rightarrow> snd (handoff_quiet w1))"

section \<open>Waiting for room\<close>

text \<open>
  \<open>evict_into_buffer\<close>. A pass that moves a chunk repeats at once; otherwise the thread waits for the
  worker. \<open>None\<close>: the call has not returned after \<open>fuel\<close> passes.
\<close>

fun evict_buffer_loop :: "('s, 'm) store_ops_scheme \<Rightarrow> nat \<Rightarrow> 's wcore \<Rightarrow> (unit result \<times> 's wcore) option" where
  "evict_buffer_loop B 0 w = None"
| "evict_buffer_loop B (Suc fuel) w =
     (case wc_buffer w of
        None \<Rightarrow> Some (evict_direct B w)
      | Some b \<Rightarrow>
          (case evict_pass b w of
             None \<Rightarrow> Some (Ok (), w)
           | Some (moved, w1) \<Rightarrow>
               if moved then evict_buffer_loop B fuel w1
               else if ct_stop (wc_ctl w1) then Some (Ok (), w1)
               else evict_buffer_loop B fuel (worker_round B w1)))"

definition evict_into_buffer :: "('s, 'm) store_ops_scheme \<Rightarrow> nat \<Rightarrow> 's wcore \<Rightarrow> (unit result \<times> 's wcore) option" where
  "evict_into_buffer B fuel w =
     (if wc_buffer w \<noteq> None \<and> wc_cache_max w = 0 then Some (Ok (), w) else evict_buffer_loop B fuel w)"

section \<open>Coordination\<close>

definition ctl_update :: "(wctl \<Rightarrow> wctl) \<Rightarrow> 's wcore \<Rightarrow> 's wcore" where
  "ctl_update f w = w\<lparr>wc_ctl := f (wc_ctl w)\<rparr>"

definition begin_write :: "'s wcore \<Rightarrow> 's wcore" where
  "begin_write = ctl_update (\<lambda>c. c\<lparr>ct_writers := ct_writers c + 1\<rparr>)"

definition drop_hold :: "'s wcore \<Rightarrow> 's wcore" where
  "drop_hold = ctl_update (\<lambda>c. c\<lparr>ct_writers := ct_writers c - 1\<rparr>)"

definition with_exclusive :: "('s wcore, unit) op \<Rightarrow> ('s wcore, unit) op" where
  "with_exclusive f w =
     (case f (ctl_update (\<lambda>c. c\<lparr>ct_exclusive := True\<rparr>) w) of
        (r, w1) \<Rightarrow> (r, ctl_update (\<lambda>c. c\<lparr>ct_exclusive := False\<rparr>) w1))"

definition pause_worker :: "'s wcore \<Rightarrow> 's wcore" where
  "pause_worker w =
     (if wc_buffer w = None then w
      else ctl_update (\<lambda>c. c\<lparr>ct_pause := True, ct_parked := True, ct_putting := False\<rparr>) w)"

definition resume_worker :: "'s wcore \<Rightarrow> 's wcore" where
  "resume_worker = ctl_update (\<lambda>c. c\<lparr>ct_pause := False\<rparr>)"

section \<open>The store\<close>

definition wc_fetch :: "('s, 'm) store_ops_scheme \<Rightarrow> nat \<Rightarrow> nat \<Rightarrow> nat \<Rightarrow> nat \<Rightarrow> ('s wcore, bytes) op" where
  "wc_fetch B idx within pos tk w =
     (case wc_lookup w idx of
        Some chunk \<Rightarrow> (case sub_slice chunk within tk of Some p \<Rightarrow> (Ok p, w) | None \<Rightarrow> (Panic, w))
      | None \<Rightarrow> on_winner (bs_read_at B pos tk) w)"

definition wc_read_at :: "('s, 'm) store_ops_scheme \<Rightarrow> nat \<Rightarrow> nat \<Rightarrow> ('s wcore, bytes) op" where
  "wc_read_at B offset n w =
     (if wc_mode w = WNone then on_winner (bs_read_at B offset n) w
      else guard_op (check_range (bs_capacity B (wc_inner w)) offset n)
        (read_loop (bs_chunk_size B (wc_inner w)) (wc_fetch B) offset n 0 (zeros n)) w)"

definition wc_store_piece :: "('s, 'm) store_ops_scheme \<Rightarrow> nat \<Rightarrow> nat \<Rightarrow> nat \<Rightarrow> bytes \<Rightarrow> ('s wcore, unit) op" where
  "wc_store_piece B idx within pos p =
     bind_op (load_for_write B idx) (\<lambda>chunk.
       if within + length p \<le> length chunk then
         (let chunk' = patch chunk within p in
          bind_op (wc_persist idx chunk')
            (\<lambda>_ w. (Ok (), w\<lparr>wc_dirty := dirty_insert (wc_now w) idx chunk' (wc_dirty w)\<rparr>)))
       else panic_op)"

text \<open>The part of \<open>write_at\<close> before the eviction.\<close>

definition wc_store_pieces :: "('s, 'm) store_ops_scheme \<Rightarrow> nat \<Rightarrow> bytes \<Rightarrow> ('s wcore, unit) op" where
  "wc_store_pieces B offset data w =
     guard_op (check_range (bs_capacity B (wc_inner w)) offset (length data))
       (write_loop (bs_chunk_size B (wc_inner w)) (wc_store_piece B) offset data 0) w"

definition wc_write_at ::
  "('s, 'm) store_ops_scheme \<Rightarrow> nat \<Rightarrow> nat \<Rightarrow> bytes \<Rightarrow> 's wcore \<Rightarrow> (unit result \<times> 's wcore) option" where
  "wc_write_at B fuel offset data w =
     (if wc_mode w = WNone then Some (on_winner (bs_write_at B offset data) w)
      else
        case wc_store_pieces B offset data (begin_write w) of
          (Ok _, w1) \<Rightarrow>
            map_option (\<lambda>(r, w2). (r, drop_hold w2))
              (if wc_buffer w1 \<noteq> None then evict_into_buffer B fuel w1 else Some (evict_direct B w1))
        | (r, w1) \<Rightarrow> Some (r, drop_hold w1))"

fun write_jobs :: "('s, 'm) store_ops_scheme \<Rightarrow> job list \<Rightarrow> ('s wcore, unit) op" where
  "write_jobs B [] = ret_op ()"
| "write_jobs B (j # js) = bind_op (write_snapshot B j) (\<lambda>_. write_jobs B js)"

definition flush_jobs :: "('s, 'm) store_ops_scheme \<Rightarrow> ('s wcore, unit) op" where
  "flush_jobs B w =
     (case take_all_jobs (pause_worker w) of
        (jobs, w1) \<Rightarrow> bind_op (write_jobs B jobs) (\<lambda>_ w2. (Ok (), resume_worker w2)) w1)"

definition wc_flush :: "('s, 'm) store_ops_scheme \<Rightarrow> ('s wcore, unit) op" where
  "wc_flush B w =
     (if wc_mode w = WNone then on_winner (bs_flush B) w
      else bind_op (with_exclusive (flush_jobs B)) (\<lambda>_. on_winner (bs_flush B)) w)"

definition wc_set_capacity :: "('s, 'm) store_ops_scheme \<Rightarrow> nat \<Rightarrow> ('s wcore, unit) op" where
  "wc_set_capacity B new_capacity = bind_op (wc_flush B) (\<lambda>_. on_winner (bs_set_capacity B new_capacity))"

definition push_missing :: "nat \<Rightarrow> nat list \<Rightarrow> nat list" where
  "push_missing idx idxs = (if idx \<in> set idxs then idxs else idxs @ [idx])"

definition wc_present_chunks :: "('s, 'm) store_ops_scheme \<Rightarrow> ('s wcore, nat list) op" where
  "wc_present_chunks B =
     bind_op (on_winner (bs_present_chunks B)) (\<lambda>idxs w.
       if wc_mode w = WNone then (Ok idxs, w)
       else
         let i1 = fold push_missing (map fst (ds_chunks (wc_dirty w))) idxs;
             i2 = (case wc_buffer w of None \<Rightarrow> i1 | Some b \<Rightarrow> fold push_missing (map fst (bu_chunks (br_state b))) i1)
         in (Ok (sort i2), w))"

text \<open>\<open>remove_cached\<close> waits while a put of the chunk is in flight.\<close>

definition remove_cached :: "nat \<Rightarrow> 's wcore \<Rightarrow> 's wcore" where
  "remove_cached index w = buf_update (buf_remove index) (w\<lparr>wc_dirty := snd (dirty_remove index (wc_dirty w))\<rparr>)"

definition wc_delete_chunk :: "('s, 'm) store_ops_scheme \<Rightarrow> nat \<Rightarrow> ('s wcore, unit) op" where
  "wc_delete_chunk B index w =
     (if wc_mode w \<noteq> WNone then
        bind_op (wc_remove_file index) (\<lambda>_. on_winner (bs_delete_chunk B index)) (remove_cached index w)
      else on_winner (bs_delete_chunk B index) w)"

fun remove_files :: "job list \<Rightarrow> ('s wcore, unit) op" where
  "remove_files [] = ret_op ()"
| "remove_files (j # js) = bind_op (wc_remove_file (jb_idx j)) (\<lambda>_. remove_files js)"

definition discard_dirty :: "('s wcore, unit) op" where
  "discard_dirty w =
     (if wc_mode w = WNone then (Ok (), w)
      else with_exclusive (\<lambda>w0.
        case take_all_jobs (pause_worker w0) of
          (jobs, w1) \<Rightarrow> bind_op (remove_files jobs) (\<lambda>_ w2. (Ok (), resume_worker w2)) w1) w)"

definition dirty_count :: "'s wcore \<Rightarrow> nat" where
  "dirty_count w = (if wc_mode w = WNone then 0 else length (ds_chunks (wc_dirty w)))"

definition dirty_bytes :: "'s wcore \<Rightarrow> nat" where
  "dirty_bytes w = (if wc_mode w = WNone then 0 else ds_used (wc_dirty w))"

definition buffer_bytes :: "'s wcore \<Rightarrow> nat" where
  "buffer_bytes w = (case wc_buffer w of None \<Rightarrow> 0 | Some b \<Rightarrow> bu_used (br_state b))"

definition buffer_chunks :: "'s wcore \<Rightarrow> nat" where
  "buffer_chunks w = (case wc_buffer w of None \<Rightarrow> 0 | Some b \<Rightarrow> length (bu_chunks (br_state b)))"

definition buffer_max_bytes :: "'s wcore \<Rightarrow> nat" where
  "buffer_max_bytes w = (case wc_buffer w of None \<Rightarrow> 0 | Some b \<Rightarrow> br_max b)"

definition stop_worker :: "'s wcore \<Rightarrow> 's wcore" where
  "stop_worker = ctl_update (\<lambda>c. c\<lparr>ct_stop := True, ct_pause := False\<rparr>)"

definition wc_drop :: "('s, 'm) store_ops_scheme \<Rightarrow> 's wcore \<Rightarrow> 's wcore" where
  "wc_drop B w = (if wc_mode w = WNone then w else stop_worker (snd (wc_flush B w)))"

section \<open>Recovery\<close>

record write_cache_stamp =
  sp_volume :: string
  sp_chunk_size :: nat

text \<open>The JSON library, as far as the stamp uses it.\<close>

record stamp_codec =
  sc_enc :: "write_cache_stamp \<Rightarrow> string + bytes"
  sc_dec :: "bytes \<Rightarrow> string + write_cache_stamp"

definition stamp_name :: string where "stamp_name = ''.write-cache.json''"

definition fs_read :: "(string \<Rightarrow> string) \<Rightarrow> string \<Rightarrow> (fsys, bytes) op" where
  "fs_read msg name = fs_call msg (\<lambda>_ f. f) (\<lambda>f. (case fs_get f name of Some b \<Rightarrow> b | None \<Rightarrow> [], f))"

definition check_stamp :: "stamp_codec \<Rightarrow> string \<Rightarrow> string \<Rightarrow> nat \<Rightarrow> (fsys, unit) op" where
  "check_stamp J dir volume chunk_size f =
     (let path = path_join dir stamp_name in
      if fs_get f stamp_name \<noteq> None then
        bind_op (fs_read (\<lambda>e. ''read '' @ path @ '': '' @ e) stamp_name) (\<lambda>text.
          case sc_dec J text of
            Inl e \<Rightarrow> err_op (Other (''parse '' @ path @ '': '' @ e))
          | Inr stamp \<Rightarrow>
              if sp_volume stamp \<noteq> volume then
                err_op (Other (''write-cache '' @ dir @ '' belongs to volume '' @ debug_str (sp_volume stamp) @ '', not '' @ debug_str volume))
              else if sp_chunk_size stamp \<noteq> chunk_size then
                err_op (Other (''write-cache '' @ dir @ '' chunk_size '' @ dec (sp_chunk_size stamp) @ '' != volume '' @ dec chunk_size))
              else ret_op ()) f
      else
        case sc_enc J \<lparr>sp_volume = volume, sp_chunk_size = chunk_size\<rparr> of
          Inl e \<Rightarrow> (Err (Other (''stamp json: '' @ e)), f)
        | Inr text \<Rightarrow> fs_write_all (\<lambda>e. ''write '' @ path @ '': '' @ e) stamp_name text f)"

definition is_chunk_name :: "string \<Rightarrow> bool" where
  "is_chunk_name name \<longleftrightarrow>
     \<not> (case name of [] \<Rightarrow> False | c # _ \<Rightarrow> c = CHR ''.'') \<and> \<not> suffix_of ''.tmp'' name \<and>
     length name = 16 \<and> list_all (\<lambda>c. to_digit16 c \<noteq> None) name"

fun load_entries :: "string \<Rightarrow> nat \<Rightarrow> string list \<Rightarrow> (nat \<times> bytes) list \<Rightarrow> (fsys, (nat \<times> bytes) list) op" where
  "load_entries dir chunk_size [] dirty = ret_op dirty"
| "load_entries dir chunk_size (name # names) dirty =
     bind_op (fs_touch (\<lambda>e. ''read_dir: '' @ e)) (\<lambda>_.
       if \<not> is_chunk_name name then load_entries dir chunk_size names dirty
       else
         case from_str_radix16 (2 ^ 64) name of
           None \<Rightarrow> err_op (Other (''bad write-cache name '' @ name))
         | Some idx \<Rightarrow>
             bind_op (fs_read (\<lambda>e. ''read '' @ path_join dir name @ '': '' @ e) name) (\<lambda>bytes.
               if length bytes \<noteq> chunk_size then
                 err_op (Other (''write-cache '' @ path_join dir name @ '' length '' @ dec (length bytes) @
                   '' != chunk_size '' @ dec chunk_size))
               else load_entries dir chunk_size names (AList.update idx bytes dirty)))"

definition load_disk_cache :: "stamp_codec \<Rightarrow> string \<Rightarrow> string \<Rightarrow> nat \<Rightarrow> (fsys, (nat \<times> bytes) list) op" where
  "load_disk_cache J dir volume chunk_size =
     bind_op (fs_touch (\<lambda>e. ''create write-cache dir '' @ dir @ '': '' @ e)) (\<lambda>_.
     bind_op (check_stamp J dir volume chunk_size) (\<lambda>_.
     bind_op (fs_touch (\<lambda>e. ''read write-cache dir '' @ dir @ '': '' @ e))
       (\<lambda>_ f. load_entries dir chunk_size (map fst (fs_files f)) [] f)))"

record write_cache_config =
  wcc_mode :: write_cache_mode
  wcc_max_bytes :: nat
  wcc_path :: "string option"

definition wc_build ::
  "'s \<Rightarrow> write_cache_config \<Rightarrow> nat \<Rightarrow> nat \<Rightarrow> string option \<Rightarrow> fsys \<Rightarrow> dirty_state \<Rightarrow> 's wcore" where
  "wc_build inner cache buffer_max now disk f dirty =
     \<lparr>wc_inner = inner, wc_mode = wcc_mode cache, wc_disk = disk, wc_fs = f, wc_dirty = dirty,
      wc_cache_max = wcc_max_bytes cache,
      wc_buffer = (if buffer_max > 0 \<and> wcc_mode cache \<noteq> WNone then Some \<lparr>br_max = buffer_max, br_state = buf_new\<rparr> else None),
      wc_ctl = \<lparr>ct_pause = False, ct_stop = False, ct_putting = False, ct_parked = False, ct_exclusive = False, ct_writers = 0\<rparr>,
      wc_now = now\<rparr>"

definition wc_open ::
  "stamp_codec \<Rightarrow> ('s, 'm) store_ops_scheme \<Rightarrow> 's \<Rightarrow> write_cache_config \<Rightarrow> nat \<Rightarrow> string \<Rightarrow> nat \<Rightarrow> fsys \<Rightarrow> 's wcore result \<times> fsys" where
  "wc_open J B inner cache buffer_max volume now f =
     (case wcc_mode cache of
        WDisk \<Rightarrow>
          (case wcc_path cache of
             None \<Rightarrow> (Err (Other ''write_cache.mode=disk requires path''), f)
           | Some dir \<Rightarrow>
               bind_op (load_disk_cache J dir volume (bs_chunk_size B inner))
                 (\<lambda>recovered f1. (Ok (wc_build inner cache buffer_max now (Some dir) f1 (dirty_from_recovered now recovered)), f1)) f)
      | _ \<Rightarrow> (Ok (wc_build inner cache buffer_max now None f dirty_new), f))"

definition wc_wrap ::
  "stamp_codec \<Rightarrow> ('s, 'm) store_ops_scheme \<Rightarrow> nat \<Rightarrow> 's \<Rightarrow> write_cache_config \<Rightarrow> nat \<Rightarrow> string \<Rightarrow> nat \<Rightarrow> fsys \<Rightarrow>
    's wcore result option" where
  "wc_wrap J B fuel inner cache buffer_max volume now f =
     (case wc_open J B inner cache buffer_max volume now f of
        (Ok w, _) \<Rightarrow>
          map_option (\<lambda>(r, w1). case r of Ok _ \<Rightarrow> Ok w1 | Err e \<Rightarrow> Err e | Panic \<Rightarrow> Panic)
            (if wc_buffer w \<noteq> None then evict_into_buffer B fuel w else Some (evict_direct B w))
      | (Err e, _) \<Rightarrow> Some (Err e)
      | (Panic, _) \<Rightarrow> Some Panic)"

end
