(* ===== verification/WriteCacheRefine.thy ===== *)
theory WriteCacheRefine
  imports WriteCache MemoryStore
begin

text \<open>
  The write-back cache keeps the block-store contract of the store beneath it. The disk of the cache
  is the overlay of the cached chunks on the inner disk: every cached chunk is the chunk of that disk,
  and where nothing is cached the inner disk agrees with it.
\<close>

section \<open>The overlay\<close>

definition merge_chunk :: "nat \<Rightarrow> (nat \<Rightarrow> byte) \<Rightarrow> (nat \<Rightarrow> byte) \<Rightarrow> nat \<Rightarrow> nat \<Rightarrow> byte" where
  "merge_chunk cs di d idx i = (if i div cs = idx then d i else di i)"

definition overlay :: "nat \<Rightarrow> (nat \<Rightarrow> bytes option) \<Rightarrow> (nat \<Rightarrow> byte) \<Rightarrow> (nat \<Rightarrow> byte) \<Rightarrow> bool" where
  "overlay cs lk di d \<longleftrightarrow>
     (\<forall>idx x. lk idx = Some x \<longrightarrow> x = disk_read d (idx * cs) cs) \<and> (\<forall>i. lk (i div cs) = None \<longrightarrow> di i = d i)"

definition wc_keys_ok :: "'s wcore \<Rightarrow> bool" where
  "wc_keys_ok w \<longleftrightarrow>
     distinct (map fst (ds_chunks (wc_dirty w))) \<and>
     (case wc_buffer w of None \<Rightarrow> True | Some b \<Rightarrow> distinct (map fst (bu_chunks (br_state b))))"

definition wc_rep ::
  "((nat \<Rightarrow> byte) \<Rightarrow> geometry \<Rightarrow> 's \<Rightarrow> bool) \<Rightarrow> (bytes \<Rightarrow> bool) \<Rightarrow> (nat \<Rightarrow> byte) \<Rightarrow> geometry \<Rightarrow> 's wcore \<Rightarrow> bool" where
  "wc_rep Rep adm d g w \<longleftrightarrow>
     (\<exists>di. Rep di g (wc_inner w) \<and> overlay (g_chunk g) (wc_lookup w) di d) \<and> zero_beyond (g_cap g) d \<and>
     (\<forall>idx x. wc_lookup w idx = Some x \<longrightarrow> idx * g_chunk g < g_cap g \<and> adm x) \<and> wc_keys_ok w \<and>
     (wc_mode w = WNone \<longrightarrow> wc_lookup w = (\<lambda>_. None))"

text \<open>The same with the mode and the write buffer fixed, which most operations leave alone.\<close>

definition wc_rep_at ::
  "write_cache_mode \<Rightarrow> buffer_rt option \<Rightarrow> ((nat \<Rightarrow> byte) \<Rightarrow> geometry \<Rightarrow> 's \<Rightarrow> bool) \<Rightarrow> (bytes \<Rightarrow> bool) \<Rightarrow>
    (nat \<Rightarrow> byte) \<Rightarrow> geometry \<Rightarrow> 's wcore \<Rightarrow> bool" where
  "wc_rep_at m b Rep adm d g w \<longleftrightarrow> wc_rep Rep adm d g w \<and> wc_mode w = m \<and> wc_buffer w = b"

text \<open>
  Without a write buffer the call returns whatever the fuel: no wait occurs. A call that does not
  return would show up as a panic here, which the contract rules out.
\<close>

definition wc_write_direct :: "('s, 'm) store_ops_scheme \<Rightarrow> nat \<Rightarrow> bytes \<Rightarrow> ('s wcore, unit) op" where
  "wc_write_direct B off data w = (case wc_write_at B 0 off data w of Some r \<Rightarrow> r | None \<Rightarrow> (Panic, w))"

definition wc_ops :: "('s, 'm) store_ops_scheme \<Rightarrow> 's wcore store_ops" where
  "wc_ops B =
     \<lparr>bs_read_at = wc_read_at B, bs_write_at = wc_write_direct B, bs_capacity = (\<lambda>w. bs_capacity B (wc_inner w)),
      bs_set_capacity = wc_set_capacity B, bs_flush = wc_flush B, bs_block_size = (\<lambda>w. bs_block_size B (wc_inner w)),
      bs_chunk_size = (\<lambda>w. bs_chunk_size B (wc_inner w)), bs_present_chunks = wc_present_chunks B,
      bs_delete_chunk = wc_delete_chunk B\<rparr>"

lemma wc_ops_sel [simp]:
  "bs_read_at (wc_ops B) = wc_read_at B" "bs_write_at (wc_ops B) = wc_write_direct B"
  "bs_capacity (wc_ops B) = (\<lambda>w. bs_capacity B (wc_inner w))" "bs_set_capacity (wc_ops B) = wc_set_capacity B"
  "bs_flush (wc_ops B) = wc_flush B" "bs_block_size (wc_ops B) = (\<lambda>w. bs_block_size B (wc_inner w))"
  "bs_chunk_size (wc_ops B) = (\<lambda>w. bs_chunk_size B (wc_inner w))"
  "bs_present_chunks (wc_ops B) = wc_present_chunks B" "bs_delete_chunk (wc_ops B) = wc_delete_chunk B"
  by (simp_all add: wc_ops_def)

lemma overlay_empty: "overlay cs (\<lambda>_. None) di d \<longleftrightarrow> di = d"
  by (auto simp: overlay_def)

lemma overlay_merge: "overlay cs lk di d \<Longrightarrow> overlay cs (lk(idx := None)) (merge_chunk cs di d idx) d"
  by (auto simp: overlay_def merge_chunk_def)

lemma overlay_put:
  assumes "overlay cs lk di d" and "\<And>i. i div cs \<noteq> idx \<Longrightarrow> d' i = d i"
  shows "overlay cs (lk(idx \<mapsto> disk_read d' (idx * cs) cs)) di d'"
proof -
  have "disk_read d (j * cs) cs = disk_read d' (j * cs) cs" if "j \<noteq> idx" for j
    by (rule disk_read_cong) (use assms(2) that chunk_of_range [of j cs] in auto)
  then show ?thesis
    using assms by (auto simp: overlay_def)
qed

lemma overlay_clear:
  assumes "overlay cs lk di d"
  shows "overlay cs (lk(idx := None)) (clear_chunk cs di idx) (clear_chunk cs d idx)"
proof -
  have "disk_read (clear_chunk cs d idx) (j * cs) cs = disk_read d (j * cs) cs" if "j \<noteq> idx" for j
    by (rule disk_read_cong) (use that chunk_of_range [of j cs] in \<open>auto simp: clear_chunk_def\<close>)
  then show ?thesis
    using assms by (auto simp: overlay_def clear_chunk_def)
qed

lemma overlay_lookup: "overlay cs lk di d \<Longrightarrow> lk idx = Some x \<Longrightarrow> x = disk_read d (idx * cs) cs"
  by (simp add: overlay_def)

lemma overlay_miss: "overlay cs lk di d \<Longrightarrow> lk idx = None \<Longrightarrow> i div cs = idx \<Longrightarrow> di i = d i"
  by (auto simp: overlay_def)

section \<open>Lookups after the table operations\<close>

lemma dirty_get_insert [simp]: "dirty_get (dirty_insert now idx x ds) = (dirty_get ds)(idx \<mapsto> x)"
  by (auto simp: dirty_get_def dirty_insert_def Let_def update_conv' fun_eq_iff)

lemma dirty_get_remove [simp]: "dirty_get (snd (dirty_remove idx ds)) = (dirty_get ds)(idx := None)"
  by (auto simp: dirty_get_def dirty_remove_def delete_conv' fun_eq_iff split: option.splits)

lemma dirty_keys_insert: "distinct (map fst (ds_chunks ds)) \<Longrightarrow> distinct (map fst (ds_chunks (dirty_insert now idx x ds)))"
  by (simp add: dirty_insert_def Let_def distinct_update)

lemma dirty_keys_remove: "distinct (map fst (ds_chunks ds)) \<Longrightarrow> distinct (map fst (ds_chunks (snd (dirty_remove idx ds))))"
  by (auto simp: dirty_remove_def distinct_delete split: option.splits)

lemma dirty_remove_fst: "fst (dirty_remove idx ds) = dirty_get ds idx"
  by (auto simp: dirty_remove_def dirty_get_def split: option.splits)

lemma buf_update_sel [simp]:
  "wc_inner (buf_update f w) = wc_inner w" "wc_mode (buf_update f w) = wc_mode w" "wc_dirty (buf_update f w) = wc_dirty w"
  "wc_disk (buf_update f w) = wc_disk w" "wc_fs (buf_update f w) = wc_fs w" "wc_cache_max (buf_update f w) = wc_cache_max w"
  "wc_ctl (buf_update f w) = wc_ctl w" "wc_now (buf_update f w) = wc_now w"
  "wc_buffer (buf_update f w) = map_option (\<lambda>b. b\<lparr>br_state := f (br_state b)\<rparr>) (wc_buffer w)"
  by (simp_all add: buf_update_def)

lemma ctl_update_sel [simp]:
  "wc_inner (ctl_update f w) = wc_inner w" "wc_mode (ctl_update f w) = wc_mode w" "wc_dirty (ctl_update f w) = wc_dirty w"
  "wc_disk (ctl_update f w) = wc_disk w" "wc_fs (ctl_update f w) = wc_fs w" "wc_cache_max (ctl_update f w) = wc_cache_max w"
  "wc_buffer (ctl_update f w) = wc_buffer w" "wc_now (ctl_update f w) = wc_now w" "wc_ctl (ctl_update f w) = f (wc_ctl w)"
  by (simp_all add: ctl_update_def)

lemma wc_lookup_cong:
  "wc_dirty w' = wc_dirty w \<Longrightarrow> wc_buffer w' = wc_buffer w \<Longrightarrow> wc_lookup w' = wc_lookup w"
  by (rule ext) (simp add: wc_lookup_def buf_lookup_def cong: option.case_cong)

lemma wc_rep_cong:
  assumes "wc_dirty w' = wc_dirty w" "wc_buffer w' = wc_buffer w" "wc_inner w' = wc_inner w" "wc_mode w' = wc_mode w"
  shows "wc_rep Rep adm d g w' \<longleftrightarrow> wc_rep Rep adm d g w"
  using assms wc_lookup_cong [OF assms(1,2)] by (simp add: wc_rep_def wc_keys_ok_def)

lemma wc_rep_ctl [simp]: "wc_rep Rep adm d g (ctl_update f w) \<longleftrightarrow> wc_rep Rep adm d g w"
  by (rule wc_rep_cong) simp_all

lemma wc_repD:
  assumes "wc_rep Rep adm d g w"
  obtains di where "Rep di g (wc_inner w)" "overlay (g_chunk g) (wc_lookup w) di d"
  using assms by (auto simp: wc_rep_def)

lemma wc_rep_adm: "wc_rep Rep adm d g w \<Longrightarrow> wc_lookup w idx = Some x \<Longrightarrow> idx * g_chunk g < g_cap g \<and> adm x"
  by (auto simp: wc_rep_def)

section \<open>Files do not matter to the contents\<close>

lemma on_fs_hoare:
  assumes "\<And>w f. P w \<Longrightarrow> P (w\<lparr>wc_fs := f\<rparr>)" and "\<And>f. fst (m f) \<noteq> Panic"
  shows "hoare P (on_fs m) (\<lambda>_. P) P"
  unfolding hoare_def
proof (intro allI impI)
  fix w assume w: "P w"
  show "post (\<lambda>_. P) P (on_fs m w)"
    using assms(1) [OF w] assms(2) [of "wc_fs w"]
    by (cases "m (wc_fs w)"; cases "fst (m (wc_fs w))") (auto simp: on_fs_def)
qed

lemma fs_call_no_panic [simp]: "fst (fs_call msg partial act f) \<noteq> Panic"
  by (auto simp: fs_call_def split: prod.splits option.splits io_fault.splits)

lemma bind_no_panic:
  assumes "\<And>f. fst (m f) \<noteq> Panic" and "\<And>a f. fst (k a f) \<noteq> Panic"
  shows "fst (bind_op m k f) \<noteq> Panic"
  using assms(1) [of f] assms(2) by (cases "m f"; cases "fst (m f)") (auto simp: bind_op_def)

lemma write_chunk_file_no_panic [simp]: "fst (write_chunk_file dir idx x f) \<noteq> Panic"
  unfolding write_chunk_file_def Let_def fs_touch_def fs_create_def fs_write_all_def fs_rename_def
  by (intro bind_no_panic) simp_all

lemma wc_persist_hoare:
  assumes "\<And>w f. P w \<Longrightarrow> P (w\<lparr>wc_fs := f\<rparr>)"
  shows "hoare P (wc_persist idx x) (\<lambda>_. P) P"
proof -
  have "hoare P (on_fs (write_chunk_file dir idx x)) (\<lambda>_. P) P" for dir
    by (rule on_fs_hoare) (simp_all add: assms)
  then show ?thesis by (auto simp: hoare_def wc_persist_def split: option.split)
qed

lemma wc_remove_file_hoare:
  assumes "\<And>w f. P w \<Longrightarrow> P (w\<lparr>wc_fs := f\<rparr>)"
  shows "hoare P (wc_remove_file idx) (\<lambda>_. P) P"
proof -
  have "hoare P (on_fs (fs_remove msg name)) (\<lambda>_. P) P" for msg name
    by (rule on_fs_hoare) (simp_all add: assms fs_remove_def)
  then show ?thesis by (auto simp: hoare_def wc_remove_file_def split: option.split)
qed

lemma wc_rep_fs: "wc_rep Rep adm d g w \<Longrightarrow> wc_rep Rep adm d g (w\<lparr>wc_fs := f\<rparr>)"
  using wc_rep_cong [of "w\<lparr>wc_fs := f\<rparr>" w] by simp

lemma wc_rep_at_fs: "wc_rep_at m b Rep adm d g w \<Longrightarrow> wc_rep_at m b Rep adm d g (w\<lparr>wc_fs := f\<rparr>)"
  by (simp add: wc_rep_at_def wc_rep_fs)

lemma wc_rep_at_ctl [simp]: "wc_rep_at m b Rep adm d g (ctl_update f w) \<longleftrightarrow> wc_rep_at m b Rep adm d g w"
  by (simp add: wc_rep_at_def)

lemma wc_lookup_insert:
  "wc_lookup (w\<lparr>wc_dirty := dirty_insert now idx x (wc_dirty w)\<rparr>) = (wc_lookup w)(idx \<mapsto> x)"
  by (rule ext) (auto simp: wc_lookup_def buf_lookup_def split: option.split)

lemma wc_lookup_remove:
  "wc_buffer w = None \<Longrightarrow> wc_lookup (w\<lparr>wc_dirty := snd (dirty_remove idx (wc_dirty w))\<rparr>) = (wc_lookup w)(idx := None)"
  by (rule ext) (auto simp: wc_lookup_def buf_lookup_def split: option.split)

text \<open>A dirty chunk gets the content that the new disk has there.\<close>

lemma wc_rep_insert:
  assumes rep: "wc_rep_at m b Rep adm d g w" and m: "m \<noteq> WNone"
    and out: "\<And>i. i div g_chunk g \<noteq> idx \<Longrightarrow> d' i = d i" and x: "x = disk_read d' (idx * g_chunk g) (g_chunk g)"
    and adm: "adm x" and idx: "idx * g_chunk g < g_cap g" and zero: "zero_beyond (g_cap g) d'"
  shows "wc_rep_at m b Rep adm d' g (w\<lparr>wc_dirty := dirty_insert now idx x (wc_dirty w)\<rparr>)"
proof -
  obtain di where di: "Rep di g (wc_inner w)" and ov: "overlay (g_chunk g) (wc_lookup w) di d"
    using rep by (auto simp: wc_rep_at_def wc_rep_def)
  have "overlay (g_chunk g) ((wc_lookup w)(idx \<mapsto> x)) di d'"
    unfolding x by (rule overlay_put [OF ov out])
  then show ?thesis
    using rep di adm idx zero m
    by (auto simp: wc_rep_at_def wc_rep_def wc_lookup_insert wc_keys_ok_def dirty_keys_insert split: if_splits)
qed

section \<open>The jobs of a flush\<close>

lemma take_all_jobs_dirty: "ds_chunks (wc_dirty (snd (take_all_jobs w))) = []"
  by (simp add: take_all_jobs_def Let_def)

lemma take_all_jobs_sel [simp]:
  "wc_inner (snd (take_all_jobs w)) = wc_inner w" "wc_mode (snd (take_all_jobs w)) = wc_mode w"
  "wc_fs (snd (take_all_jobs w)) = wc_fs w" "wc_disk (snd (take_all_jobs w)) = wc_disk w"
  "wc_ctl (snd (take_all_jobs w)) = wc_ctl w" "wc_buffer (snd (take_all_jobs w)) = None \<longleftrightarrow> wc_buffer w = None"
  by (simp_all add: take_all_jobs_def Let_def)

lemma take_all_jobs_empty:
  "wc_lookup (snd (take_all_jobs w)) = (\<lambda>_. None)" "wc_keys_ok (snd (take_all_jobs w))"
  by (auto simp: take_all_jobs_def Let_def wc_lookup_def buf_lookup_def dirty_get_def buf_clear_def buf_new_def
      wc_keys_ok_def fun_eq_iff split: option.splits)

lemma take_all_jobs_mem:
  "j \<in> set (fst (take_all_jobs w)) \<longleftrightarrow>
     (\<exists>c. (jb_idx j, c) \<in> set (ds_chunks (wc_dirty w)) \<and> j = \<lparr>jb_idx = jb_idx j, jb_data = dc_data c, jb_generation = dc_tick c\<rparr>) \<or>
     (\<exists>b c. wc_buffer w = Some b \<and> (jb_idx j, c) \<in> set (bu_chunks (br_state b)) \<and> jb_idx j \<notin> fst ` set (ds_chunks (wc_dirty w)) \<and>
        j = \<lparr>jb_idx = jb_idx j, jb_data = bc_data c, jb_generation = bc_generation c\<rparr>)"
proof -
  have idxs: "map jb_idx (map (\<lambda>(idx, c). \<lparr>jb_idx = idx, jb_data = dc_data c, jb_generation = dc_tick c\<rparr>) xs) = map fst xs"
    for xs :: "(nat \<times> dirty_chunk) list"
    by (induction xs) auto
  have img: "x \<in> (\<lambda>(i, c). F i c) ` S \<longleftrightarrow> (\<exists>i c. (i, c) \<in> S \<and> x = F i c)" for x F and S :: "(nat \<times> 'c) set"
    by force
  show ?thesis
    unfolding take_all_jobs_def Let_def idxs by (cases "wc_buffer w"; cases j) (auto simp: img)
qed

lemma take_all_jobs_sound:
  assumes "wc_keys_ok w" and "j \<in> set (fst (take_all_jobs w))"
  shows "wc_lookup w (jb_idx j) = Some (jb_data j)"
  using assms(2) unfolding take_all_jobs_mem
proof (elim disjE exE conjE)
  fix c assume "(jb_idx j, c) \<in> set (ds_chunks (wc_dirty w))"
    and "j = \<lparr>jb_idx = jb_idx j, jb_data = dc_data c, jb_generation = dc_tick c\<rparr>"
  then have "map_of (ds_chunks (wc_dirty w)) (jb_idx j) = Some c" "jb_data j = dc_data c"
    using assms(1) by (auto simp: wc_keys_ok_def) (metis job.select_convs(2))
  then show ?thesis by (simp add: wc_lookup_def dirty_get_def)
next
  fix b c assume b: "wc_buffer w = Some b" and c: "(jb_idx j, c) \<in> set (bu_chunks (br_state b))"
    and out: "jb_idx j \<notin> fst ` set (ds_chunks (wc_dirty w))"
    and "j = \<lparr>jb_idx = jb_idx j, jb_data = bc_data c, jb_generation = bc_generation c\<rparr>"
  then have "map_of (bu_chunks (br_state b)) (jb_idx j) = Some c" "jb_data j = bc_data c"
    using assms(1) by (auto simp: wc_keys_ok_def) (metis job.select_convs(2))
  moreover have "map_of (ds_chunks (wc_dirty w)) (jb_idx j) = None"
    using out by (simp add: map_of_eq_None_iff)
  ultimately show ?thesis by (simp add: wc_lookup_def dirty_get_def buf_lookup_def b)
qed

lemma take_all_jobs_complete:
  assumes "wc_lookup w idx \<noteq> None"
  shows "idx \<in> jb_idx ` set (fst (take_all_jobs w))"
proof (cases "map_of (ds_chunks (wc_dirty w)) idx")
  case (Some c)
  let ?j = "\<lparr>jb_idx = idx, jb_data = dc_data c, jb_generation = dc_tick c\<rparr>"
  have "?j \<in> set (fst (take_all_jobs w))"
    using map_of_SomeD [OF Some] unfolding take_all_jobs_mem by auto
  then show ?thesis by force
next
  case None
  with assms obtain b c where b: "wc_buffer w = Some b" and c: "map_of (bu_chunks (br_state b)) idx = Some c"
    by (auto simp: wc_lookup_def dirty_get_def buf_lookup_def split: option.splits)
  let ?j = "\<lparr>jb_idx = idx, jb_data = bc_data c, jb_generation = bc_generation c\<rparr>"
  have "?j \<in> set (fst (take_all_jobs w))"
    using map_of_SomeD [OF c] None b unfolding take_all_jobs_mem by (auto simp: map_of_eq_None_iff)
  then show ?thesis by force
qed

text \<open>The tables after a flush has taken the jobs.\<close>

definition drained :: "write_cache_mode \<Rightarrow> bool \<Rightarrow> 's wcore \<Rightarrow> bool" where
  "drained m direct w \<longleftrightarrow> wc_mode w = m \<and> wc_lookup w = (\<lambda>_. None) \<and> wc_keys_ok w \<and> (wc_buffer w = None \<longleftrightarrow> direct)"

definition job_ok :: "(bytes \<Rightarrow> bool) \<Rightarrow> (nat \<Rightarrow> byte) \<Rightarrow> geometry \<Rightarrow> job \<Rightarrow> bool" where
  "job_ok adm d g j \<longleftrightarrow> jb_data j = disk_read d (jb_idx j * g_chunk g) (g_chunk g) \<and> jb_idx j * g_chunk g < g_cap g \<and> adm (jb_data j)"

lemma drained_cong:
  "wc_dirty w' = wc_dirty w \<Longrightarrow> wc_buffer w' = wc_buffer w \<Longrightarrow> wc_mode w' = wc_mode w \<Longrightarrow> drained m direct w' = drained m direct w"
  using wc_lookup_cong [of w' w] by (simp add: drained_def wc_keys_ok_def)

lemma drained_set [simp]:
  "drained m direct (w\<lparr>wc_fs := f\<rparr>) = drained m direct w" "drained m direct (w\<lparr>wc_inner := s\<rparr>) = drained m direct w"
  "drained m direct (ctl_update h w) = drained m direct w"
  by (rule drained_cong; simp)+

lemma drained_rep:
  "drained m direct w \<Longrightarrow> Rep d g (wc_inner w) \<Longrightarrow> zero_beyond (g_cap g) d \<Longrightarrow> wc_rep Rep adm d g w \<and> wc_mode w = m \<and>
     (wc_buffer w = None \<longleftrightarrow> direct)"
  by (auto simp: drained_def wc_rep_def overlay_empty)

section \<open>Listing and removal\<close>

lemma push_missing_set: "set (fold push_missing xs ys) = set xs \<union> set ys"
  by (induction xs arbitrary: ys) (auto simp: push_missing_def)

lemma push_missing_distinct: "distinct ys \<Longrightarrow> distinct (fold push_missing xs ys)"
  by (induction xs arbitrary: ys) (auto simp: push_missing_def)

lemma buf_remove_lookup: "map_of (bu_chunks (buf_remove idx b)) = (map_of (bu_chunks b))(idx := None)"
  by (auto simp: buf_remove_def delete_conv' fun_eq_iff split: option.splits)

lemma remove_cached_sel [simp]:
  "wc_inner (remove_cached idx w) = wc_inner w" "wc_mode (remove_cached idx w) = wc_mode w"
  "wc_buffer (remove_cached idx w) = None \<longleftrightarrow> wc_buffer w = None"
  by (simp_all add: remove_cached_def)

lemma remove_cached_lookup: "wc_lookup (remove_cached idx w) = (wc_lookup w)(idx := None)"
  by (auto simp: remove_cached_def wc_lookup_def buf_lookup_def buf_remove_lookup fun_eq_iff split: option.splits)

lemma remove_cached_keys: "wc_keys_ok w \<Longrightarrow> wc_keys_ok (remove_cached idx w)"
  by (auto simp: remove_cached_def wc_keys_ok_def dirty_keys_remove buf_remove_def distinct_delete split: option.splits)

lemma overlay_lists:
  assumes ov: "overlay cs lk di d" and "distinct xs" and sub: "set ys \<union> {i. lk i \<noteq> None} \<subseteq> set xs" and ys: "lists_chunks cs di ys"
    and "\<forall>i \<in> set xs. i < 2 ^ 64"
  shows "lists_chunks cs d (sort xs)"
  unfolding lists_chunks_def
proof (intro conjI allI impI)
  fix i assume "i \<notin> set (sort xs)"
  then have "i \<notin> set ys" and none: "lk i = None" using sub by auto
  then have "chunk_zero cs di i" using ys by (simp add: lists_chunks_def)
  then show "chunk_zero cs d i"
    using overlay_miss [OF ov none] unfolding chunk_zero_def by auto
qed (use assms(2,5) in auto)

section \<open>Operations of the inner store\<close>

lemma post_on_winner:
  assumes "hoare P' m Q' E'" and "P' (wc_inner w)"
    and "\<And>a s. Q' a s \<Longrightarrow> Q a (w\<lparr>wc_inner := s\<rparr>)" and "\<And>s. E' s \<Longrightarrow> E (w\<lparr>wc_inner := s\<rparr>)"
  shows "post Q E (on_winner m w)"
  using hoare_post [OF assms(1,2)] assms(3,4) by (cases "m (wc_inner w)") (auto simp: on_winner_def post_cases)

lemma wc_rep_inner:
  assumes "wc_rep_at m b Rep adm d g w" and "Rep di g s" and "overlay (g_chunk g) (wc_lookup w) di d"
  shows "wc_rep_at m b Rep adm d g (w\<lparr>wc_inner := s\<rparr>)"
  using assms wc_lookup_cong [of "w\<lparr>wc_inner := s\<rparr>" w] by (auto simp: wc_rep_at_def wc_rep_def wc_keys_ok_def)

lemma disk_write_merge:
  assumes "0 < cs" and idx: "idx * cs < cap" and z: "\<And>i. cap \<le> i \<Longrightarrow> d i = di i"
  shows "disk_write di (idx * cs) (disk_read d (idx * cs) (min (cap - idx * cs) cs)) = merge_chunk cs di d idx"
proof
  fix i
  let ?n = "min (cap - idx * cs) cs"
  show "disk_write di (idx * cs) (disk_read d (idx * cs) ?n) i = merge_chunk cs di d idx i"
  proof (cases "idx * cs \<le> i \<and> i < idx * cs + ?n")
    case True
    then have "i div cs = idx" "i - idx * cs < ?n" by (auto intro: chunk_of_range)
    with True show ?thesis
      by (simp only: disk_write_inside [of "idx * cs" i] length_disk_read disk_read_nth [of "i - idx * cs"] merge_chunk_def refl if_True le_add_diff_inverse)
  next
    case False
    then have "i div cs \<noteq> idx \<or> cap \<le> i" using chunk_range [OF assms(1), of i idx] by auto
    with False z show ?thesis by (subst disk_write_outside) (auto simp: merge_chunk_def)
  qed
qed

lemma touches_chunk:
  assumes "touches cs (idx * cs) n j" and "n \<le> cs"
  shows "j = idx"
proof -
  have "j * cs < Suc idx * cs" "idx * cs < Suc j * cs"
    using assms by (auto simp: touches_def)
  then have "j < Suc idx" "idx < Suc j"
    unfolding mult_less_cancel2 by blast+
  then show ?thesis by simp
qed

context block_store
begin

lemma write_inner_hoare:
  assumes zero: "zero_beyond (g_cap g) d" and idx: "idx * g_chunk g < g_cap g" and adm: "adm (disk_read d (idx * g_chunk g) (g_chunk g))"
  shows "hoare (Rep di g) (write_inner B idx (disk_read d (idx * g_chunk g) (g_chunk g)))
    (\<lambda>_. Rep (merge_chunk (g_chunk g) di d idx) g) (\<lambda>_. True)"
  unfolding hoare_def
proof (intro allI impI)
  fix s assume s: "Rep di g s"
  let ?cs = "g_chunk g" let ?off = "idx * ?cs" let ?n = "min (g_cap g - ?off) ?cs"
  let ?bs = "disk_read d ?off ?n"
  have g: "bs_capacity B s = g_cap g" "bs_chunk_size B s = ?cs" "0 < ?cs" "g_cap g < 2 ^ 64"
    using geom [OF s] chunk_pos' [OF s] cap_bound [OF s] by auto
  have off: "sat_mul idx ?cs = ?off" using idx g(4) by simp
  have dw: "disk_write di ?off ?bs = merge_chunk ?cs di d idx"
    using zero beyond [OF s] by (intro disk_write_merge g idx) (simp add: zero_beyond_def)
  have rd: "disk_read (merge_chunk ?cs di d idx) ?off ?cs = disk_read d ?off ?cs"
    by (rule disk_read_cong) (auto simp: merge_chunk_def chunk_of_range)
  have "adm_write adm ?cs di ?off ?bs"
    unfolding adm_write_def dw
  proof (intro allI impI)
    fix j assume "touches ?cs ?off (length ?bs) j"
    then have "j = idx" by (rule touches_chunk) simp
    then show "adm (disk_read (merge_chunk ?cs di d idx) (j * ?cs) ?cs)" using adm rd by simp
  qed
  from hoare_post [OF write_at [OF this] s]
  have "post (\<lambda>_. Rep (merge_chunk ?cs di d idx) g) (\<lambda>_. True) (bs_write_at B ?off ?bs s)"
    by (rule post_mono) (auto simp: dw)
  moreover have "take (min (g_cap g - ?off) (length (disk_read d ?off ?cs))) (disk_read d ?off ?cs) = ?bs"
    by (simp add: disk_read_def take_map)
  ultimately show "post (\<lambda>_. Rep (merge_chunk ?cs di d idx) g) (\<lambda>_. True)
      (write_inner B idx (disk_read d ?off ?cs) s)"
    using idx by (simp add: write_inner_def g off Let_def)
qed

lemma read_full_chunk_hoare:
  assumes idx: "idx * g_chunk g < g_cap g"
  shows "hoare (Rep di g) (read_full_chunk B idx)
    (\<lambda>x s. x = disk_read di (idx * g_chunk g) (g_chunk g) \<and> Rep di g s) (Rep di g)"
  unfolding hoare_def
proof (intro allI impI)
  fix s assume s: "Rep di g s"
  let ?cs = "g_chunk g" let ?off = "idx * ?cs" let ?n = "min (g_cap g - ?off) ?cs"
  have g: "bs_capacity B s = g_cap g" "bs_chunk_size B s = ?cs" "sat_mul idx ?cs = ?off"
    using geom [OF s] cap_bound [OF s] idx by auto
  have pad: "disk_read di ?off ?n @ zeros (?cs - ?n) = disk_read di ?off ?cs"
    by (rule nth_equalityI) (use beyond [OF s] in \<open>auto simp: nth_append\<close>)
  have "hoare (Rep di g) (bind_op (bs_read_at B ?off ?n) (\<lambda>b. ret_op (b @ zeros (?cs - ?n))))
      (\<lambda>x s. x = disk_read di ?off ?cs \<and> Rep di g s) (Rep di g)"
    by (rule hoare_bind [OF read_at]) (auto simp: hoare_def ret_op_def pad)
  from hoare_post [OF this s] show "post (\<lambda>x s. x = disk_read di ?off ?cs \<and> Rep di g s) (Rep di g) (read_full_chunk B idx s)"
    using idx by (simp add: read_full_chunk_def g Let_def)
qed

lemma load_for_write_hoare:
  assumes idx: "idx * g_chunk g < g_cap g"
  shows "hoare (wc_rep_at m b Rep adm d g) (load_for_write B idx)
    (\<lambda>x w. x = disk_read d (idx * g_chunk g) (g_chunk g) \<and> wc_rep_at m b Rep adm d g w) (wc_rep_at m b Rep adm d g)"
  unfolding hoare_def
proof (intro allI impI)
  fix w assume rep: "wc_rep_at m b Rep adm d g w"
  let ?cs = "g_chunk g" let ?R = "wc_rep_at m b Rep adm d g"
  obtain di where di: "Rep di g (wc_inner w)" and ov: "overlay ?cs (wc_lookup w) di d"
    using rep by (auto simp: wc_rep_at_def wc_rep_def)
  show "post (\<lambda>x w. x = disk_read d (idx * ?cs) ?cs \<and> ?R w) ?R (load_for_write B idx w)"
  proof (cases "wc_lookup w idx")
    case None
    have "disk_read di (idx * ?cs) ?cs = disk_read d (idx * ?cs) ?cs"
      by (rule disk_read_cong) (use overlay_miss [OF ov None] chunk_of_range in blast)
    then have "post (\<lambda>x w. x = disk_read d (idx * ?cs) ?cs \<and> ?R w) ?R (on_winner (read_full_chunk B idx) w)"
      using wc_rep_inner [where Rep = Rep, OF rep _ ov]
      by (intro post_on_winner [OF read_full_chunk_hoare [OF idx, of di]] di) auto
    with None show ?thesis by (simp add: load_for_write_def)
  next
    case (Some x)
    with rep overlay_lookup [OF ov] show ?thesis by (simp add: load_for_write_def)
  qed
qed

lemma wc_fetch_hoare:
  assumes pc: "in_piece (g_chunk g) off n idx within a t" and range: "off + n \<le> g_cap g"
  shows "hoare (wc_rep_at m b Rep adm d g) (wc_fetch B idx within a t)
    (\<lambda>p w. p = disk_read d a t \<and> wc_rep_at m b Rep adm d g w) (wc_rep_at m b Rep adm d g)"
  unfolding hoare_def
proof (intro allI impI)
  fix w assume rep: "wc_rep_at m b Rep adm d g w"
  let ?cs = "g_chunk g" let ?R = "wc_rep_at m b Rep adm d g"
  have a: "a = idx * ?cs + within" "within + t \<le> ?cs" using pc by (auto simp: in_piece_def)
  obtain di where di: "Rep di g (wc_inner w)" and ov: "overlay ?cs (wc_lookup w) di d"
    using rep by (auto simp: wc_rep_at_def wc_rep_def)
  show "post (\<lambda>p w. p = disk_read d a t \<and> ?R w) ?R (wc_fetch B idx within a t w)"
  proof (cases "wc_lookup w idx")
    case None
    have "disk_read di a t = disk_read d a t"
      by (rule disk_read_cong) (use overlay_miss [OF ov None] chunk_of_range [of idx ?cs] a in auto)
    then have "post (\<lambda>p w. p = disk_read d a t \<and> ?R w) ?R (on_winner (bs_read_at B a t) w)"
      using wc_rep_inner [where Rep = Rep, OF rep _ ov] by (intro post_on_winner [OF read_at [of di g]] di) auto
    with None show ?thesis by (simp add: wc_fetch_def)
  next
    case (Some x)
    with rep overlay_lookup [OF ov Some] a show ?thesis by (simp add: wc_fetch_def)
  qed
qed

lemma wc_read_hoare:
  "hoare (wc_rep_at m b Rep adm d g) (wc_read_at B off n)
    (\<lambda>p w. wc_rep_at m b Rep adm d g w \<and> off + n \<le> g_cap g \<and> p = disk_read d off n) (wc_rep_at m b Rep adm d g)"
  unfolding hoare_def
proof (intro allI impI)
  fix w assume rep: "wc_rep_at m b Rep adm d g w"
  let ?R = "wc_rep_at m b Rep adm d g" let ?Q = "\<lambda>p w. ?R w \<and> off + n \<le> g_cap g \<and> p = disk_read d off n"
  obtain di where di: "Rep di g (wc_inner w)" and ov: "overlay (g_chunk g) (wc_lookup w) di d"
    using rep by (auto simp: wc_rep_at_def wc_rep_def)
  show "post ?Q ?R (wc_read_at B off n w)"
  proof (cases "m = WNone")
    case True
    then have "di = d" using rep ov overlay_empty by (auto simp: wc_rep_at_def wc_rep_def)
    then have "post ?Q ?R (on_winner (bs_read_at B off n) w)"
      using wc_rep_inner [where Rep = Rep, OF rep _ ov] by (intro post_on_winner [OF read_at [of di g]] di) auto
    with True rep show ?thesis by (simp add: wc_read_at_def wc_rep_at_def)
  next
    case False
    have "hoare ?R (guard_op (check_range (g_cap g) off n) (read_loop (g_chunk g) (wc_fetch B) off n 0 (zeros n))) ?Q ?R"
      using cap_bound [OF di] chunk_pos' [OF di]
      by (intro hoare_guard_range hoare_conseq [OF read_loop_whole [OF _ wc_fetch_hoare]]) auto
    from hoare_post [OF this rep] False rep show ?thesis
      using geom [OF di] by (simp add: wc_read_at_def wc_rep_at_def)
  qed
qed

lemma wc_store_piece_hoare:
  assumes pc: "in_piece (g_chunk g) off n idx within a (length p)" and range: "off + n \<le> g_cap g" and m: "m \<noteq> WNone"
    and adm: "adm (disk_read (disk_write d a p) (idx * g_chunk g) (g_chunk g))"
  shows "hoare (wc_rep_at m b Rep adm d g) (wc_store_piece B idx within a p)
    (\<lambda>_. wc_rep_at m b Rep adm (disk_write d a p) g) (wc_rep_at m b Rep adm d g)"
proof -
  let ?cs = "g_chunk g" let ?R = "wc_rep_at m b Rep adm"
  let ?x = "disk_read d (idx * ?cs) ?cs" and ?y = "disk_read (disk_write d a p) (idx * ?cs) ?cs"
  have a: "a = idx * ?cs + within" "within + length p \<le> ?cs" "idx * ?cs < g_cap g" "a + length p \<le> g_cap g"
    using pc range unfolding in_piece_def by linarith+
  have y: "patch ?x within p = ?y" using a by (simp add: patch_disk_read)
  have "disk_write d a p i = d i" if "i div ?cs \<noteq> idx" for i
    using that chunk_of_range [of idx ?cs i] a by (auto simp: disk_write_def)
  then have ins: "hoare (?R d g) (\<lambda>w. (Ok (), w\<lparr>wc_dirty := dirty_insert (wc_now w) idx ?y (wc_dirty w)\<rparr>))
      (\<lambda>_. ?R (disk_write d a p) g) (?R d g)"
    unfolding hoare_def post_simps
    by (intro allI impI wc_rep_insert) (use m adm a in \<open>auto simp: wc_rep_at_def wc_rep_def zero_beyond_disk_write\<close>)
  show ?thesis
    unfolding wc_store_piece_def
  proof (rule hoare_bind [OF load_for_write_hoare [OF a(3)]])
    fix x
    show "hoare (\<lambda>w. x = ?x \<and> ?R d g w)
        (if within + length p \<le> length x then
           (let chunk' = patch x within p in bind_op (wc_persist idx chunk')
              (\<lambda>_ w. (Ok (), w\<lparr>wc_dirty := dirty_insert (wc_now w) idx chunk' (wc_dirty w)\<rparr>)))
         else panic_op) (\<lambda>_. ?R (disk_write d a p) g) (?R d g)"
    proof (cases "x = ?x")
      case True
      have "hoare (?R d g) (bind_op (wc_persist idx ?y)
              (\<lambda>_ w. (Ok (), w\<lparr>wc_dirty := dirty_insert (wc_now w) idx ?y (wc_dirty w)\<rparr>))) (\<lambda>_. ?R (disk_write d a p) g) (?R d g)"
        by (rule hoare_bind [OF wc_persist_hoare ins]) (rule wc_rep_at_fs)
      with True a(2) show ?thesis by (simp add: y Let_def)
    qed (simp add: hoare_def)
  qed
qed

lemma wc_store_pieces_hoare:
  assumes adm: "adm_write adm (g_chunk g) d off data" and m: "m \<noteq> WNone"
  shows "hoare (wc_rep_at m b Rep adm d g) (wc_store_pieces B off data)
    (\<lambda>_ w. off + length data \<le> g_cap g \<and> wc_rep_at m b Rep adm (disk_write d off data) g w)
    (\<lambda>w. \<exists>d'. wc_rep_at m b Rep adm d' g w)"
  unfolding hoare_def
proof (intro allI impI)
  fix w assume rep: "wc_rep_at m b Rep adm d g w"
  let ?R = "wc_rep_at m b Rep adm"
  obtain di where di: "Rep di g (wc_inner w)" using rep by (auto simp: wc_rep_at_def wc_rep_def)
  have "hoare (?R d g) (guard_op (check_range (g_cap g) off (length data)) (write_loop (g_chunk g) (wc_store_piece B) off data 0))
      (\<lambda>_ w. off + length data \<le> g_cap g \<and> ?R (disk_write d off data) g w) (\<lambda>w. \<exists>d'. ?R d' g w)"
  proof (rule hoare_guard_range [OF cap_bound [OF di]])
    assume range: "off + length data \<le> g_cap g"
    have "hoare (?R d g) (write_loop (g_chunk g) (wc_store_piece B) off data 0)
        (\<lambda>_. ?R (disk_write d off data) g) (\<lambda>w. \<exists>d'. ?R d' g w)"
    proof (rule write_loop_whole [OF chunk_pos' [OF di]])
      fix d' idx within a p
      assume pc: "in_piece (g_chunk g) off (length data) idx within a (length p)"
        and eq: "disk_read (disk_write d' a p) (idx * g_chunk g) (g_chunk g) =
          disk_read (disk_write d off data) (idx * g_chunk g) (g_chunk g)"
      have "touches (g_chunk g) off (length data) idx"
        using pc unfolding in_piece_def touches_def by linarith
      then have "adm (disk_read (disk_write d' a p) (idx * g_chunk g) (g_chunk g))"
        using adm eq by (simp add: adm_write_def)
      from wc_store_piece_hoare [OF pc range m this]
      show "hoare (?R d' g) (wc_store_piece B idx within a p) (\<lambda>_. ?R (disk_write d' a p) g) (\<lambda>w. \<exists>d'. ?R d' g w)"
        by (rule hoare_conseq) auto
    qed
    then show "hoare (?R d g) (write_loop (g_chunk g) (wc_store_piece B) off data 0)
        (\<lambda>_ w. off + length data \<le> g_cap g \<and> ?R (disk_write d off data) g w) (\<lambda>w. \<exists>d'. ?R d' g w)"
      by (rule hoare_conseq) (use range in auto)
  qed auto
  from hoare_post [OF this rep] show "post (\<lambda>_ w. off + length data \<le> g_cap g \<and> ?R (disk_write d off data) g w)
      (\<lambda>w. \<exists>d'. ?R d' g w) (wc_store_pieces B off data w)"
    using geom [OF di] by (simp add: wc_store_pieces_def)
qed

text \<open>
  Eviction. The dirty chunk leaves the table only after the inner store has it; if the inner store
  tears at most the chunk it writes, a failed eviction loses nothing either.
\<close>

lemma wc_rep_evict:
  assumes rep: "wc_rep_at m None Rep adm d g w" and di: "Rep (merge_chunk (g_chunk g) di d idx) g s"
    and ov: "overlay (g_chunk g) (wc_lookup w) di d"
  shows "wc_rep_at m None Rep adm d g (w\<lparr>wc_inner := s, wc_dirty := snd (dirty_remove idx (wc_dirty w))\<rparr>)"
proof -
  have "wc_buffer w = None" using rep by (simp add: wc_rep_at_def)
  then have "wc_lookup (w\<lparr>wc_inner := s, wc_dirty := snd (dirty_remove idx (wc_dirty w))\<rparr>) = (wc_lookup w)(idx := None)"
    using wc_lookup_remove [of "w\<lparr>wc_inner := s\<rparr>" idx] wc_lookup_cong [of "w\<lparr>wc_inner := s\<rparr>" w] by simp
  then show ?thesis
    using rep di overlay_merge [OF ov, of idx]
    by (auto simp: wc_rep_at_def wc_rep_def wc_lookup_remove wc_keys_ok_def dirty_keys_remove split: if_splits)
qed

lemma evict_victim_lookup: "evict_victim w = Some (idx, data) \<Longrightarrow> wc_lookup w idx = Some data"
  by (auto simp: evict_victim_def wc_lookup_def split: if_splits option.splits)

lemma overlay_torn:
  assumes "overlay (g_chunk g) lk di d" and "lk idx = Some x" and "same_outside (g_chunk g) idx di di'"
  shows "overlay (g_chunk g) lk di' d"
  using assms unfolding overlay_def same_outside_def by (metis option.distinct(1))

lemma evict_loop_hoare:
  assumes wi: "\<And>di idx. idx * g_chunk g < g_cap g \<Longrightarrow> adm (disk_read d (idx * g_chunk g) (g_chunk g)) \<Longrightarrow>
      hoare (Rep di g) (write_inner B idx (disk_read d (idx * g_chunk g) (g_chunk g)))
        (\<lambda>_. Rep (merge_chunk (g_chunk g) di d idx) g)
        (\<lambda>s. torn_inner \<longrightarrow> (\<exists>di'. same_outside (g_chunk g) idx di di' \<and> Rep di' g s))"
    and rep: "wc_rep_at m None Rep adm d g w"
  shows "post (\<lambda>_. wc_rep_at m None Rep adm d g) (\<lambda>w. torn_inner \<longrightarrow> wc_rep_at m None Rep adm d g w) (evict_loop B w)"
  using rep
proof (induction "length (ds_chunks (wc_dirty w))" arbitrary: w rule: less_induct)
  case less
  let ?cs = "g_chunk g" let ?R = "wc_rep_at m None Rep adm d g" let ?E = "\<lambda>w. torn_inner \<longrightarrow> ?R w"
  show ?case
  proof (cases "evict_victim w")
    case None
    with less.prems show ?thesis by (simp add: evict_loop.simps [of B w])
  next
    case (Some v)
    then obtain idx data where v: "evict_victim w = Some (idx, data)" by (cases v) auto
    obtain di where di: "Rep di g (wc_inner w)" and ov: "overlay ?cs (wc_lookup w) di d"
      using less.prems by (auto simp: wc_rep_at_def wc_rep_def)
    note look = evict_victim_lookup [OF v]
    have data: "data = disk_read d (idx * ?cs) ?cs" using overlay_lookup [OF ov look] .
    have adm: "idx * ?cs < g_cap g" "adm data"
      using less.prems look by (auto simp: wc_rep_at_def wc_rep_def)
    obtain r1 s1 where wr: "write_inner B idx data (wc_inner w) = (r1, s1)" by fastforce
    define w1 where "w1 = w\<lparr>wc_inner := s1\<rparr>"
    define w2 where "w2 = w1\<lparr>wc_dirty := snd (dirty_remove idx (wc_dirty w1))\<rparr>"
    obtain r3 w3 where rm: "wc_remove_file idx w2 = (r3, w3)" by fastforce
    have p1: "post (\<lambda>_. Rep (merge_chunk ?cs di d idx) g) (\<lambda>s. torn_inner \<longrightarrow> (\<exists>di'. same_outside ?cs idx di di' \<and> Rep di' g s)) (r1, s1)"
      using hoare_post [OF wi [OF adm(1)] di] adm(2) wr by (simp add: data)
    have keep: "?R w1" if "Rep di' g s1" "overlay ?cs (wc_lookup w) di' d" for di'
      unfolding w1_def by (rule wc_rep_inner [where Rep = Rep, OF less.prems that])
    have err: "?E w1" if "r1 = Err e" for e
      using p1 that keep overlay_torn [OF ov look] by auto
    have w2: "?R w2" if "r1 = Ok u" for u
      using p1 that wc_rep_evict [OF less.prems _ ov, of idx s1] by (simp add: w2_def w1_def)
    have "length (ds_chunks (wc_dirty w3)) < length (ds_chunks (wc_dirty w))"
      using remove_file_frame [OF rm] evict_victim_in [OF v] by (simp add: w2_def w1_def dirty_remove_less)
    moreover have "post (\<lambda>_. ?R) ?R (r3, w3)" if "r1 = Ok u" for u
      using hoare_post [OF wc_remove_file_hoare [of ?R idx, OF wc_rep_at_fs] w2 [OF that]] rm by simp
    ultimately show ?thesis
      using p1 err less.hyps [of w3] v wr rm
      by (cases r1; cases r3) (auto simp: evict_loop.simps [of B w] on_winner_def w1_def [symmetric] w2_def [symmetric])
  qed
qed

lemma wc_rep_set_dirty_ctl: "wc_rep_at m b Rep adm d g (begin_write w) \<longleftrightarrow> wc_rep_at m b Rep adm d g w"
    "wc_rep_at m b Rep adm d g (drop_hold w) \<longleftrightarrow> wc_rep_at m b Rep adm d g w"
  by (simp_all add: begin_write_def drop_hold_def)

lemma evict_direct_hoare:
  "hoare (wc_rep_at m None Rep adm d g) (evict_direct B) (\<lambda>_. wc_rep_at m None Rep adm d g) (\<lambda>_. True)"
  unfolding hoare_def
proof (intro allI impI)
  fix w assume rep: "wc_rep_at m None Rep adm d g w"
  then have "zero_beyond (g_cap g) d" by (simp add: wc_rep_at_def wc_rep_def)
  then have "post (\<lambda>_. wc_rep_at m None Rep adm d g) (\<lambda>w. False \<longrightarrow> wc_rep_at m None Rep adm d g w) (evict_loop B w)"
    by (intro evict_loop_hoare [OF _ rep] hoare_conseq [OF write_inner_hoare]) auto
  with rep show "post (\<lambda>_. wc_rep_at m None Rep adm d g) (\<lambda>_. True) (evict_direct B w)"
    by (auto simp: evict_direct_def)
qed

lemma wc_write_hoare:
  assumes adm: "adm_write adm (g_chunk g) d off data"
  shows "hoare (wc_rep_at m None Rep adm d g) (wc_write_direct B off data)
    (\<lambda>_ w. off + length data \<le> g_cap g \<and> wc_rep_at m None Rep adm (disk_write d off data) g w) (\<lambda>_. True)"
  unfolding hoare_def
proof (intro allI impI)
  fix w assume rep: "wc_rep_at m None Rep adm d g w"
  let ?Q = "\<lambda>w. off + length data \<le> g_cap g \<and> wc_rep_at m None Rep adm (disk_write d off data) g w"
  have mode: "wc_mode w = m" "wc_buffer w = None" using rep by (auto simp: wc_rep_at_def)
  show "post (\<lambda>_. ?Q) (\<lambda>_. True) (wc_write_direct B off data w)"
  proof (cases "m = WNone")
    case True
    obtain di where di: "Rep di g (wc_inner w)" "overlay (g_chunk g) (wc_lookup w) di d"
      using rep by (auto simp: wc_rep_at_def wc_rep_def)
    have look: "wc_lookup w = (\<lambda>_. None)" using rep True by (simp add: wc_rep_at_def wc_rep_def)
    then have d: "Rep d g (wc_inner w)" using di overlay_empty by auto
    have "post (\<lambda>_. ?Q) (\<lambda>_. True) (on_winner (bs_write_at B off data) w)"
      by (rule post_on_winner [OF write_at [OF adm]], rule d)
        (use rep look wc_lookup_cong [of "w\<lparr>wc_inner := _\<rparr>" w] wf in
          \<open>auto simp: wc_rep_at_def wc_rep_def overlay_empty wc_keys_ok_def\<close>)
    with True mode show ?thesis by (simp add: wc_write_direct_def wc_write_at_def)
  next
    case False
    have "wc_rep_at m None Rep adm d g (begin_write w)" using rep by (simp add: wc_rep_set_dirty_ctl)
    note p1 = hoare_post [OF wc_store_pieces_hoare [OF adm False] this]
    obtain r1 w1 where w1: "wc_store_pieces B off data (begin_write w) = (r1, w1)" by fastforce
    show ?thesis
    proof (cases r1)
      case (Ok u)
      with p1 w1 have q: "?Q w1" by simp
      then have b: "wc_buffer w1 = None" by (simp add: wc_rep_at_def)
      obtain r2 w2 where w2: "evict_direct B w1 = (r2, w2)" by fastforce
      have "post (\<lambda>_. wc_rep_at m None Rep adm (disk_write d off data) g) (\<lambda>_. True) (r2, w2)"
        using hoare_post [OF evict_direct_hoare] q w2 by metis
      with q Ok w1 w2 b False mode show ?thesis
        by (cases r2) (simp_all add: wc_write_direct_def wc_write_at_def wc_rep_set_dirty_ctl)
    qed (use p1 w1 False mode in \<open>simp_all add: wc_write_direct_def wc_write_at_def\<close>)
  qed
qed

text \<open>
  A flush. While the jobs are written the tables are empty and the inner disk agrees outside the
  chunks of the remaining jobs.
\<close>

lemma write_jobs_hoare:
  assumes zero: "zero_beyond (g_cap g) d"
    and jobs: "\<forall>j\<in>set js. job_ok adm d g j"
    and I: "\<And>w f s. I w \<Longrightarrow> I (w\<lparr>wc_fs := f\<rparr>) \<and> I (w\<lparr>wc_inner := s\<rparr>)"
  shows "hoare (\<lambda>w. I w \<and> (\<exists>di. Rep di g (wc_inner w) \<and> (\<forall>i. i div g_chunk g \<notin> jb_idx ` set js \<longrightarrow> di i = d i)))
    (write_jobs B js) (\<lambda>_ w. I w \<and> Rep d g (wc_inner w)) (\<lambda>_. True)"
  using jobs
proof (induction js)
  case Nil
  show ?case by (auto simp: hoare_def ret_op_def fun_eq_iff [symmetric])
next
  case (Cons j js)
  let ?cs = "g_chunk g"
  let ?P = "\<lambda>js w. I w \<and> (\<exists>di. Rep di g (wc_inner w) \<and> (\<forall>i. i div ?cs \<notin> jb_idx ` set js \<longrightarrow> di i = d i))"
  have j: "jb_data j = disk_read d (jb_idx j * ?cs) ?cs" "jb_idx j * ?cs < g_cap g" "adm (jb_data j)"
    using Cons.prems by (auto simp: job_ok_def)
  have "hoare (?P (j # js)) (on_winner (write_inner B (jb_idx j) (jb_data j))) (\<lambda>_. ?P js) (\<lambda>_. True)"
    unfolding hoare_def
  proof (intro allI impI, elim conjE exE)
    fix w di assume w: "I w" "Rep di g (wc_inner w)" and di: "\<forall>i. i div ?cs \<notin> jb_idx ` set (j # js) \<longrightarrow> di i = d i"
    have "\<forall>i. i div ?cs \<notin> jb_idx ` set js \<longrightarrow> merge_chunk ?cs di d (jb_idx j) i = d i"
      using di by (auto simp: merge_chunk_def)
    then show "post (\<lambda>_. ?P js) (\<lambda>_. True) (on_winner (write_inner B (jb_idx j) (jb_data j)) w)"
      unfolding j(1) using w I j by (intro post_on_winner [OF write_inner_hoare [OF zero j(2), of di]]) auto
  qed
  moreover have "hoare (?P js) (wc_remove_file (jb_idx j)) (\<lambda>_. ?P js) (\<lambda>_. True)"
    by (rule hoare_conseq [OF wc_remove_file_hoare [of "?P js"]]) (use I in auto)
  then have "hoare (?P js) (\<lambda>w. if \<not> dirty_has w (jb_idx j) then wc_remove_file (jb_idx j) w else (Ok (), w)) (\<lambda>_. ?P js) (\<lambda>_. True)"
    by (simp add: hoare_def)
  ultimately have "hoare (?P (j # js)) (write_snapshot B j) (\<lambda>_. ?P js) (\<lambda>_. True)"
    unfolding write_snapshot_def by (rule hoare_bind)
  then show ?case
    unfolding write_jobs.simps by (rule hoare_bind) (use Cons in auto)
qed

lemma flush_jobs_hoare:
  "hoare (\<lambda>w. wc_rep Rep adm d g w \<and> wc_mode w = m \<and> (wc_buffer w = None \<longleftrightarrow> direct)) (flush_jobs B)
    (\<lambda>_ w. drained m direct w \<and> Rep d g (wc_inner w)) (\<lambda>_. True)"
  unfolding hoare_def
proof (intro allI impI, elim conjE)
  fix w :: "'s wcore" assume rep: "wc_rep Rep adm d g w" and m: "wc_mode w = m" and b: "wc_buffer w = None \<longleftrightarrow> direct"
  define w0 where "w0 = pause_worker w"
  obtain js w1 where tk: "take_all_jobs w0 = (js, w1)" by fastforce
  have w0: "wc_rep Rep adm d g w0" "wc_mode w0 = m" "wc_buffer w0 = None \<longleftrightarrow> direct"
    using rep m b by (auto simp: w0_def pause_worker_def)
  obtain di where di: "Rep di g (wc_inner w0)" and ov: "overlay (g_chunk g) (wc_lookup w0) di d"
    using w0(1) by (rule wc_repD)
  have w1: "drained m direct w1" "wc_inner w1 = wc_inner w0"
    using take_all_jobs_empty [of w0] take_all_jobs_sel [of w0] tk w0 by (simp_all add: drained_def)
  have out: "\<forall>i. i div g_chunk g \<notin> jb_idx ` set js \<longrightarrow> di i = d i"
    using take_all_jobs_complete [of w0] tk overlay_miss [OF ov] by (metis fst_conv)
  have "job_ok adm d g j" if "j \<in> set js" for j
  proof -
    have look: "wc_lookup w0 (jb_idx j) = Some (jb_data j)"
      using that take_all_jobs_sound [of w0 j] tk w0(1) by (simp add: wc_rep_def)
    then show ?thesis
      unfolding job_ok_def using wc_rep_adm [OF w0(1) look] overlay_lookup [OF ov look] by blast
  qed
  then have "hoare (\<lambda>w. drained m direct w \<and> (\<exists>di. Rep di g (wc_inner w) \<and> (\<forall>i. i div g_chunk g \<notin> jb_idx ` set js \<longrightarrow> di i = d i)))
      (write_jobs B js) (\<lambda>_ w. drained m direct w \<and> Rep d g (wc_inner w)) (\<lambda>_. True)"
    using w0(1) by (intro write_jobs_hoare) (auto simp: wc_rep_def)
  from hoare_post [OF this, of w1]
  have "post (\<lambda>_ w. drained m direct w \<and> Rep d g (wc_inner w)) (\<lambda>_. True) (write_jobs B js w1)"
    using w1 di out by auto
  then show "post (\<lambda>_ w. drained m direct w \<and> Rep d g (wc_inner w)) (\<lambda>_. True) (flush_jobs B w)"
    unfolding flush_jobs_def w0_def [symmetric] tk prod.case
    by (rule post_bind) (simp add: resume_worker_def)
qed

lemma wc_flush_hoare:
  "hoare (\<lambda>w. wc_rep Rep adm d g w \<and> wc_mode w = m \<and> (wc_buffer w = None \<longleftrightarrow> direct)) (wc_flush B)
    (\<lambda>_ w. drained m direct w \<and> Rep d g (wc_inner w)) (\<lambda>_. True)"
  unfolding hoare_def
proof (intro allI impI)
  fix w :: "'s wcore" assume w: "wc_rep Rep adm d g w \<and> wc_mode w = m \<and> (wc_buffer w = None \<longleftrightarrow> direct)"
  let ?Q = "\<lambda>w. drained m direct w \<and> Rep d g (wc_inner w)"
  have fl: "post (\<lambda>_. ?Q) (\<lambda>_. True) (on_winner (bs_flush B) w)" if "?Q w" for w
    using that by (intro post_on_winner [OF flush]) auto
  show "post (\<lambda>_. ?Q) (\<lambda>_. True) (wc_flush B w)"
  proof (cases "m = WNone")
    case True
    then have "?Q w" using w overlay_empty by (auto simp: wc_rep_def drained_def)
    with fl True w show ?thesis by (simp add: wc_flush_def)
  next
    case False
    let ?w = "ctl_update (\<lambda>c. c\<lparr>ct_exclusive := True\<rparr>) w"
    have "post (\<lambda>_. ?Q) (\<lambda>_. True) (flush_jobs B ?w)"
      by (rule hoare_post [OF flush_jobs_hoare]) (use w in simp)
    then have "post (\<lambda>_. ?Q) (\<lambda>_. True) (with_exclusive (flush_jobs B) w)"
      by (cases "flush_jobs B ?w") (auto simp: with_exclusive_def post_cases)
    then have "post (\<lambda>_. ?Q) (\<lambda>_. True) (bind_op (with_exclusive (flush_jobs B)) (\<lambda>_. on_winner (bs_flush B)) w)"
      by (rule post_bind) (rule fl)
    with False w show ?thesis by (simp add: wc_flush_def)
  qed
qed

lemma wc_set_capacity_hoare:
  assumes "c < 2 ^ 64"
  shows "hoare (\<lambda>w. wc_rep Rep adm d g w \<and> wc_mode w = m \<and> (wc_buffer w = None \<longleftrightarrow> direct)) (wc_set_capacity B c)
    (\<lambda>_ w. g_cap g \<le> c \<and> drained m direct w \<and> Rep d (g\<lparr>g_cap := c\<rparr>) (wc_inner w)) (\<lambda>_. True)"
  unfolding wc_set_capacity_def
  by (rule hoare_bind [OF wc_flush_hoare])
    (auto simp: hoare_def intro!: post_on_winner [OF set_capacity [OF assms]])

lemma wc_present_hoare:
  "hoare (wc_rep_at m b Rep adm d g) (wc_present_chunks B)
    (\<lambda>xs w. wc_rep_at m b Rep adm d g w \<and> lists_chunks (g_chunk g) d xs) (wc_rep_at m b Rep adm d g)"
  unfolding hoare_def
proof (intro allI impI)
  fix w assume rep: "wc_rep_at m b Rep adm d g w"
  let ?cs = "g_chunk g" let ?R = "wc_rep_at m b Rep adm d g"
  obtain di where di: "Rep di g (wc_inner w)" and ov: "overlay ?cs (wc_lookup w) di d"
    using rep by (auto simp: wc_rep_at_def wc_rep_def)
  let ?M = "\<lambda>xs w. ?R w \<and> overlay ?cs (wc_lookup w) di d \<and> lists_chunks ?cs di xs"
  have p: "post ?M ?R (on_winner (bs_present_chunks B) w)"
    using wc_rep_inner [where Rep = Rep, OF rep _ ov] ov wc_lookup_cong [of "w\<lparr>wc_inner := _\<rparr>" w]
    by (intro post_on_winner [OF present [of di g]] di) auto
  have none: "lists_chunks ?cs d xs" if "overlay ?cs (wc_lookup w) di d" "?R w" "m = WNone" "lists_chunks ?cs di xs" for xs w
    using that overlay_empty by (auto simp: wc_rep_at_def wc_rep_def)
  show "post (\<lambda>xs w. ?R w \<and> lists_chunks ?cs d xs) ?R (wc_present_chunks B w)"
    unfolding wc_present_chunks_def
  proof (rule post_bind, rule p)
    fix ys w1 assume M: "?M ys w1"
    define i1 where "i1 = fold push_missing (map fst (ds_chunks (wc_dirty w1))) ys"
    define i2 where "i2 = (case wc_buffer w1 of None \<Rightarrow> i1 | Some b \<Rightarrow> fold push_missing (map fst (bu_chunks (br_state b))) i1)"
    have "distinct i2"
      using M by (auto simp: i2_def i1_def lists_chunks_def intro!: push_missing_distinct split: option.splits)
    moreover have "set ys \<union> {i. wc_lookup w1 i \<noteq> None} \<subseteq> set i2"
      by (auto simp: i2_def i1_def push_missing_set wc_lookup_def buf_lookup_def dirty_get_def dest!: map_of_SomeD
          split: option.splits) (auto simp: rev_image_eqI)
    moreover have "i < 2 ^ 64" if "i \<in> set i2" for i
    proof (cases "i \<in> set ys")
      case True
      then show ?thesis using M by (simp add: lists_chunks_def)
    next
      case False
      then have "map_of (ds_chunks (wc_dirty w1)) i \<noteq> None \<or>
          (\<exists>b. wc_buffer w1 = Some b \<and> map_of (bu_chunks (br_state b)) i \<noteq> None)"
        using that unfolding map_of_eq_None_iff by (auto simp: i2_def i1_def push_missing_set split: option.splits)
      then have "wc_lookup w1 i \<noteq> None"
        by (auto simp: wc_lookup_def buf_lookup_def dirty_get_def split: option.splits)
      then show ?thesis using M wc_rep_adm [of Rep adm d g w1 i] chunk_below [OF _ cap_bound [OF di] chunk_pos' [OF di]]
        by (auto simp: wc_rep_at_def)
    qed
    ultimately have "lists_chunks ?cs d (sort i2)" using overlay_lists [of ?cs "wc_lookup w1" di d i2 ys] M by blast
    then show "post (\<lambda>xs w. ?R w \<and> lists_chunks ?cs d xs) ?R
      (if wc_mode w1 = WNone then (Ok ys, w1)
       else let i1 = fold push_missing (map fst (ds_chunks (wc_dirty w1))) ys;
                i2 = (case wc_buffer w1 of None \<Rightarrow> i1 | Some b \<Rightarrow> fold push_missing (map fst (bu_chunks (br_state b))) i1)
            in (Ok (sort i2), w1))"
      using M none [of w1 ys] by (auto simp: Let_def i1_def [symmetric] i2_def [symmetric] wc_rep_at_def)
  qed
qed

lemma wc_delete_hoare:
  assumes "idx < 2 ^ 64"
  shows "hoare (\<lambda>w. wc_rep Rep adm d g w \<and> wc_mode w = m \<and> (wc_buffer w = None \<longleftrightarrow> direct)) (wc_delete_chunk B idx)
    (\<lambda>_ w. wc_rep Rep adm (clear_chunk (g_chunk g) d idx) g w \<and> wc_mode w = m \<and> (wc_buffer w = None \<longleftrightarrow> direct)) (\<lambda>_. True)"
  unfolding hoare_def
proof (intro allI impI, elim conjE)
  fix w :: "'s wcore" assume rep: "wc_rep Rep adm d g w" and m: "wc_mode w = m" and b: "wc_buffer w = None \<longleftrightarrow> direct"
  let ?cs = "g_chunk g" let ?D = "clear_chunk ?cs d idx"
  let ?Q = "\<lambda>w. wc_rep Rep adm ?D g w \<and> wc_mode w = m \<and> (wc_buffer w = None \<longleftrightarrow> direct)"
  obtain di where di: "Rep di g (wc_inner w)" and ov: "overlay ?cs (wc_lookup w) di d"
    using rep by (rule wc_repD)
  define I where "I w' \<longleftrightarrow> wc_lookup w' = (wc_lookup w)(idx := None) \<and> wc_keys_ok w' \<and> wc_mode w' = m \<and>
      (wc_buffer w' = None \<longleftrightarrow> direct) \<and> Rep di g (wc_inner w')" for w' :: "'s wcore"
  have ov': "overlay ?cs ((wc_lookup w)(idx := None)) (clear_chunk ?cs di idx) ?D"
    by (rule overlay_clear [OF ov])
  have "I (w'\<lparr>wc_fs := f\<rparr>)" if "I w'" for w' f
    using that wc_lookup_cong [of "w'\<lparr>wc_fs := f\<rparr>" w'] by (auto simp: I_def wc_keys_ok_def)
  then have rm: "hoare I (wc_remove_file idx) (\<lambda>_. I) (\<lambda>_. True)"
    by (intro hoare_conseq [OF wc_remove_file_hoare [of I]]) auto
  have del: "hoare I (on_winner (bs_delete_chunk B idx)) (\<lambda>_. ?Q) (\<lambda>_. True)"
    unfolding hoare_def
  proof (intro allI impI)
    fix w' assume I: "I w'"
    have "?Q (w'\<lparr>wc_inner := s\<rparr>)" if "Rep (clear_chunk ?cs di idx) g s" for s
      using I that ov' rep m wc_lookup_cong [of "w'\<lparr>wc_inner := s\<rparr>" w']
      by (auto simp: I_def wc_rep_def wc_keys_ok_def zero_beyond_clear split: if_splits)
    then show "post (\<lambda>_. ?Q) (\<lambda>_. True) (on_winner (bs_delete_chunk B idx) w')"
      using I by (intro post_on_winner [OF delete [OF assms, of di g]]) (auto simp: I_def)
  qed
  show "post (\<lambda>_. ?Q) (\<lambda>_. True) (wc_delete_chunk B idx w)"
  proof (cases "m = WNone")
    case True
    then have "I w" using rep m b di by (auto simp: I_def wc_rep_def)
    with hoare_post [OF del] True m show ?thesis by (simp add: wc_delete_chunk_def)
  next
    case False
    have "I (remove_cached idx w)"
      using rep m b di by (simp add: I_def remove_cached_lookup remove_cached_keys wc_rep_def)
    with hoare_post [OF hoare_bind [OF rm del]] False m show ?thesis by (simp add: wc_delete_chunk_def)
  qed
qed

lemma wc_block_store: "block_store (wc_ops B) (wc_rep_at m None Rep adm) adm"
proof (unfold_locales, goal_cases)
  case (1 d g w)
  then show ?case using geom by (auto simp: wc_rep_at_def wc_rep_def)
next
  case (2 d g w)
  then show ?case using wf by (auto simp: wc_rep_at_def wc_rep_def)
next
  case (3 d g off n)
  show ?case using wc_read_hoare by simp
next
  case (4 g d off bs)
  then show ?case using wc_write_hoare by simp
next
  case (5 c d g)
  show ?case
    unfolding wc_ops_sel
    by (rule hoare_conseq [OF wc_set_capacity_hoare [OF 5, where m = m and direct = True]])
      (use wf in \<open>fastforce simp: wc_rep_at_def dest: drained_rep\<close>)+
next
  case (6 d g)
  show ?case
    unfolding wc_ops_sel
    by (rule hoare_conseq [OF wc_flush_hoare [where m = m and direct = True]])
      (use wf in \<open>fastforce simp: wc_rep_at_def dest: drained_rep\<close>)+
next
  case (7 d g)
  show ?case using wc_present_hoare by simp
next
  case (8 idx d g)
  show ?case
    unfolding wc_ops_sel
    by (rule hoare_conseq [OF wc_delete_hoare [OF 8, where m = m and direct = True]]) (auto simp: wc_rep_at_def)
qed

end

end
