(* ===== verification/FormatProps.thy ===== *)
theory FormatProps
  imports Bucket ChunkCache S3Refine
begin

text \<open>
  Properties of the stored formats and of the read cache: chunk frames, \<open>chunks.bin\<close>, object and chunk
  keys, the planned capacity, and the cache pool against a map without a budget.
\<close>

section \<open>Chunk frames\<close>

text \<open>
  C36: What \<open>encode_chunk\<close> writes for a chunk below 4 GiB, \<open>decode_chunk\<close> reads back, with every
  algorithm whose library inverts its own compression.
\<close>

theorem chunk_frame_roundtrip:
  assumes "codec_laws L" and "encode_chunk L algo x = Ok f" and "length x < 2 ^ 32"
  shows "decode_chunk L algo f (length x) = Ok x"
  using assms by (rule decode_encode_chunk)

theorem chunk_frame_roundtrip_witness:
  "codec_laws stored_codec \<and> encode_chunk stored_codec CZstd [1, 2, 3] = Ok (chunk_magic @ [2, 0, 0, 0, 0, 3, 1, 2, 3]) \<and>
   decode_chunk stored_codec CZstd (chunk_magic @ [2, 0, 0, 0, 0, 3, 1, 2, 3]) 3 = Ok [1, 2, 3]"
proof -
  have enc: "encode_chunk stored_codec CZstd [1, 2, 3] = Ok (chunk_magic @ [2, 0, 0, 0, 0, 3, 1, 2, 3])"
    by code_simp
  have "decode_chunk stored_codec CZstd (chunk_magic @ [2, 0, 0, 0, 0, 3, 1, 2, 3]) (length [1, 2, 3 :: byte]) = Ok [1, 2, 3]"
    by (rule chunk_frame_roundtrip [OF stored_codec_laws enc]) simp
  with enc stored_codec_laws show ?thesis by (simp add: numeral_3_eq_3)
qed

text \<open>
  C40: A compressed chunk of 4 GiB or more is written without an error and can never be read back: the
  frame keeps the length modulo \<open>2 ^ 32\<close>.
\<close>

theorem big_chunk_unreadable:
  assumes "algo \<noteq> CNone" and "encode_chunk L algo x = Ok f" and "2 ^ 32 \<le> length x"
  shows "\<exists>e. decode_chunk L algo f (length x) = Err e"
  using assms by (rule decode_encode_big)

theorem big_chunk_unreadable_witness:
  "CLz4 \<noteq> CNone \<and> (\<exists>f. encode_chunk stored_codec CLz4 (replicate (2 ^ 32) 0) = Ok f) \<and>
   2 ^ 32 \<le> length (replicate (2 ^ 32) (0 :: byte)) \<and>
   (\<exists>f e. encode_chunk stored_codec CLz4 (replicate (2 ^ 32) 0) = Ok f \<and>
      decode_chunk stored_codec CLz4 f (2 ^ 32) = Err e)"
proof -
  obtain f where f: "encode_chunk stored_codec CLz4 (replicate (2 ^ 32) 0) = Ok f"
    by (simp add: encode_chunk_def stored_codec_def)
  from big_chunk_unreadable [OF _ f] f show ?thesis by auto
qed

section \<open>The index of a snapshot\<close>

text \<open>C37: \<open>read_chunks_bin\<close> reads back every index that \<open>write_chunks_bin\<close> wrote, in order.\<close>

theorem chunks_bin_roundtrip:
  assumes "\<forall>r \<in> set refs. wf_ref r" and "vec_capacity_ok (length refs)"
  shows "read_chunks_bin (write_chunks_bin refs) = Ok refs"
  using assms by (rule read_write_chunks_bin)

theorem chunks_bin_roundtrip_witness:
  "wf_ref \<lparr>cr_index = 7, cr_hash = zeros 32\<rparr> \<and> vec_capacity_ok 1 \<and>
   read_chunks_bin (write_chunks_bin [\<lparr>cr_index = 7, cr_hash = zeros 32\<rparr>]) = Ok [\<lparr>cr_index = 7, cr_hash = zeros 32\<rparr>]"
  using chunks_bin_roundtrip [of "[\<lparr>cr_index = 7, cr_hash = zeros 32\<rparr>]"] by (simp add: wf_ref_def vec_capacity_ok_def)

text \<open>
  An index whose header declares more entries than a vector can hold makes the reader panic
  instead of failing: the count is trusted before a single entry has been read.
\<close>

theorem forged_count_panics:
  assumes "n < 2 ^ 64" and "2 ^ 63 \<le> n * 40"
  shows "read_chunks_bin (snap_magic @ be_bytes 4 snap_index_version @ be_bytes 8 n @ rest) = Panic"
proof -
  have "from_be_bytes (be_bytes 4 snap_index_version) = snap_index_version"
    by (rule from_be_bytes_be_bytes) (simp add: snap_index_version_def)
  moreover have "from_be_bytes (be_bytes 8 n) = n"
    using assms(1) by (intro from_be_bytes_be_bytes) simp
  moreover have "\<not> vec_capacity_ok n"
    using assms(2) by (simp add: vec_capacity_ok_def)
  ultimately show ?thesis
    by (simp add: read_chunks_bin_def read_exact_append)
qed

theorem forged_count_panics_witness:
  "read_chunks_bin (snap_magic @ be_bytes 4 snap_index_version @ be_bytes 8 (2 ^ 63) @ []) = Panic"
  by (rule forged_count_panics) simp_all

section \<open>Keys\<close>

text \<open>
  C38: Every name the store gives a chunk or an object parses back to its index or hash, so that a
  listing finds exactly the chunks and objects that were written; distinct hashes have distinct names.
\<close>

theorem names_roundtrip:
  assumes "i < 2 ^ 64" and "length h = hash_len" and "length h' = hash_len"
  shows "index_from_chunk_relpath (shard_chunk_index i) = Some i \<and>
    index_from_chunk_relpath (hex_fixed hex_digit 16 i) = Some i \<and>
    hash_from_object_relpath (object_relpath h) = Ok (Some h) \<and>
    (object_relpath h = object_relpath h' \<longleftrightarrow> h = h')"
  using assms by (simp add: index_from_shard index_from_flat hash_from_object_relpath_inverse object_relpath_inject)

theorem names_roundtrip_witness:
  "index_from_chunk_relpath (shard_chunk_index 1) = Some 1 \<and>
   index_from_chunk_relpath (hex_fixed hex_digit 16 1) = Some 1 \<and>
   hash_from_object_relpath (object_relpath (zeros 32)) = Ok (Some (zeros 32)) \<and>
   (object_relpath (zeros 32) = object_relpath (1 # zeros 31) \<longleftrightarrow> zeros 32 = 1 # zeros 31)"
  by (rule names_roundtrip) simp_all

section \<open>Capacity\<close>

text \<open>
  C39: Opening a volume never shrinks it and never reinterprets it: a plan succeeds only with the stored
  chunk size, block size, compression and layout, takes the configured capacity, which is at least the
  stored one, and writes metadata exactly if there is none or the capacity grows.
\<close>

theorem plan_capacity_never_shrinks:
  assumes "plan_capacity existing cap cs bs algo mode = Ok (c, w)"
  shows "c = cap \<and>
    (\<forall>m. existing = Some m \<longrightarrow> vm_capacity_bytes m \<le> cap \<and> vm_chunk_size m = cs \<and> vm_block_size m = bs \<and>
       vm_compression m = algo \<and> vm_storage m = mode) \<and>
    (w = None \<longleftrightarrow> (\<exists>m. existing = Some m \<and> vm_capacity_bytes m = cap)) \<and>
    (\<forall>m. w = Some m \<longrightarrow> vm_capacity_bytes m = cap \<and> vm_chunk_size m = cs \<and> vm_block_size m = bs \<and>
       vm_compression m = algo \<and> vm_storage m = mode)"
  using assms by (auto simp: plan_capacity_def split: option.splits if_splits)

theorem plan_capacity_never_shrinks_witness:
  "plan_capacity (Some \<lparr>vm_version = meta_version, vm_capacity_bytes = 4096, vm_chunk_size = 4096, vm_block_size = 512,
     vm_compression = CNone, vm_storage = Cow\<rparr>) 8192 4096 512 CNone Cow =
   Ok (8192, Some \<lparr>vm_version = meta_version, vm_capacity_bytes = 8192, vm_chunk_size = 4096, vm_block_size = 512,
     vm_compression = CNone, vm_storage = Cow\<rparr>) \<and> (4096 :: nat) \<le> 8192"
proof -
  let ?m = "\<lambda>n. \<lparr>vm_version = meta_version, vm_capacity_bytes = n, vm_chunk_size = 4096, vm_block_size = 512,
    vm_compression = CNone, vm_storage = Cow\<rparr>"
  have p: "plan_capacity (Some (?m 4096)) 8192 4096 512 CNone Cow = Ok (8192, Some (?m 8192))"
    by (simp add: plan_capacity_def)
  from plan_capacity_never_shrinks [OF p] p show ?thesis by simp
qed

section \<open>The read cache\<close>

text \<open>The operations of the pool as commands, and the map without a budget that they work on.\<close>

datatype cache_cmd =
    Get string nat
  | Put string nat bytes
  | Invalidate string nat
  | InvalidateVolume string
  | SetMax nat
  | Clear
  | Disable
  | Enable "nat option"

fun cache_step :: "cache_cmd \<Rightarrow> chunk_cache \<Rightarrow> chunk_cache" where
  "cache_step (Get v i) c = snd (cache_get v i c)"
| "cache_step (Put v i x) c = cache_put v i x c"
| "cache_step (Invalidate v i) c = cache_invalidate v i c"
| "cache_step (InvalidateVolume v) c = cache_invalidate_volume v c"
| "cache_step (SetMax n) c = cache_set_max_bytes n c"
| "cache_step Clear c = cache_clear c"
| "cache_step Disable c = cache_disable c"
| "cache_step (Enable b) c = cache_enable b c"

fun spec_step :: "cache_cmd \<Rightarrow> (cache_key \<rightharpoonup> bytes) \<Rightarrow> cache_key \<rightharpoonup> bytes" where
  "spec_step (Put v i x) m = m((v, i) \<mapsto> x)"
| "spec_step (Invalidate v i) m = m((v, i) := None)"
| "spec_step (InvalidateVolume v) m = (\<lambda>k. if fst k = v then None else m k)"
| "spec_step Clear m = Map.empty"
| "spec_step cmd m = m"

lemma cache_step_inv: "cache_inv c \<Longrightarrow> cache_inv (cache_step cmd c)"
  by (cases cmd) (simp_all add: cache_op_inv)

lemma set_max_lookup:
  assumes "cache_inv c" and "cache_lookup (cache_set_max_bytes n c) k = Some x"
  shows "cache_lookup c k = Some x"
proof -
  obtain es used where ev: "evict_until 0 n (cc_entries c, cc_used_bytes c) = (es, used)" by fastforce
  have "kept (cc_tick c) 0 n (cc_entries c) (es, used)"
    using evict_until_kept [of "cc_tick c" "cc_entries c" "cc_used_bytes c" 0 n] assms(1) ev by (simp add: cache_inv_def)
  then have "map_of es k = Some e \<Longrightarrow> map_of (cc_entries c) k = Some e" for e
    using kept_lookup [of "cc_tick c" 0 n "cc_entries c" es used k e] assms(1) by (simp add: cache_inv_def)
  then show ?thesis
    using assms(2) ev by (auto simp: cache_set_max_bytes_def Let_def cache_lookup_def split: if_splits)
qed

lemma cache_step_spec:
  assumes "cache_inv c" and "cache_lookup c \<subseteq>\<^sub>m m"
  shows "cache_lookup (cache_step cmd c) \<subseteq>\<^sub>m spec_step cmd m"
proof -
  have le: "cache_lookup c k = Some x \<Longrightarrow> m k = Some x" for k x
    using assms(2) unfolding map_le_def by (metis domI)
  show ?thesis
    unfolding map_le_def
  proof (intro ballI)
    fix k assume "k \<in> dom (cache_lookup (cache_step cmd c))"
    then obtain x where x: "cache_lookup (cache_step cmd c) k = Some x" by auto
    have "spec_step cmd m k = Some x"
    proof (cases cmd)
      case (Put v i y)
      show ?thesis
        using x cache_put_same [OF assms(1), of v i y] cache_put_other [OF assms(1), of k v i y x] le Put
        by (cases "k = (v, i)") (auto split: if_splits)
    next
      case (SetMax n)
      then show ?thesis using x set_max_lookup [OF assms(1)] le by simp
    next
      case Disable
      then show ?thesis using x set_max_lookup [OF assms(1)] le by (simp add: cache_disable_def)
    next
      case (Enable b)
      obtain n where "cache_step cmd c = cache_set_max_bytes n (cache_clear c)"
        by (simp add: Enable cache_enable_def Let_def)
      with set_max_lookup [OF cache_clear_inv [OF assms(1)], of n k x] x show ?thesis by simp
    qed (use x le in \<open>auto simp: cache_invalidate_lookup cache_invalidate_volume_lookup split: if_splits\<close>)
    with x show "cache_lookup (cache_step cmd c) k = spec_step cmd m k" by simp
  qed
qed

lemma cache_run:
  "cache_inv c \<Longrightarrow> cache_lookup c \<subseteq>\<^sub>m m \<Longrightarrow>
     cache_inv (fold cache_step cmds c) \<and> cache_lookup (fold cache_step cmds c) \<subseteq>\<^sub>m fold spec_step cmds m"
proof (induction cmds arbitrary: c m)
  case (Cons cmd cmds)
  from Cons.IH [OF cache_step_inv [OF Cons.prems(1)] cache_step_spec [OF Cons.prems]] show ?case by simp
qed simp

text \<open>
  C34: In every run of operations on a new cache pool the bytes counted are the bytes held, they never
  exceed the budget, and a lookup returns the value last put for that chunk or nothing; it never
  returns a value that was replaced or invalidated since.
\<close>

theorem cache_refines_map:
  "cc_used_bytes (fold cache_step cmds (cache_new n)) = table_bytes (cc_entries (fold cache_step cmds (cache_new n))) \<and>
   cc_used_bytes (fold cache_step cmds (cache_new n)) \<le> cc_max_bytes (fold cache_step cmds (cache_new n)) \<and>
   cache_lookup (fold cache_step cmds (cache_new n)) \<subseteq>\<^sub>m fold spec_step cmds Map.empty"
proof -
  have "cache_lookup (cache_new n) \<subseteq>\<^sub>m Map.empty"
    by (simp add: map_le_def dom_def cache_lookup_def cache_new_def Let_def)
  from cache_run [OF cache_new_inv this, of cmds] show ?thesis
    by (simp add: cache_inv_def)
qed

lemma cache_put_max: "cc_max_bytes (cache_put v i x c) = cc_max_bytes c"
  by (simp add: cache_put_def cache_remove_def Let_def split: prod.split option.split)

text \<open>
  C35: A chunk that fits the budget is in the cache right after it was put, whatever had to be evicted
  for it; what was evicted had been used less recently than everything that stayed.
\<close>

theorem cache_put_present:
  assumes "cache_inv c" and "length x \<le> cc_max_bytes c"
  shows "fst (cache_get v i (cache_put v i x c)) = Some x \<and>
    (\<forall>k e. (k, e) \<in> set (cc_entries c) \<longrightarrow> k \<noteq> (v, i) \<longrightarrow> cache_lookup (cache_put v i x c) k = None \<longrightarrow>
       (\<forall>k' e'. (k', e') \<in> set (cc_entries (cache_put v i x c)) \<longrightarrow> k' \<noteq> (v, i) \<longrightarrow> ce_tick e < ce_tick e'))"
proof -
  obtain es used where r: "put_room c (v, i) (length x) = (es, used)" by fastforce
  have k: "kept (cc_tick c) (length x) (cc_max_bytes c) (AList.delete (v, i) (cc_entries c)) (es, used)"
    using put_room_kept [OF assms(1), of "length x" "(v, i)"] r by simp
  have eq: "cc_entries (cache_put v i x c) = AList.update (v, i) \<lparr>ce_data = x, ce_tick = Suc (cc_tick c)\<rparr> es"
    using cache_put_eq [OF assms(1) r] assms(2) by simp
  have "ce_tick e < ce_tick e'"
    if "(k1, e) \<in> set (cc_entries c)" "k1 \<noteq> (v, i)" "cache_lookup (cache_put v i x c) k1 = None"
      "(k2, e') \<in> set (cc_entries (cache_put v i x c))" "k2 \<noteq> (v, i)" for k1 e k2 e'
  proof -
    have "(k2, e') \<in> set es"
      using that(4,5) set_update_subset [of "(v, i)" _ es] unfolding eq by auto
    moreover have "k1 \<notin> fst ` set es"
      using that(2,3) by (auto simp: cache_lookup_def eq update_conv' map_of_eq_None_iff)
    then have "(k1, e) \<notin> set es" by (metis fst_conv image_eqI)
    then have "(k1, e) \<in> set (AList.delete (v, i) (cc_entries c)) - set es"
      using that(1,2) by (simp add: set_delete)
    ultimately have "ce_tick (snd (k1, e)) < ce_tick (snd (k2, e'))"
      using k unfolding kept_def prod.case by blast
    then show ?thesis by simp
  qed
  moreover have "fst (cache_get v i (cache_put v i x c)) = Some x"
    using cache_put_same [OF assms(1), of v i x] assms(2) by (simp add: cache_get_fst)
  ultimately show ?thesis by blast
qed

theorem cache_put_present_witness:
  "cache_inv (cache_put ''a'' 0 [1, 2] (cache_new 3)) \<and> length [3 :: byte, 4] \<le> cc_max_bytes (cache_put ''a'' 0 [1, 2] (cache_new 3)) \<and>
   fst (cache_get ''a'' 1 (cache_put ''a'' 1 [3, 4] (cache_put ''a'' 0 [1, 2] (cache_new 3)))) = Some [3, 4]"
proof -
  have inv: "cache_inv (cache_put ''a'' 0 [1, 2] (cache_new 3))" by (simp add: cache_op_inv)
  have len: "length [3 :: byte, 4] \<le> cc_max_bytes (cache_put ''a'' 0 [1, 2] (cache_new 3))"
    by (simp add: cache_put_max cache_new_def Let_def)
  show ?thesis
    by (intro conjI inv len conjunct1 [OF cache_put_present [OF inv len, of "''a''" 1]])
qed

end
