(* ===== verification/Config.thy ===== *)
theory Config
  imports WriteCache Compression Snapshot S3Service
begin

text \<open>
  \<open>src/config.rs\<close>: the configuration, its validation, and the authentication of a volume. Figment
  merges the layers and decodes them; it is the parameter \<open>extract\<close>, as is the parser of the bytesize
  crate. Strings are UTF-8 byte sequences.
\<close>

section \<open>Text\<close>

text \<open>\<open>str::trim\<close>: the encodings of the characters with the property White\_Space.\<close>

definition ws_chars :: "string list" where
  "ws_chars =
     map (\<lambda>n. [char_of n]) [9, 10, 11, 12, 13, 32 :: nat] @
     map (map char_of) ([[194, 133], [194, 160], [225, 154, 128], [226, 128, 168], [226, 128, 169], [226, 128, 175],
       [226, 129, 159], [227, 128, 128]] @ map (\<lambda>n. [226, 128, n]) [128..<139 :: nat])"

definition strip_one :: "string list \<Rightarrow> string \<Rightarrow> string option" where
  "strip_one ws s = (case find (\<lambda>w. is_prefix w s) ws of None \<Rightarrow> None | Some w \<Rightarrow> Some (drop (length w) s))"

fun trim_fuel :: "nat \<Rightarrow> string list \<Rightarrow> string \<Rightarrow> string" where
  "trim_fuel 0 ws s = s"
| "trim_fuel (Suc n) ws s = (case strip_one ws s of None \<Rightarrow> s | Some s' \<Rightarrow> trim_fuel n ws s')"

definition str_trim :: "string \<Rightarrow> string" where
  "str_trim s =
     (let t = trim_fuel (length s) ws_chars s in rev (trim_fuel (length t) (map rev ws_chars) (rev t)))"

text \<open>
  Paths compare by components: repeated and trailing separators and inner \<open>.\<close> do not count.
\<close>

fun split_on :: "char \<Rightarrow> string \<Rightarrow> string \<Rightarrow> string list" where
  "split_on sep acc [] = [rev acc]"
| "split_on sep acc (c # cs) = (if c = sep then rev acc # split_on sep [] cs else split_on sep (c # acc) cs)"

definition path_components :: "string \<Rightarrow> bool \<times> bool \<times> string list" where
  "path_components p =
     (let absolute = is_prefix ''/'' p; parts = split_on CHR ''/'' [] p
      in (absolute, \<not> absolute \<and> hd parts = ''.'', filter (\<lambda>c. c \<noteq> [] \<and> c \<noteq> ''.'') parts))"

section \<open>Defaults and records\<close>

definition default_bind :: string where "default_bind = ''0.0.0.0:3260''"
definition default_block_size :: nat where "default_block_size = 512"
definition default_chunk_size :: nat where "default_chunk_size = 4 * 1024 * 1024"
definition default_cache_max_bytes :: nat where "default_cache_max_bytes = 256 * 1024 * 1024"
definition default_region :: string where "default_region = ''us-east-1''"
definition default_metrics_bind :: string where "default_metrics_bind = ''0.0.0.0:9090''"
definition default_admin_socket :: string where "default_admin_socket = ''/tmp/iscsi-s3/admin.sock''"

datatype config_error = Figment string | Invalid string

record s3_config =
  sc_bucket :: "string option"
  sc_region :: string
  sc_endpoint :: "string option"
  sc_force_path_style :: bool
  sc_access_key_id :: "string option"
  sc_secret_access_key :: "string option"

record metrics_config =
  mc_enabled :: bool
  mc_bind :: string

record admin_config =
  ac_enabled :: bool
  ac_socket :: string

record auth_settings =
  au_username :: "string option"
  au_secret :: "string option"
  au_mutual_username :: "string option"
  au_mutual_secret :: "string option"
  au_allowed_initiators :: "string list option"

record volume_config =
  vc_name :: string
  vc_iqn :: string
  vc_prefix :: string
  vc_capacity :: nat
  vc_block_size :: nat
  vc_chunk_size :: nat
  vc_compression :: compression
  vc_storage :: storage_mode
  vc_auth :: "auth_settings option"
  vc_write_cache :: write_cache_config
  vc_write_buffer_max :: nat

record config =
  cf_bind :: string
  cf_advertise :: "string option"
  cf_portals :: "string list"
  cf_instance :: "string option"
  cf_auth :: "auth_settings option"
  cf_s3 :: s3_config
  cf_cache_max :: nat
  cf_metrics :: metrics_config
  cf_admin :: admin_config
  cf_performance_optimiser :: bool
  cf_volumes :: "volume_config list"

definition config_defaults :: config where
  "config_defaults =
     \<lparr>cf_bind = default_bind, cf_advertise = None, cf_portals = [], cf_instance = None, cf_auth = None,
      cf_s3 = \<lparr>sc_bucket = None, sc_region = default_region, sc_endpoint = None, sc_force_path_style = False,
               sc_access_key_id = None, sc_secret_access_key = None\<rparr>,
      cf_cache_max = default_cache_max_bytes, cf_metrics = \<lparr>mc_enabled = True, mc_bind = default_metrics_bind\<rparr>,
      cf_admin = \<lparr>ac_enabled = True, ac_socket = default_admin_socket\<rparr>, cf_performance_optimiser = False,
      cf_volumes = []\<rparr>"

definition write_cache_as_str :: "write_cache_mode \<Rightarrow> string" where
  "write_cache_as_str m = (case m of WNone \<Rightarrow> ''none'' | WMemory \<Rightarrow> ''memory'' | WDisk \<Rightarrow> ''disk'')"

section \<open>Authentication\<close>

datatype chap_credentials = ChapCredentials string string
datatype auth_config = AuthNone | AuthChap chap_credentials | AuthMutual chap_credentials chap_credentials
datatype auth_mode = ModeNone | ModeChap | ModeMutualChap

definition auth_as_str :: "auth_mode \<Rightarrow> string" where
  "auth_as_str m = (case m of ModeNone \<Rightarrow> ''none'' | ModeChap \<Rightarrow> ''chap'' | ModeMutualChap \<Rightarrow> ''mutual-chap'')"

record resolved_auth =
  ra_config :: auth_config
  ra_allowed_initiators :: "string list option"
  ra_mode :: auth_mode
  ra_username :: "string option"

definition non_empty :: "string option \<Rightarrow> string option" where
  "non_empty opt =
     (case opt of None \<Rightarrow> None | Some s \<Rightarrow> (let t = str_trim s in if t = [] then None else Some t))"

definition or_else :: "'a option \<Rightarrow> 'a option \<Rightarrow> 'a option" where
  "or_else v g = (case v of Some x \<Rightarrow> Some x | None \<Rightarrow> g)"

definition merge_auth_settings :: "auth_settings option \<Rightarrow> auth_settings option \<Rightarrow> auth_settings option" where
  "merge_auth_settings global volume =
     (case (global, volume) of
        (None, None) \<Rightarrow> None
      | (Some g, None) \<Rightarrow> Some g
      | (None, Some v) \<Rightarrow> Some v
      | (Some g, Some v) \<Rightarrow>
          Some \<lparr>au_username = or_else (au_username v) (au_username g),
                au_secret = or_else (au_secret v) (au_secret g),
                au_mutual_username = or_else (au_mutual_username v) (au_mutual_username g),
                au_mutual_secret = or_else (au_mutual_secret v) (au_mutual_secret g),
                au_allowed_initiators = or_else (au_allowed_initiators v) (au_allowed_initiators g)\<rparr>)"

definition resolve_auth :: "auth_settings option \<Rightarrow> auth_settings option \<Rightarrow> config_error + resolved_auth" where
  "resolve_auth global volume =
     (case merge_auth_settings global volume of
        None \<Rightarrow> Inr \<lparr>ra_config = AuthNone, ra_allowed_initiators = None, ra_mode = ModeNone, ra_username = None\<rparr>
      | Some st \<Rightarrow>
          (let mutual_user = non_empty (au_mutual_username st); mutual_secret = non_empty (au_mutual_secret st);
               acl = au_allowed_initiators st
           in case (non_empty (au_username st), non_empty (au_secret st)) of
                (None, None) \<Rightarrow>
                  if mutual_user \<noteq> None \<or> mutual_secret \<noteq> None then
                    Inl (Invalid ''auth: mutual_username/mutual_secret require username and secret'')
                  else Inr \<lparr>ra_config = AuthNone, ra_allowed_initiators = acl, ra_mode = ModeNone, ra_username = None\<rparr>
              | (Some username, Some secret) \<Rightarrow>
                  (case (mutual_user, mutual_secret) of
                     (None, None) \<Rightarrow>
                       Inr \<lparr>ra_config = AuthChap (ChapCredentials username secret), ra_allowed_initiators = acl,
                            ra_mode = ModeChap, ra_username = Some username\<rparr>
                   | (Some mu, Some ms) \<Rightarrow>
                       Inr \<lparr>ra_config = AuthMutual (ChapCredentials username secret) (ChapCredentials mu ms),
                            ra_allowed_initiators = acl, ra_mode = ModeMutualChap, ra_username = Some username\<rparr>
                   | _ \<Rightarrow> Inl (Invalid ''auth: mutual_username and mutual_secret must both be set for mutual CHAP''))
              | _ \<Rightarrow> Inl (Invalid ''auth: username and secret must both be set for CHAP'')))"

section \<open>Validation\<close>

text \<open>\<open>u32::is_power_of_two\<close>.\<close>

definition is_power_of_two32 :: "nat \<Rightarrow> bool" where
  "is_power_of_two32 n \<longleftrightarrow> n \<in> set (map (\<lambda>k. 2 ^ k) [0..<32])"

text \<open>The checks of one volume that do not depend on the others.\<close>

definition check_volume :: "auth_settings option \<Rightarrow> volume_config \<Rightarrow> config_error option" where
  "check_volume auth vol =
     (let in_vol = (\<lambda>msg. Invalid (''volume '' @ vc_name vol @ '': '' @ msg)); wc = vc_write_cache vol in
      if vc_block_size vol = 0 \<or> \<not> is_power_of_two32 (vc_block_size vol) then
        Some (in_vol ''block_size must be a non-zero power of two'')
      else if vc_chunk_size vol = 0 \<or> vc_chunk_size vol mod vc_block_size vol \<noteq> 0 then
        Some (in_vol ''chunk_size must be a non-zero multiple of block_size'')
      else if vc_capacity vol = 0 \<or> vc_capacity vol mod vc_block_size vol \<noteq> 0 then
        Some (in_vol ''capacity must be a non-zero multiple of block_size'')
      else case resolve_auth auth (vc_auth vol) of
        Inl (Invalid msg) \<Rightarrow> Some (in_vol msg)
      | Inl e \<Rightarrow> Some e
      | Inr _ \<Rightarrow>
          if wcc_mode wc \<in> {WMemory, WDisk} \<and> wcc_max_bytes wc > 0 \<and> wcc_max_bytes wc < vc_chunk_size vol then
            Some (in_vol (''write_cache.max_bytes ('' @ dec (wcc_max_bytes wc) @
              '') must be 0 (unlimited) or at least chunk_size ('' @ dec (vc_chunk_size vol) @ '')''))
          else if vc_write_buffer_max vol > 0 \<and> vc_write_buffer_max vol < vc_chunk_size vol then
            Some (in_vol (''write_buffer.max_bytes ('' @ dec (vc_write_buffer_max vol) @
              '') must be 0 (disabled) or at least chunk_size ('' @ dec (vc_chunk_size vol) @ '')''))
          else if vc_write_buffer_max vol > 0 \<and> wcc_mode wc = WNone then
            Some (in_vol ''write_buffer requires write_cache.mode of memory or disk'')
          else None)"

text \<open>
  The loop of \<open>validate\<close> over the volumes, with the names, IQNs, prefixes and cache directories seen.
\<close>

fun check_volumes ::
  "auth_settings option \<Rightarrow> string list \<Rightarrow> string list \<Rightarrow> string list \<Rightarrow> string list \<Rightarrow> volume_config list \<Rightarrow> config_error + unit" where
  "check_volumes auth names iqns prefixes paths [] = Inr ()"
| "check_volumes auth names iqns prefixes paths (vol # vols) =
     (if vc_name vol = [] then Inl (Invalid ''volume name must not be empty'')
      else if vc_name vol \<in> set names then Inl (Invalid (''duplicate volume name '' @ debug_str (vc_name vol)))
      else if vc_iqn vol \<in> set iqns then Inl (Invalid (''duplicate volume iqn '' @ debug_str (vc_iqn vol)))
      else if vc_prefix vol \<in> set prefixes then Inl (Invalid (''duplicate volume prefix '' @ debug_str (vc_prefix vol)))
      else case check_volume auth vol of
        Some e \<Rightarrow> Inl e
      | None \<Rightarrow>
          (let next_vols = (\<lambda>ps. check_volumes auth (vc_name vol # names) (vc_iqn vol # iqns) (vc_prefix vol # prefixes) ps vols)
           in if wcc_mode (vc_write_cache vol) = WDisk then
                (case wcc_path (vc_write_cache vol) of
                   Some p \<Rightarrow>
                     if p = [] then Inl (Invalid (''volume '' @ vc_name vol @ '': write_cache.mode=disk requires write_cache.path''))
                     else if path_components p \<in> path_components ` set paths then
                       Inl (Invalid (''volume '' @ vc_name vol @ '': write_cache.path '' @ debug_str p @ '' is used by another volume''))
                     else next_vols (p # paths)
                 | None \<Rightarrow> Inl (Invalid (''volume '' @ vc_name vol @ '': write_cache.mode=disk requires write_cache.path'')))
              else next_vols paths))"

definition validate :: "config \<Rightarrow> config_error + unit" where
  "validate cfg =
     (if cf_volumes cfg = [] then
        Inl (Invalid ''at least one [[volumes]] entry is required (define them in the config file)'')
      else if (case sc_bucket (cf_s3 cfg) of None \<Rightarrow> True | Some b \<Rightarrow> b = []) then
        Inl (Invalid ''s3.bucket is required (config file, ISCSI_S3_S3__BUCKET, or --bucket)'')
      else check_volumes (cf_auth cfg) [] [] [] [] (cf_volumes cfg))"

section \<open>Loading\<close>

record cli =
  cl_config :: "string option"
  cl_bind :: "string option"
  cl_advertise :: "string option"
  cl_bucket :: "string option"
  cl_endpoint :: "string option"
  cl_region :: "string option"
  cl_force_path_style :: "bool option"
  cl_metrics_bind :: "string option"
  cl_no_metrics :: bool
  cl_performance_optimiser :: "bool option"

record cli_s3_overrides =
  os_bucket :: "string option"
  os_endpoint :: "string option"
  os_region :: "string option"
  os_force_path_style :: "bool option"

record cli_metrics_overrides =
  om_enabled :: "bool option"
  om_bind :: "string option"

record cli_overrides =
  ov_bind :: "string option"
  ov_advertise :: "string option"
  ov_s3 :: "cli_s3_overrides option"
  ov_metrics :: "cli_metrics_overrides option"
  ov_performance_optimiser :: "bool option"

text \<open>The layers handed to Figment, lowest precedence first.\<close>

datatype config_layer = Defaults config | TomlFile string | EnvPrefixed string string | Overrides cli_overrides

definition overrides_of :: "cli \<Rightarrow> cli_overrides" where
  "overrides_of c =
     \<lparr>ov_bind = cl_bind c, ov_advertise = cl_advertise c,
      ov_s3 = Some \<lparr>os_bucket = cl_bucket c, os_endpoint = cl_endpoint c, os_region = cl_region c,
        os_force_path_style = cl_force_path_style c\<rparr>,
      ov_metrics = Some \<lparr>om_enabled = (if cl_no_metrics c then Some False else None), om_bind = cl_metrics_bind c\<rparr>,
      ov_performance_optimiser = cl_performance_optimiser c\<rparr>"

definition extract_valid :: "(config_layer list \<Rightarrow> string + config) \<Rightarrow> config_layer list \<Rightarrow> config_error + config" where
  "extract_valid extract layers =
     (case extract layers of
        Inl e \<Rightarrow> Inl (Figment e)
      | Inr cfg \<Rightarrow> (case validate cfg of Inl e \<Rightarrow> Inl e | Inr _ \<Rightarrow> Inr cfg))"

definition load_config :: "(config_layer list \<Rightarrow> string + config) \<Rightarrow> cli \<Rightarrow> config_error + config" where
  "load_config extract c =
     extract_valid extract
       ([Defaults config_defaults] @ (case cl_config c of None \<Rightarrow> [] | Some path \<Rightarrow> [TomlFile path]) @
        [EnvPrefixed ''ISCSI_S3_'' ''__'', Overrides (overrides_of c)])"

definition load_for_reload :: "(config_layer list \<Rightarrow> string + config) \<Rightarrow> string \<Rightarrow> config_error + config" where
  "load_for_reload extract path =
     extract_valid extract [Defaults config_defaults, TomlFile path, EnvPrefixed ''ISCSI_S3_'' ''__'']"

definition parse_byte_size :: "(string \<Rightarrow> string + nat) \<Rightarrow> string \<Rightarrow> string + nat" where
  "parse_byte_size bytesize s =
     (let t = str_trim s in
      case parse_unsigned (2 ^ 64) t of
        Some n \<Rightarrow> Inr n
      | None \<Rightarrow> (case bytesize t of Inr n \<Rightarrow> Inr n | Inl e \<Rightarrow> Inl (''invalid size '' @ debug_str t @ '': '' @ e)))"

section \<open>What validation guarantees\<close>

definition volume_ok :: "auth_settings option \<Rightarrow> volume_config \<Rightarrow> bool" where
  "volume_ok auth v \<longleftrightarrow>
     vc_name v \<noteq> [] \<and> is_power_of_two32 (vc_block_size v) \<and> 0 < vc_chunk_size v \<and> vc_block_size v dvd vc_chunk_size v \<and>
     0 < vc_capacity v \<and> vc_block_size v dvd vc_capacity v \<and> \<not> isl (resolve_auth auth (vc_auth v)) \<and>
     (wcc_mode (vc_write_cache v) = WNone \<or> wcc_max_bytes (vc_write_cache v) = 0 \<or> vc_chunk_size v \<le> wcc_max_bytes (vc_write_cache v)) \<and>
     (vc_write_buffer_max v = 0 \<or> vc_chunk_size v \<le> vc_write_buffer_max v \<and> wcc_mode (vc_write_cache v) \<noteq> WNone) \<and>
     (wcc_mode (vc_write_cache v) = WDisk \<longrightarrow> wcc_path (vc_write_cache v) \<notin> {None, Some []})"

definition disk_path :: "volume_config \<Rightarrow> string option" where
  "disk_path v = (if wcc_mode (vc_write_cache v) = WDisk then wcc_path (vc_write_cache v) else None)"

definition cache_dirs :: "volume_config list \<Rightarrow> (bool \<times> bool \<times> string list) list" where
  "cache_dirs vs = map path_components (List.map_filter disk_path vs)"

lemma power_of_two32_pos: "is_power_of_two32 n \<Longrightarrow> 0 < n"
  by (auto simp: is_power_of_two32_def)

lemma check_volume_None:
  "vc_name v \<noteq> [] \<Longrightarrow> wcc_mode (vc_write_cache v) = WDisk \<longrightarrow> wcc_path (vc_write_cache v) \<notin> {None, Some []} \<Longrightarrow>
     check_volume auth v = None \<longleftrightarrow> volume_ok auth v"
  using power_of_two32_pos [of "vc_block_size v"]
  by (cases "resolve_auth auth (vc_auth v)"; cases "wcc_mode (vc_write_cache v)")
    (auto simp: check_volume_def volume_ok_def Let_def mod_eq_0_iff_dvd not_less split: config_error.split)

lemma volume_ok_check: "volume_ok auth v \<Longrightarrow> check_volume auth v = None"
  using check_volume_None by (auto simp: volume_ok_def)

lemma check_volumes_iff:
  "check_volumes auth names iqns prefixes paths vs = Inr () \<longleftrightarrow>
     list_all (volume_ok auth) vs \<and>
     distinct (map vc_name vs) \<and> set (map vc_name vs) \<inter> set names = {} \<and>
     distinct (map vc_iqn vs) \<and> set (map vc_iqn vs) \<inter> set iqns = {} \<and>
     distinct (map vc_prefix vs) \<and> set (map vc_prefix vs) \<inter> set prefixes = {} \<and>
     distinct (cache_dirs vs) \<and> set (cache_dirs vs) \<inter> path_components ` set paths = {}"
proof (induction vs arbitrary: names iqns prefixes paths)
  case Nil
  show ?case by (simp add: cache_dirs_def List.map_filter_simps)
next
  case (Cons v vs)
  show ?case
  proof (cases "volume_ok auth v")
    case True
    then show ?thesis
      using Cons.IH volume_ok_check [OF True]
      by (auto simp: Let_def cache_dirs_def List.map_filter_simps disk_path_def volume_ok_def split: option.split)
  next
    case False
    have "check_volumes auth names iqns prefixes paths (v # vs) \<noteq> Inr ()"
    proof
      assume "check_volumes auth names iqns prefixes paths (v # vs) = Inr ()"
      then have "vc_name v \<noteq> []" "check_volume auth v = None"
        "wcc_mode (vc_write_cache v) = WDisk \<longrightarrow> wcc_path (vc_write_cache v) \<notin> {None, Some []}"
        by (auto simp: Let_def split: if_splits option.splits)
      with check_volume_None False show False by blast
    qed
    with False show ?thesis by simp
  qed
qed

text \<open>
  C31: The configuration check accepts exactly the configurations with a bucket and at least one volume
  whose names, IQNs, prefixes and cache directories are distinct and whose volumes are each well-formed:
  power-of-two blocks, chunks and capacity in whole blocks, complete credentials, budgets of the write
  cache and buffer of at least one chunk.
\<close>

theorem validate_iff:
  "validate cfg = Inr () \<longleftrightarrow>
     cf_volumes cfg \<noteq> [] \<and> sc_bucket (cf_s3 cfg) \<notin> {None, Some []} \<and> list_all (volume_ok (cf_auth cfg)) (cf_volumes cfg) \<and>
     distinct (map vc_name (cf_volumes cfg)) \<and> distinct (map vc_iqn (cf_volumes cfg)) \<and>
     distinct (map vc_prefix (cf_volumes cfg)) \<and> distinct (cache_dirs (cf_volumes cfg))"
  by (auto simp: validate_def check_volumes_iff split: option.splits)

text \<open>
  C32: Authentication fails closed: if a volume's effective settings hold a user name or a secret, the
  volume is either refused or served with CHAP under exactly that name and secret; it is never served
  without authentication. A volume's own setting wins over the global one.
\<close>

theorem auth_fails_closed:
  assumes "merge_auth_settings g v = Some st" and "non_empty (au_username st) \<noteq> None \<or> non_empty (au_secret st) \<noteq> None"
    and "resolve_auth g v = Inr r"
  shows "\<exists>u s. non_empty (au_username st) = Some u \<and> non_empty (au_secret st) = Some s \<and>
    (ra_config r = AuthChap (ChapCredentials u s) \<or> (\<exists>i. ra_config r = AuthMutual (ChapCredentials u s) i)) \<and>
    ra_mode r \<noteq> ModeNone \<and> ra_username r = Some u \<and>
    (\<forall>w x. v = Some w \<longrightarrow> au_username w = Some x \<longrightarrow> au_username st = Some x)"
  using assms
  by (auto simp: resolve_auth_def Let_def merge_auth_settings_def or_else_def split: option.splits if_splits)

theorem auth_fails_closed_witness:
  "resolve_auth (Some \<lparr>au_username = Some ''bob'', au_secret = Some ''s3cret'', au_mutual_username = None,
      au_mutual_secret = None, au_allowed_initiators = None\<rparr>) None =
     Inr \<lparr>ra_config = AuthChap (ChapCredentials ''bob'' ''s3cret''), ra_allowed_initiators = None, ra_mode = ModeChap,
       ra_username = Some ''bob''\<rparr> \<and> ModeChap \<noteq> ModeNone"
proof -
  let ?st = "\<lparr>au_username = Some ''bob'', au_secret = Some ''s3cret'', au_mutual_username = None,
      au_mutual_secret = None, au_allowed_initiators = None\<rparr>"
  let ?r = "\<lparr>ra_config = AuthChap (ChapCredentials ''bob'' ''s3cret''), ra_allowed_initiators = None, ra_mode = ModeChap,
       ra_username = Some ''bob''\<rparr>"
  have r: "resolve_auth (Some ?st) None = Inr ?r" by code_simp
  have "merge_auth_settings (Some ?st) None = Some ?st" "non_empty (au_username ?st) \<noteq> None \<or> non_empty (au_secret ?st) \<noteq> None"
    by code_simp+
  from auth_fails_closed [OF this r] r show ?thesis by auto
qed

section \<open>Prefixes that differ only in slashes\<close>

definition plain_volume :: "string \<Rightarrow> string \<Rightarrow> volume_config" where
  "plain_volume name prefix =
     \<lparr>vc_name = name, vc_iqn = ''iqn.2024-01.x:'' @ name, vc_prefix = prefix, vc_capacity = 8192, vc_block_size = 512,
      vc_chunk_size = 4096, vc_compression = CNone, vc_storage = Legacy, vc_auth = None,
      vc_write_cache = \<lparr>wcc_mode = WNone, wcc_max_bytes = 0, wcc_path = None\<rparr>, vc_write_buffer_max = 0\<rparr>"

definition alias_config :: config where
  "alias_config = config_defaults\<lparr>cf_s3 := (cf_s3 config_defaults)\<lparr>sc_bucket := Some ''b''\<rparr>,
     cf_volumes := [plain_volume ''a'' ''v'', plain_volume ''c'' ''v/'']\<rparr>"


end
