(* ===== verification/Volume.thy ===== *)
theory Volume
  imports Instances WriteCacheRefine Device Config S3Snapshot
begin

text \<open>
  \<open>src/volume.rs\<close> and the I/O lock of \<open>src/write_cache.rs\<close>: a volume is the write cache over the read
  cache over the S3 store, \<open>vol_ops\<close> its block-store operations. Without a write buffer the stack
  keeps the block-store contract of the S3 store, and what a flush acknowledges is in the bucket.
\<close>

section \<open>Opening a volume\<close>

type_synonym 's volume_store = "'s s3_store cached_store wcore"

record 's opened_volume =
  op_name :: string
  op_iqn :: string
  op_labels :: volume_labels
  op_store :: "'s volume_store"

definition s3_conf_of :: "volume_config \<Rightarrow> s3_conf" where
  "s3_conf_of vol =
     \<lparr>s3_prefix = vc_prefix vol, s3_block_size = vc_block_size vol, s3_chunk_size = vc_chunk_size vol,
      s3_compression = vc_compression vol, s3_storage = vc_storage vol, s3_capacity = vc_capacity vol,
      s3_volume = vc_name vol\<rparr>"

text \<open>\<open>None\<close>: the eviction at the start is still waiting for the write buffer after \<open>fuel\<close> rounds.\<close>

definition open_volume ::
  "stamp_codec \<Rightarrow> ('s, 'm) s3_env_scheme \<Rightarrow> nat \<Rightarrow> nat \<Rightarrow> chunk_cache \<Rightarrow> config \<Rightarrow> volume_config \<Rightarrow> fsys \<Rightarrow> metrics \<Rightarrow> 's \<Rightarrow>
    ('s opened_volume result \<times> metrics) option" where
  "open_volume J E fuel now pool cfg vol f m v =
     (case sc_bucket (cf_s3 cfg) of
        None \<Rightarrow> Some (Err (Other ''s3.bucket required''), m)
      | Some _ \<Rightarrow>
          (let labels = \<lparr>vl_volume = vc_name vol, vl_iqn = vc_iqn vol\<rparr> in
           case s3_open E (s3_conf_of vol) v of
             (Err e, _) \<Rightarrow> Some (Err e, m)
           | (Panic, _) \<Rightarrow> Some (Panic, m)
           | (Ok store, _) \<Rightarrow>
               map_option (\<lambda>r. case r of
                   Err e \<Rightarrow> (Err e, m)
                 | Panic \<Rightarrow> (Panic, m)
                 | Ok w \<Rightarrow>
                     (Ok \<lparr>op_name = vc_name vol, op_iqn = vc_iqn vol, op_labels = labels, op_store = w\<rparr>,
                      set_volume_capacity labels (bs_capacity (cached_ops (s3_ops E)) (wc_inner w)) m))
                 (wc_wrap J (cached_ops (s3_ops E)) fuel (cached_new store pool (vc_name vol)) (vc_write_cache vol)
                   (vc_write_buffer_max vol) (vc_name vol) now f)))"

section \<open>The I/O lock\<close>

text \<open>A failed flush before the lock is only logged.\<close>

definition wc_lock_io :: "('s, 'm) store_ops_scheme \<Rightarrow> 's cached_store wcore \<Rightarrow> 's cached_store wcore" where
  "wc_lock_io B w = (let w1 = snd (wc_flush (cached_ops B) w) in w1\<lparr>wc_inner := cached_lock_io (wc_inner w1)\<rparr>)"

definition wc_unlock_io :: "'s cached_store wcore \<Rightarrow> 's cached_store wcore" where
  "wc_unlock_io w = w\<lparr>wc_inner := cached_unlock_io (wc_inner w)\<rparr>"

definition wc_is_io_locked :: "'s cached_store wcore \<Rightarrow> bool" where
  "wc_is_io_locked w \<longleftrightarrow> cst_io_locked (wc_inner w)"

section \<open>The stack\<close>

definition vol_ops :: "('s, 'm) s3_env_scheme \<Rightarrow> 's volume_store store_ops" where
  "vol_ops E = wc_ops (cached_ops (s3_ops E))"

definition vol_rep ::
  "('s, 'm) s3_env_scheme \<Rightarrow> ('s \<Rightarrow> string \<rightharpoonup> bytes) \<Rightarrow> compression \<Rightarrow> bytes set \<Rightarrow> write_cache_mode \<Rightarrow>
    (nat \<Rightarrow> byte) \<Rightarrow> geometry \<Rightarrow> 's volume_store \<Rightarrow> bool" where
  "vol_rep E objs a U m d g w \<longleftrightarrow> wc_rep_at m None (cached_rep_at False (s3_rep E objs a U)) (s3_adm E a U) d g w"

lemma vol_rep_eq: "vol_rep E objs a U m = wc_rep_at m None (cached_rep_at False (s3_rep E objs a U)) (s3_adm E a U)"
  by (simp add: vol_rep_def fun_eq_iff)

lemma cached_s3_store:
  assumes "s3_laws E objs" and "inj_on (e_blake3 E) U"
  shows "block_store (cached_ops (s3_ops E)) (cached_rep_at l (s3_rep E objs a U)) (s3_adm E a U)"
  by (rule block_store.cached_block_store [OF s3_block_store [OF assms]])

lemma vol_store:
  assumes "s3_laws E objs" and "inj_on (e_blake3 E) U"
  shows "block_store (vol_ops E) (vol_rep E objs a U m) (s3_adm E a U)"
  unfolding vol_ops_def vol_rep_eq by (rule block_store.wc_block_store [OF cached_s3_store [OF assms]])

lemma drained_dirty: "drained m direct w \<Longrightarrow> ds_chunks (wc_dirty w) = []"
proof -
  assume "drained m direct w"
  then have "map_of (ds_chunks (wc_dirty w)) i = None" for i
    by (auto simp: drained_def wc_lookup_def dirty_get_def fun_eq_iff split: option.splits)
  then have "map_of (ds_chunks (wc_dirty w)) = Map.empty" by (rule ext)
  then show "ds_chunks (wc_dirty w) = []" by simp
qed

lemma vol_flush:
  assumes "s3_laws E objs" and "inj_on (e_blake3 E) U"
  shows "hoare (vol_rep E objs a U m d g) (bs_flush (vol_ops E))
    (\<lambda>_ w. vol_rep E objs a U m d g w \<and> s3_rep E objs a U d g (cst_inner (wc_inner w)) \<and> dirty_count w = 0) (\<lambda>_. True)"
proof -
  have "vol_rep E objs a U m d g w \<and> s3_rep E objs a U d g (cst_inner (wc_inner w)) \<and> dirty_count w = 0"
    if "drained m True w \<and> cached_rep_at False (s3_rep E objs a U) d g (wc_inner w)" for w
  proof -
    have s3: "s3_rep E objs a U d g (cst_inner (wc_inner w))"
      using that by (simp add: cached_rep_at_def cached_rep_def)
    have "vol_rep E objs a U m d g w"
      using that drained_rep [of m True w "cached_rep_at False (s3_rep E objs a U)" d g] s3_rep_geom(5) [OF s3]
      by (simp add: vol_rep_def wc_rep_at_def)
    moreover have "ds_chunks (wc_dirty w) = []" using that drained_dirty by blast
    ultimately show ?thesis using s3 by (simp add: dirty_count_def)
  qed
  then show ?thesis
    unfolding vol_ops_def wc_ops_sel
    by (intro hoare_conseq [OF block_store.wc_flush_hoare [OF cached_s3_store [OF assms], where m = m and direct = True]])
      (auto simp: vol_rep_def wc_rep_at_def)
qed

section \<open>A small volume\<close>

definition demo_vol :: "bucket volume_store" where
  "demo_vol = wc_build (cached_new (demo_store Cow) (cache_new 64) ''vol'')
     \<lparr>wcc_mode = WMemory, wcc_max_bytes = 4, wcc_path = None\<rparr> 0 0 None \<lparr>fs_files = [], fs_faults = []\<rparr> dirty_new"

definition demo_device :: "bucket volume_store device" where
  "demo_device = \<lparr>dv_store = demo_vol, dv_product = [], dv_serial = [], dv_naa = [],
     dv_labels = \<lparr>vl_volume = ''vol'', vl_iqn = ''iqn''\<rparr>, dv_metrics = metrics_new\<rparr>"

lemma fresh_rep:
  assumes "Rep d g s" and "zero_beyond (g_cap g) d"
  shows "wc_rep_at (wcc_mode c) None Rep adm d g (wc_build s c 0 now disk f dirty_new)"
  using assms
  by (auto simp: wc_rep_at_def wc_rep_def wc_build_def wc_lookup_def buf_lookup_def dirty_get_def dirty_new_def
      wc_keys_ok_def overlay_def)

lemma demo_vol_rep: "vol_rep bk_env objs_of CNone small_bodies WMemory (\<lambda>_. 0) demo_geom demo_vol"
proof -
  have "cached_rep_at False (s3_rep bk_env objs_of CNone small_bodies) (\<lambda>_. 0) demo_geom
      (cached_new (demo_store Cow) (cache_new 64) ''vol'')"
    by (rule cached_new_rep, rule demo_rep, rule cache_new_inv) (simp add: cache_lookup_def cache_new_def)
  from fresh_rep [where Rep = "cached_rep_at False (s3_rep bk_env objs_of CNone small_bodies)", OF this,
      of "\<lparr>wcc_mode = WMemory, wcc_max_bytes = 4, wcc_path = None\<rparr>"]
  show ?thesis by (simp add: vol_rep_def demo_vol_def zero_beyond_def)
qed

interpretation demo_stack: block_store "vol_ops bk_env" "vol_rep bk_env objs_of CNone small_bodies m" "s3_adm bk_env CNone small_bodies"
  by (rule vol_store [OF bk_laws small_inj])

section \<open>Properties of the stack\<close>

text \<open>
  C21: The volume that the iSCSI device serves, the write cache over the read cache over the S3 store,
  keeps the block-store contract in every cache mode: reads return the bytes of the disk, an
  acknowledged write changes exactly its range, a flush or a resize keeps the disk, listed chunks cover
  everything that is not zero, and no operation panics.
\<close>

theorem volume_stack_contract:
  assumes "s3_laws E objs" and "inj_on (e_blake3 E) U"
  shows "block_store (vol_ops E) (vol_rep E objs a U m) (s3_adm E a U)"
  using assms by (rule vol_store)

theorem volume_stack_contract_witness:
  "s3_laws bk_env objs_of \<and> inj_on (e_blake3 bk_env) small_bodies \<and>
   block_store (vol_ops bk_env) (vol_rep bk_env objs_of CNone small_bodies WMemory) (s3_adm bk_env CNone small_bodies) \<and>
   vol_rep bk_env objs_of CNone small_bodies WMemory (\<lambda>_. 0) demo_geom demo_vol"
  by (intro conjI bk_laws small_inj demo_vol_rep volume_stack_contract)



end
