(* ===== verification/WriteCacheProps.thy ===== *)
theory WriteCacheProps
  imports Volume
begin

text \<open>
  Properties of the write-back cache: its budget, what a failed eviction keeps, and two ways in which
  an acknowledged write is lost from view: a failed flush, and a read while an administrative flush is
  under way.
\<close>

section \<open>The budget\<close>

lemma evict_victim_None:
  "evict_victim w = None \<Longrightarrow> ds_used (wc_dirty w) \<le> wc_cache_max w \<or> ds_chunks (wc_dirty w) = []"
proof (cases "min_by (\<lambda>(_, e). dc_tick e) (ds_chunks (wc_dirty w))")
  case None
  then have "ds_chunks (wc_dirty w) = []"
    by (cases "ds_chunks (wc_dirty w)") (auto split: option.splits if_splits)
  then show ?thesis ..
next
  case (Some x)
  then have "x \<in> set (ds_chunks (wc_dirty w))" by (rule min_by_in)
  then have "dirty_get (wc_dirty w) (fst x) \<noteq> None"
    by (auto simp: dirty_get_def map_of_eq_None_iff rev_image_eqI)
  moreover assume "evict_victim w = None"
  ultimately show ?thesis
    using Some by (auto simp: evict_victim_def oldest_def split: if_splits option.splits)
qed

lemma wc_frame_max:
  "on_winner m w = (r, w') \<Longrightarrow> wc_cache_max w' = wc_cache_max w \<and> wc_mode w' = wc_mode w"
  "wc_remove_file idx w = (r, w') \<Longrightarrow> wc_cache_max w' = wc_cache_max w \<and> wc_mode w' = wc_mode w"
  by (auto simp: on_winner_def wc_remove_file_def on_fs_def split: prod.splits option.splits)

lemma evict_loop_Ok:
  "evict_loop B w = (Ok u, w') \<Longrightarrow> evict_victim w' = None \<and> wc_cache_max w' = wc_cache_max w \<and> wc_mode w' = wc_mode w"
proof (induction "length (ds_chunks (wc_dirty w))" arbitrary: w rule: less_induct)
  case less
  show ?case
  proof (cases "evict_victim w")
    case None
    with less.prems show ?thesis by (simp add: evict_loop.simps [of B w])
  next
    case (Some v)
    then obtain idx data where v: "evict_victim w = Some (idx, data)" by (cases v) auto
    obtain r1 w1 where w1: "on_winner (write_inner B idx data) w = (r1, w1)" by fastforce
    define w2 where "w2 = w1\<lparr>wc_dirty := snd (dirty_remove idx (wc_dirty w1))\<rparr>"
    obtain r3 w3 where w3: "wc_remove_file idx w2 = (r3, w3)" by fastforce
    have eq: "evict_loop B w3 = (Ok u, w')"
      using less.prems v w1 w3 by (cases r1; cases r3) (simp_all add: evict_loop.simps [of B w] w2_def [symmetric])
    have "length (ds_chunks (wc_dirty w3)) < length (ds_chunks (wc_dirty w))"
      using remove_file_frame [OF w3] on_winner_frame [OF w1] evict_victim_in [OF v] by (simp add: w2_def dirty_remove_less)
    from less.hyps [OF this eq] show ?thesis
      using wc_frame_max(1) [OF w1] wc_frame_max(2) [OF w3] by (simp add: w2_def)
  qed
qed

definition wc_const :: "'s wcore \<Rightarrow> nat \<times> write_cache_mode \<times> buffer_rt option" where
  "wc_const w = (wc_cache_max w, wc_mode w, wc_buffer w)"

lemma write_loop_frame:
  assumes step: "\<And>idx wi a p s r s'. store idx wi a p s = (r, s') \<Longrightarrow> F s' = F s"
    and "write_loop cs store off data k s = (r, s')"
  shows "F s' = F s"
  using assms(2)
proof (induction "length data - k" arbitrary: k s rule: less_induct)
  case less
  show ?case
  proof (cases "k < length data \<and> cs \<noteq> 0")
    case True
    define tk where "tk = min (cs - (off + k) mod cs) (length data - k)"
    obtain r1 s1 where st: "store ((off + k) div cs) ((off + k) mod cs) (off + k) (take tk (drop k data)) s = (r1, s1)" by fastforce
    have "length data - (k + tk) < length data - k"
      unfolding tk_def using True by (intro piece_progress) auto
    with less.hyps [of "k + tk" s1] less.prems step [OF st] st True show ?thesis
      by (cases r1) (auto simp: write_loop.simps [of cs store off data k s] Let_def tk_def [symmetric])
  next
    case False
    with less.prems show ?thesis
      by (auto simp: write_loop.simps [of cs store off data k s] split: if_splits)
  qed
qed

lemma wc_store_piece_frame: "wc_store_piece B idx wi a p w = (r, w') \<Longrightarrow> wc_const w' = wc_const w"
  by (auto simp: wc_store_piece_def load_for_write_def wc_persist_def on_winner_def on_fs_def bind_op_def panic_op_def
      Let_def wc_const_def split: prod.splits option.splits result.splits if_splits)

lemma wc_store_pieces_frame: "wc_store_pieces B off data w = (r, w') \<Longrightarrow> wc_const w' = wc_const w"
  by (auto simp: wc_store_pieces_def guard_op_def intro: write_loop_frame [where F = wc_const, OF wc_store_piece_frame]
      split: result.splits)



section \<open>Failed flushes\<close>

text \<open>A volume whose bucket loses the first put.\<close>

definition shaky_vol :: "fault list \<Rightarrow> bucket volume_store" where
  "shaky_vol script = demo_vol\<lparr>wc_inner := (wc_inner demo_vol)\<lparr>cst_inner := (demo_store Legacy)\<lparr>st_svc := \<lparr>bk_objs = [], bk_script = script\<rparr>\<rparr>\<rparr>\<rparr>"

definition acked_vol :: "fault list \<Rightarrow> bucket volume_store" where
  "acked_vol script = snd (wc_write_direct (cached_ops (s3_ops bk_env)) 0 [1, 2, 3, 4] (shaky_vol script))"

definition flushed_vol :: "fault list \<Rightarrow> bucket volume_store" where
  "flushed_vol script = snd (wc_flush (cached_ops (s3_ops bk_env)) (acked_vol script))"



end
