(* ===== verification/WriteRecovery.thy ===== *)
theory WriteRecovery
  imports WriteCacheProps
begin

text \<open>
  Crash recovery of the write cache in disk mode: every acknowledged write has its chunks in files, a
  chunk file is replaced atomically, and reopening the cache over the same inner store and directory
  gives back the same disk, whichever calls of the file system failed before the crash.
\<close>

section \<open>Chunk files\<close>

lemma fs_get_set [simp]: "fs_get (fs_set n b f) = (fs_get f)(n \<mapsto> b)"
  by (rule ext) (simp add: fs_get_def fs_set_def update_conv')

lemma fs_get_unset [simp]: "fs_get (fs_unset n f) = (fs_get f)(n := None)"
  by (rule ext) (simp add: fs_get_def fs_unset_def delete_conv')

lemma fs_get_next [simp]: "fs_get (snd (fs_next f)) = fs_get f"
  by (rule ext) (simp add: fs_get_def fs_next_def split: list.split)

definition fs_keys_ok :: "fsys \<Rightarrow> bool" where
  "fs_keys_ok f \<longleftrightarrow> distinct (map fst (fs_files f))"

lemma fs_keys_set [simp]: "fs_keys_ok f \<Longrightarrow> fs_keys_ok (fs_set n b f)" "fs_keys_ok f \<Longrightarrow> fs_keys_ok (fs_unset n f)"
  by (simp_all add: fs_keys_ok_def fs_set_def fs_unset_def distinct_update distinct_delete)

lemma fs_keys_next [simp]: "fs_keys_ok (snd (fs_next f)) = fs_keys_ok f"
  by (simp add: fs_keys_ok_def fs_next_def split: list.split)

text \<open>What a call does to the files when it succeeds and when it fails.\<close>

lemma fs_call_hoare:
  assumes "\<And>f. P f \<Longrightarrow> P (snd (fs_next f))" and "\<And>f. P f \<Longrightarrow> Q (fst (act f)) (snd (act f))" and "\<And>n f. P f \<Longrightarrow> E (partial n f)"
  shows "hoare P (fs_call msg partial act) Q E"
  unfolding hoare_def
proof (intro allI impI)
  fix f assume "P f"
  then have "P (snd (fs_next f))" by (rule assms(1))
  with assms(2,3) show "post Q E (fs_call msg partial act f)"
    by (cases "fs_next f"; cases "act (snd (fs_next f))") (auto simp: fs_call_def split: option.split io_fault.split dest: assms(2))
qed

lemma chunk_name_length [simp]: "length (chunk_name idx) = 16"
  by (simp add: chunk_name_def)

lemma chunk_name_tmp [simp]: "chunk_name idx \<noteq> chunk_name j @ ''.tmp''"
proof
  assume "chunk_name idx = chunk_name j @ ''.tmp''"
  then have "length (chunk_name idx) = length (chunk_name j @ ''.tmp'')" by (rule arg_cong)
  then show False by simp
qed

lemma chunk_name_stamp [simp]: "chunk_name idx \<noteq> stamp_name"
proof
  assume "chunk_name idx = stamp_name"
  then have "length (chunk_name idx) = length stamp_name" by (rule arg_cong)
  then show False by (simp add: stamp_name_def)
qed

lemma chunk_name_parse: "idx < 2 ^ 64 \<Longrightarrow> from_str_radix16 (2 ^ 64) (chunk_name idx) = Some idx"
  unfolding chunk_name_def by (rule hex16_parse)

lemma chunk_name_inj: "i < 2 ^ 64 \<Longrightarrow> j < 2 ^ 64 \<Longrightarrow> chunk_name i = chunk_name j \<longleftrightarrow> i = j"
  using chunk_name_parse by (metis option.inject)

lemma is_chunk_name_tmp: "\<not> is_chunk_name (chunk_name j @ ''.tmp'')"
  by (simp add: is_chunk_name_def)

lemma is_chunk_name_stamp: "\<not> is_chunk_name stamp_name"
  by (simp add: is_chunk_name_def stamp_name_def)

lemma chunk_name_digits: "c \<in> set (chunk_name idx) \<Longrightarrow> to_digit16 c \<noteq> None"
  unfolding chunk_name_def using hex_fixed_digits [OF hex_alphabets(1)] by blast

lemma is_chunk_name_chunk [simp]: "is_chunk_name (chunk_name idx)"
proof -
  have dot: "to_digit16 (CHR ''.'') = None" by code_simp
  then have no_dot: "CHR ''.'' \<notin> set (chunk_name idx)" using chunk_name_digits by metis
  then have "\<not> suffix_of ''.tmp'' (chunk_name idx)"
    unfolding suffix_of_def by (metis in_set_dropD list.set_intros(1))
  moreover have "list_all (\<lambda>c. to_digit16 c \<noteq> None) (chunk_name idx)"
    using chunk_name_digits by (auto simp: list_all_iff)
  ultimately show ?thesis
    using no_dot by (auto simp: is_chunk_name_def split: list.split)
qed

lemma write_chunk_file_hoare:
  "hoare (\<lambda>f. fs_keys_ok f \<and> (\<forall>n. n \<noteq> chunk_name idx @ ''.tmp'' \<longrightarrow> fs_get f n = M n)) (write_chunk_file dir idx x)
    (\<lambda>_ f. fs_keys_ok f \<and> (\<forall>n. n \<noteq> chunk_name idx @ ''.tmp'' \<longrightarrow> fs_get f n = (M(chunk_name idx \<mapsto> x)) n))
    (\<lambda>f. fs_keys_ok f \<and> (\<forall>n. n \<noteq> chunk_name idx @ ''.tmp'' \<longrightarrow> fs_get f n = M n))"
proof -
  let ?tmp = "chunk_name idx @ ''.tmp''"
  let ?P = "\<lambda>f. fs_keys_ok f \<and> (\<forall>n. n \<noteq> ?tmp \<longrightarrow> fs_get f n = M n)"
  let ?T = "\<lambda>f. ?P f \<and> fs_get f ?tmp = Some x"
  have touch: "hoare ?P (fs_touch msg) (\<lambda>_. ?P) ?P" for msg
    unfolding fs_touch_def by (rule fs_call_hoare) auto
  have create: "hoare ?P (fs_create msg ?tmp) (\<lambda>_. ?P) ?P" for msg
    unfolding fs_create_def by (rule fs_call_hoare) auto
  have wr: "hoare ?P (fs_write_all msg ?tmp x) (\<lambda>_. ?T) ?P" for msg
    unfolding fs_write_all_def by (rule fs_call_hoare) auto
  have sync: "hoare ?T (fs_touch msg) (\<lambda>_. ?T) ?P" for msg
    unfolding fs_touch_def by (rule fs_call_hoare) auto
  have mv: "hoare ?T (fs_rename msg ?tmp (chunk_name idx))
      (\<lambda>_ f. fs_keys_ok f \<and> (\<forall>n. n \<noteq> ?tmp \<longrightarrow> fs_get f n = (M(chunk_name idx \<mapsto> x)) n)) ?P" for msg
    unfolding fs_rename_def by (rule fs_call_hoare) auto
  show ?thesis
    unfolding write_chunk_file_def Let_def
    by (rule hoare_bind [OF touch], rule hoare_bind [OF create], rule hoare_bind [OF wr], rule hoare_bind [OF sync], rule mv)
qed

section \<open>Files and dirty chunks\<close>

text \<open>
  Every dirty chunk is in its file, and every chunk file has the content of the disk, also those that
  a failed removal left behind.
\<close>

definition files_cover :: "(bytes \<Rightarrow> bool) \<Rightarrow> (nat \<Rightarrow> byte) \<Rightarrow> geometry \<Rightarrow> dirty_state \<Rightarrow> fsys \<Rightarrow> bool" where
  "files_cover adm d g ds f \<longleftrightarrow>
     fs_keys_ok f \<and>
     (\<forall>idx x. dirty_get ds idx = Some x \<longrightarrow> idx < 2 ^ 64 \<and> fs_get f (chunk_name idx) = Some x) \<and>
     (\<forall>n x. fs_get f n = Some x \<longrightarrow> is_chunk_name n \<longrightarrow>
        (\<exists>idx < 2 ^ 64. n = chunk_name idx \<and> idx * g_chunk g < g_cap g \<and> x = disk_read d (idx * g_chunk g) (g_chunk g) \<and> adm x))"

definition on_disk :: "(bytes \<Rightarrow> bool) \<Rightarrow> (nat \<Rightarrow> byte) \<Rightarrow> geometry \<Rightarrow> 's wcore \<Rightarrow> bool" where
  "on_disk adm d g w \<longleftrightarrow> wc_disk w \<noteq> None \<and> files_cover adm d g (wc_dirty w) (wc_fs w)"

lemma files_cover_tmp:
  assumes "files_cover adm d g ds f" and "fs_keys_ok f'" and "\<forall>n. n \<noteq> chunk_name idx @ ''.tmp'' \<longrightarrow> fs_get f' n = fs_get f n"
  shows "files_cover adm d g ds f'"
  using assms is_chunk_name_tmp [of idx] unfolding files_cover_def by (metis chunk_name_tmp)

lemma files_cover_insert:
  assumes cov: "files_cover adm d g ds f" and idx: "idx < 2 ^ 64" "idx * g_chunk g < g_cap g"
    and out: "\<And>i. i div g_chunk g \<noteq> idx \<Longrightarrow> d' i = d i"
    and x: "x = disk_read d' (idx * g_chunk g) (g_chunk g)" "adm x" and keys: "fs_keys_ok f'"
    and f': "\<forall>n. n \<noteq> chunk_name idx @ ''.tmp'' \<longrightarrow> fs_get f' n = ((fs_get f)(chunk_name idx \<mapsto> x)) n"
  shows "files_cover adm d' g (dirty_insert now idx x ds) f'"
  unfolding files_cover_def
proof (intro conjI allI impI)
  fix j y assume "dirty_get (dirty_insert now idx x ds) j = Some y"
  then have "j < 2 ^ 64 \<and> (j = idx \<and> y = x \<or> j \<noteq> idx \<and> fs_get f (chunk_name j) = Some y)"
    using cov idx by (auto simp: files_cover_def split: if_splits)
  then show "j < 2 ^ 64" "fs_get f' (chunk_name j) = Some y"
    using f' chunk_name_inj [of j idx] idx by auto
next
  fix n y assume n: "fs_get f' n = Some y" "is_chunk_name n"
  show "\<exists>j < 2 ^ 64. n = chunk_name j \<and> j * g_chunk g < g_cap g \<and> y = disk_read d' (j * g_chunk g) (g_chunk g) \<and> adm y"
  proof (cases "n = chunk_name idx")
    case True
    with n f' x idx show ?thesis by auto
  next
    case False
    then have "fs_get f n = Some y" using n f' is_chunk_name_tmp by (metis fun_upd_other)
    with cov n(2) obtain j where j: "j < 2 ^ 64" "n = chunk_name j" "j * g_chunk g < g_cap g" "adm y"
      "y = disk_read d (j * g_chunk g) (g_chunk g)" unfolding files_cover_def by blast
    moreover have "disk_read d (j * g_chunk g) (g_chunk g) = disk_read d' (j * g_chunk g) (g_chunk g)"
      by (rule disk_read_cong) (use False j(2) out chunk_of_range [of j "g_chunk g"] in force)
    ultimately show ?thesis by auto
  qed
qed (rule keys)

lemma files_cover_remove:
  assumes "files_cover adm d g ds f" and "fs_keys_ok f'"
    and "fs_get f' = fs_get f \<or> fs_get f' = (fs_get f)(chunk_name idx := None)"
    and "idx < 2 ^ 64"
  shows "files_cover adm d g (snd (dirty_remove idx ds)) f'"
  using assms(3)
proof
  assume "fs_get f' = fs_get f"
  with assms show ?thesis by (auto simp: files_cover_def split: if_splits)
next
  assume f': "fs_get f' = (fs_get f)(chunk_name idx := None)"
  then have "fs_get f' (chunk_name j) = fs_get f (chunk_name j)" if "j \<noteq> idx" "j < 2 ^ 64" for j
    using that assms(4) chunk_name_inj by simp
  with assms f' show ?thesis unfolding files_cover_def by (auto split: if_splits)
qed

section \<open>Writes keep the files\<close>

lemma hoare_frame:
  assumes "hoare P m Q E" and "\<And>s r s'. m s = (r, s') \<Longrightarrow> I s \<Longrightarrow> I s'"
  shows "hoare (\<lambda>s. P s \<and> I s) m (\<lambda>a s. Q a s \<and> I s) (\<lambda>s. E s \<and> I s)"
  unfolding hoare_def
proof (intro allI impI)
  fix s assume "P s \<and> I s"
  with hoare_post [OF assms(1), of s] assms(2) [of s]
  show "post (\<lambda>a s. Q a s \<and> I s) (\<lambda>s. E s \<and> I s) (m s)"
    by (cases "m s"; cases "fst (m s)") auto
qed

lemma load_for_write_disk: "load_for_write B idx w = (r, w') \<Longrightarrow> on_disk adm d g w \<Longrightarrow> on_disk adm d g w'"
  by (auto simp: load_for_write_def on_winner_def on_disk_def split: option.splits prod.splits)

lemma persist_insert_hoare:
  fixes d' :: "nat \<Rightarrow> byte" and Rep :: "(nat \<Rightarrow> byte) \<Rightarrow> geometry \<Rightarrow> 's \<Rightarrow> bool"
  assumes m: "m \<noteq> WNone" and out: "\<And>i. i div g_chunk g \<noteq> idx \<Longrightarrow> d' i = d i" and idx: "idx < 2 ^ 64" "idx * g_chunk g < g_cap g"
    and zero: "zero_beyond (g_cap g) d'" and adm: "adm (disk_read d' (idx * g_chunk g) (g_chunk g))"
  shows "hoare (\<lambda>w. wc_rep_at m b Rep adm d g w \<and> on_disk adm d g w)
    (bind_op (wc_persist idx (disk_read d' (idx * g_chunk g) (g_chunk g)))
      (\<lambda>_ w. (Ok (), w\<lparr>wc_dirty := dirty_insert (wc_now w) idx (disk_read d' (idx * g_chunk g) (g_chunk g)) (wc_dirty w)\<rparr>)))
    (\<lambda>_ w. wc_rep_at m b Rep adm d' g w \<and> on_disk adm d' g w) (\<lambda>w. wc_rep_at m b Rep adm d g w \<and> on_disk adm d g w)"
  unfolding hoare_def
proof (intro allI impI, elim conjE)
  fix w :: "'s wcore" assume rep: "wc_rep_at m b Rep adm d g w" and disk: "on_disk adm d g w"
  let ?x = "disk_read d' (idx * g_chunk g) (g_chunk g)"
  obtain dir where dir: "wc_disk w = Some dir" and cov: "files_cover adm d g (wc_dirty w) (wc_fs w)"
    using disk by (auto simp: on_disk_def)
  obtain r f where f: "write_chunk_file dir idx ?x (wc_fs w) = (r, f)" by fastforce
  have p: "post (\<lambda>_ f. fs_keys_ok f \<and> (\<forall>n. n \<noteq> chunk_name idx @ ''.tmp'' \<longrightarrow> fs_get f n = ((fs_get (wc_fs w))(chunk_name idx \<mapsto> ?x)) n))
      (\<lambda>f. fs_keys_ok f \<and> (\<forall>n. n \<noteq> chunk_name idx @ ''.tmp'' \<longrightarrow> fs_get f n = fs_get (wc_fs w) n)) (r, f)"
    using hoare_post [OF write_chunk_file_hoare [of idx "fs_get (wc_fs w)" dir ?x], of "wc_fs w"] cov f by (simp add: files_cover_def)
  let ?w = "w\<lparr>wc_fs := f, wc_dirty := dirty_insert (wc_now w) idx ?x (wc_dirty w)\<rparr>"
  have "wc_rep_at m b Rep adm d' g ?w"
    using wc_rep_insert [OF wc_rep_at_fs [OF rep, of f] m out refl adm idx(2) zero, of "wc_now w"] by simp
  moreover have "on_disk adm d' g ?w" if "r = Ok u" for u
    using files_cover_insert [OF cov idx out refl adm, of f "wc_now w"] p that dir by (simp add: on_disk_def)
  moreover have "on_disk adm d g (w\<lparr>wc_fs := f\<rparr>)" if "r = Err e" for e
    using files_cover_tmp [OF cov, of f idx] p that dir by (simp add: on_disk_def)
  ultimately show "post (\<lambda>_ w. wc_rep_at m b Rep adm d' g w \<and> on_disk adm d' g w)
      (\<lambda>w. wc_rep_at m b Rep adm d g w \<and> on_disk adm d g w)
      (bind_op (wc_persist idx ?x) (\<lambda>_ w. (Ok (), w\<lparr>wc_dirty := dirty_insert (wc_now w) idx ?x (wc_dirty w)\<rparr>)) w)"
    using p f dir wc_rep_at_fs [OF rep, of f]
    by (cases r) (auto simp: bind_op_def wc_persist_def on_fs_def)
qed

context block_store
begin

lemma wc_store_piece_disk:
  assumes pc: "in_piece (g_chunk g) off n idx wi a (length p)" and range: "off + n \<le> g_cap g" "g_cap g < 2 ^ 64"
    and m: "m \<noteq> WNone" and zero: "zero_beyond (g_cap g) d"
    and adm: "adm (disk_read (disk_write d a p) (idx * g_chunk g) (g_chunk g))"
  shows "hoare (\<lambda>w. wc_rep_at m b Rep adm d g w \<and> on_disk adm d g w) (wc_store_piece B idx wi a p)
    (\<lambda>_ w. wc_rep_at m b Rep adm (disk_write d a p) g w \<and> on_disk adm (disk_write d a p) g w)
    (\<lambda>w. wc_rep_at m b Rep adm d g w \<and> on_disk adm d g w)"
proof -
  let ?cs = "g_chunk g" let ?R = "\<lambda>d w. wc_rep_at m b Rep adm d g w \<and> on_disk adm d g w"
  let ?x = "disk_read d (idx * ?cs) ?cs" and ?y = "disk_read (disk_write d a p) (idx * ?cs) ?cs"
  have a: "a = idx * ?cs + wi" "wi + length p \<le> ?cs" "idx * ?cs < g_cap g" "a + length p \<le> g_cap g" "0 < ?cs"
    using pc range unfolding in_piece_def by linarith+
  have out: "disk_write d a p i = d i" if "i div ?cs \<noteq> idx" for i
    using that chunk_of_range [of idx ?cs i] a by (auto simp: disk_write_def)
  have y: "patch ?x wi p = ?y" using a by (simp add: patch_disk_read)
  note step = persist_insert_hoare [where d' = "disk_write d a p" and d = d and g = g and idx = idx and adm = adm, OF m out chunk_below [OF a(3) range(2) a(5)] a(3)
      zero_beyond_disk_write [OF zero a(4)] adm]
  have load: "hoare (?R d) (load_for_write B idx) (\<lambda>x w. x = ?x \<and> ?R d w) (?R d)"
    by (rule hoare_conseq [OF hoare_frame [OF load_for_write_hoare [OF a(3)], where I = "on_disk adm d g"]])
      (auto intro: load_for_write_disk)
  show ?thesis
    unfolding wc_store_piece_def
  proof (rule hoare_bind [OF load])
    fix x
    show "hoare (\<lambda>w. x = ?x \<and> ?R d w)
        (if wi + length p \<le> length x then
           (let chunk' = patch x wi p in bind_op (wc_persist idx chunk')
              (\<lambda>_ w. (Ok (), w\<lparr>wc_dirty := dirty_insert (wc_now w) idx chunk' (wc_dirty w)\<rparr>)))
         else panic_op) (\<lambda>_. ?R (disk_write d a p)) (?R d)"
      using step a(2) by (cases "x = ?x") (simp_all add: y Let_def hoare_def)
  qed
qed

lemma wc_store_pieces_disk:
  assumes adm: "adm_write adm (g_chunk g) d off data" and m: "m \<noteq> WNone"
  shows "hoare (\<lambda>w. wc_rep_at m b Rep adm d g w \<and> on_disk adm d g w) (wc_store_pieces B off data)
    (\<lambda>_ w. wc_rep_at m b Rep adm (disk_write d off data) g w \<and> on_disk adm (disk_write d off data) g w)
    (\<lambda>w. \<exists>d'. wc_rep_at m b Rep adm d' g w \<and> on_disk adm d' g w)"
  unfolding hoare_def
proof (intro allI impI)
  fix w assume rep: "wc_rep_at m b Rep adm d g w \<and> on_disk adm d g w"
  let ?cs = "g_chunk g" let ?R = "\<lambda>d w. wc_rep_at m b Rep adm d g w \<and> on_disk adm d g w"
  obtain di where di: "Rep di g (wc_inner w)" using rep by (auto simp: wc_rep_at_def wc_rep_def)
  have "hoare (?R d) (guard_op (check_range (g_cap g) off (length data)) (write_loop ?cs (wc_store_piece B) off data 0))
      (\<lambda>_. ?R (disk_write d off data)) (\<lambda>w. \<exists>d'. ?R d' w)"
  proof (rule hoare_guard_range [OF cap_bound [OF di]])
    assume range: "off + length data \<le> g_cap g"
    show "hoare (?R d) (write_loop ?cs (wc_store_piece B) off data 0) (\<lambda>_. ?R (disk_write d off data)) (\<lambda>w. \<exists>d'. ?R d' w)"
    proof (rule write_loop_whole [where P = ?R, OF chunk_pos' [OF di]])
      fix d' idx wi a p
      assume pc: "in_piece ?cs off (length data) idx wi a (length p)"
        and eq: "disk_read (disk_write d' a p) (idx * ?cs) ?cs = disk_read (disk_write d off data) (idx * ?cs) ?cs"
      have "touches ?cs off (length data) idx"
        using pc unfolding in_piece_def touches_def by linarith
      then have ad: "adm (disk_read (disk_write d' a p) (idx * ?cs) ?cs)"
        using adm eq by (simp add: adm_write_def)
      show "hoare (?R d') (wc_store_piece B idx wi a p) (\<lambda>_. ?R (disk_write d' a p)) (\<lambda>w. \<exists>d'. ?R d' w)"
      proof (cases "zero_beyond (g_cap g) d'")
        case True
        from wc_store_piece_disk [OF pc range cap_bound [OF di] m True ad] show ?thesis
          by (rule hoare_conseq) blast+
      next
        case False
        then show ?thesis by (intro hoare_false) (simp add: wc_rep_at_def wc_rep_def)
      qed
    qed
  qed auto
  from hoare_post [OF this rep] show "post (\<lambda>_. ?R (disk_write d off data)) (\<lambda>w. \<exists>d'. ?R d' w) (wc_store_pieces B off data w)"
    using geom [OF di] by (simp add: wc_store_pieces_def)
qed

end

lemma fs_remove_get:
  assumes "fs_remove msg n f = (r, f')" and "fs_keys_ok f"
  shows "fs_keys_ok f' \<and> (fs_get f' = fs_get f \<or> fs_get f' = (fs_get f)(n := None))"
proof -
  have "hoare (\<lambda>h. fs_keys_ok h \<and> fs_get h = fs_get f) (fs_remove msg n)
      (\<lambda>_ h. fs_keys_ok h \<and> fs_get h = (fs_get f)(n := None)) (\<lambda>h. fs_keys_ok h \<and> fs_get h = fs_get f)"
    unfolding fs_remove_def by (rule fs_call_hoare) auto
  from hoare_post [OF this, of f] assms show ?thesis by (cases r) auto
qed

lemma remove_file_fs:
  assumes "wc_remove_file idx w = (r, w')" and "fs_keys_ok (wc_fs w)"
  shows "wc_disk w' = wc_disk w \<and> fs_keys_ok (wc_fs w') \<and>
    (fs_get (wc_fs w') = fs_get (wc_fs w) \<or> fs_get (wc_fs w') = (fs_get (wc_fs w))(chunk_name idx := None))"
proof (cases "wc_disk w")
  case None
  with assms show ?thesis by (simp add: wc_remove_file_def)
next
  case (Some dir)
  with assms show ?thesis
    by (auto simp: wc_remove_file_def on_fs_def split: prod.splits dest: fs_remove_get)
qed

lemma evict_loop_disk: "evict_loop B w = (r, w') \<Longrightarrow> on_disk adm d g w \<Longrightarrow> on_disk adm d g w'"
proof (induction "length (ds_chunks (wc_dirty w))" arbitrary: w rule: less_induct)
  case less
  show ?case
  proof (cases "evict_victim w")
    case None
    with less.prems show ?thesis by (simp add: evict_loop.simps [of B w])
  next
    case (Some v)
    then obtain idx data where v: "evict_victim w = Some (idx, data)" by (cases v) auto
    obtain r1 w1 where w1: "on_winner (write_inner B idx data) w = (r1, w1)" by fastforce
    define w2 where "w2 = w1\<lparr>wc_dirty := snd (dirty_remove idx (wc_dirty w1))\<rparr>"
    obtain r3 w3 where w3: "wc_remove_file idx w2 = (r3, w3)" by fastforce
    have fr: "wc_dirty w1 = wc_dirty w" "wc_fs w1 = wc_fs w" "wc_disk w1 = wc_disk w"
      using w1 by (auto simp: on_winner_def split: prod.splits)
    have cov: "files_cover adm d g (wc_dirty w) (wc_fs w)" and disk: "wc_disk w \<noteq> None" using less.prems by (auto simp: on_disk_def)
    have "idx < 2 ^ 64"
      using v cov by (auto simp: evict_victim_def files_cover_def split: if_splits option.splits)
    moreover have "fs_keys_ok (wc_fs w2)" using cov fr by (simp add: w2_def files_cover_def)
    note rf = remove_file_fs [OF w3 this]
    ultimately have o3: "on_disk adm d g w3"
      using files_cover_remove [OF cov, of "wc_fs w3" idx] remove_file_frame [OF w3] fr disk
      by (auto simp: on_disk_def w2_def)
    have "length (ds_chunks (wc_dirty w3)) < length (ds_chunks (wc_dirty w))"
      using remove_file_frame [OF w3] fr evict_victim_in [OF v] by (simp add: w2_def dirty_remove_less)
    note ih = less.hyps [OF this _ o3]
    have o1: "on_disk adm d g w1" using less.prems fr by (simp add: on_disk_def)
    have "evict_loop B w = (case r1 of Ok _ \<Rightarrow> (case r3 of Ok _ \<Rightarrow> evict_loop B w3 | Err e \<Rightarrow> (Err e, w3) | Panic \<Rightarrow> (Panic, w3))
        | Err e \<Rightarrow> (Err e, w1) | Panic \<Rightarrow> (Panic, w1))"
      using v w1 w3 by (simp add: evict_loop.simps [of B w] w2_def split: result.split)
    with less.prems(1) ih o1 o3 show ?thesis by (auto split: result.splits)
  qed
qed

lemma on_disk_ctl [simp]: "on_disk adm d g (ctl_update f w) = on_disk adm d g w"
  by (simp add: on_disk_def)

context block_store
begin

lemma wc_write_disk:
  assumes adm: "adm_write adm (g_chunk g) d off data" and m: "m \<noteq> WNone"
  shows "hoare (\<lambda>w. wc_rep_at m None Rep adm d g w \<and> on_disk adm d g w) (wc_write_direct B off data)
    (\<lambda>_ w. wc_rep_at m None Rep adm (disk_write d off data) g w \<and> on_disk adm (disk_write d off data) g w) (\<lambda>_. True)"
  unfolding hoare_def
proof (intro allI impI)
  fix w assume rep: "wc_rep_at m None Rep adm d g w \<and> on_disk adm d g w"
  let ?D = "disk_write d off data" let ?R = "\<lambda>d w. wc_rep_at m None Rep adm d g w \<and> on_disk adm d g w"
  have mode: "wc_mode w \<noteq> WNone" "wc_buffer w = None" using rep m by (auto simp: wc_rep_at_def)
  have "?R d (begin_write w)" using rep by (simp add: begin_write_def)
  note p1 = hoare_post [OF wc_store_pieces_disk [OF adm m] this]
  obtain r1 w1 where w1: "wc_store_pieces B off data (begin_write w) = (r1, w1)" by fastforce
  show "post (\<lambda>_. ?R ?D) (\<lambda>_. True) (wc_write_direct B off data w)"
  proof (cases r1)
    case (Ok u)
    with p1 w1 have q: "?R ?D w1" by simp
    then have b: "wc_buffer w1 = None" by (simp add: wc_rep_at_def)
    obtain r2 w2 where w2: "evict_direct B w1 = (r2, w2)" by fastforce
    have "post (\<lambda>_. wc_rep_at m None Rep adm ?D g) (\<lambda>_. True) (r2, w2)"
      using hoare_post [OF evict_direct_hoare, of m ?D g w1] q w2 by simp
    moreover have "on_disk adm ?D g w2"
      using w2 q evict_loop_disk by (auto simp: evict_direct_def split: if_splits)
    ultimately show ?thesis
      using Ok w1 w2 b mode by (cases r2) (simp_all add: wc_write_direct_def wc_write_at_def drop_hold_def)
  qed (use p1 w1 mode in \<open>simp_all add: wc_write_direct_def wc_write_at_def\<close>)
qed

end

section \<open>Reopening\<close>

text \<open>The chunk files are those of \<open>M\<close>; other files do not matter.\<close>

definition same_chunks :: "(string \<rightharpoonup> bytes) \<Rightarrow> fsys \<Rightarrow> bool" where
  "same_chunks M f \<longleftrightarrow> fs_keys_ok f \<and> (\<forall>n. is_chunk_name n \<longrightarrow> fs_get f n = M n)"

lemma same_chunks_next [simp]: "same_chunks M (snd (fs_next f)) = same_chunks M f"
  by (simp add: same_chunks_def)

lemma same_chunks_stamp: "same_chunks M f \<Longrightarrow> same_chunks M (fs_set stamp_name b f)"
  using is_chunk_name_stamp by (auto simp: same_chunks_def)

lemma touch_chunks: "hoare (same_chunks M) (fs_touch msg) (\<lambda>_. same_chunks M) (same_chunks M)"
  unfolding fs_touch_def by (rule fs_call_hoare) auto

lemma read_chunks: "hoare (same_chunks M) (fs_read msg n)
    (\<lambda>b f. same_chunks M f \<and> (\<forall>x. is_chunk_name n \<longrightarrow> M n = Some x \<longrightarrow> b = x)) (same_chunks M)"
  unfolding fs_read_def by (rule fs_call_hoare) (auto simp: same_chunks_def split: option.split)

lemma check_stamp_chunks: "hoare (same_chunks M) (check_stamp J dir volume cs) (\<lambda>_. same_chunks M) (same_chunks M)"
  unfolding hoare_def
proof (intro allI impI)
  fix f assume f: "same_chunks M f"
  have wr: "hoare (same_chunks M) (fs_write_all msg stamp_name b) (\<lambda>_. same_chunks M) (same_chunks M)" for msg b
    unfolding fs_write_all_def by (rule fs_call_hoare) (auto intro: same_chunks_stamp)
  have rd: "hoare (same_chunks M) (bind_op (fs_read msg stamp_name) k) (\<lambda>_. same_chunks M) (same_chunks M)"
    if "\<And>b. hoare (same_chunks M) (k b) (\<lambda>_. same_chunks M) (same_chunks M)" for msg k
    by (rule hoare_bind [OF read_chunks]) (rule hoare_pre [OF that], simp)
  show "post (\<lambda>_. same_chunks M) (same_chunks M) (check_stamp J dir volume cs f)"
    unfolding check_stamp_def Let_def
    using f by (auto split: sum.split intro!: hoare_post [OF wr] hoare_post [OF rd] hoare_err hoare_ret)
qed

definition names_ok :: "(string \<rightharpoonup> bytes) \<Rightarrow> bool" where
  "names_ok M \<longleftrightarrow> (\<forall>n x. M n = Some x \<longrightarrow> is_chunk_name n \<longrightarrow> (\<exists>idx < 2 ^ 64. n = chunk_name idx))"

lemma load_entries_hoare:
  assumes M: "names_ok M"
  shows "distinct (map fst acc) \<Longrightarrow> set names \<subseteq> dom M \<Longrightarrow>
    hoare (same_chunks M) (load_entries dir cs names acc)
      (\<lambda>r f. same_chunks M f \<and> distinct (map fst r) \<and>
        (\<forall>idx. map_of r idx = (if idx < 2 ^ 64 \<and> chunk_name idx \<in> set names then M (chunk_name idx) else map_of acc idx)))
      (same_chunks M)"
proof (induction names arbitrary: acc)
  case Nil
  then show ?case by (auto simp: hoare_def ret_op_def)
next
  case (Cons n names)
  let ?Q = "\<lambda>acc ns r f. same_chunks M f \<and> distinct (map fst r) \<and>
    (\<forall>idx. map_of r idx = (if idx < 2 ^ 64 \<and> chunk_name idx \<in> set ns then M (chunk_name idx) else map_of acc idx))"
  show ?case
  proof (cases "is_chunk_name n")
    case False
    then have "chunk_name idx \<noteq> n" for idx using is_chunk_name_chunk by metis
    moreover have "set names \<subseteq> dom M" using Cons.prems(2) by simp
    note ih = Cons.IH [OF Cons.prems(1) this]
    ultimately show ?thesis
      unfolding load_entries.simps by (intro hoare_bind [OF touch_chunks]) (use ih False in simp)
  next
    case True
    obtain x where x: "M n = Some x" using Cons.prems(2) by auto
    with M True obtain j where j: "j < 2 ^ 64" "n = chunk_name j" unfolding names_ok_def by blast
    have dist: "distinct (map fst (AList.update j x acc))" using Cons.prems(1) by (simp add: distinct_update)
    have look: "map_of r idx = (if idx < 2 ^ 64 \<and> chunk_name idx \<in> set (n # names) then M (chunk_name idx) else map_of acc idx)"
      if "map_of r idx = (if idx < 2 ^ 64 \<and> chunk_name idx \<in> set names then M (chunk_name idx) else map_of (AList.update j x acc) idx)"
      for r idx
    proof (cases "idx = j")
      case True
      with that x j show ?thesis by (simp add: update_conv')
    next
      case False
      then have "idx < 2 ^ 64 \<Longrightarrow> chunk_name idx \<noteq> n" using j chunk_name_inj by blast
      with that False show ?thesis by (auto simp: update_conv')
    qed
    have upd: "?Q (AList.update j x acc) names r f \<Longrightarrow> ?Q acc (n # names) r f" for r f
      by (intro conjI allI look; elim conjE; (assumption | erule spec))
    have "set names \<subseteq> dom M" using Cons.prems(2) by simp
    from Cons.IH [OF dist this]
    have ih: "hoare (same_chunks M) (load_entries dir cs names (AList.update j x acc)) (?Q acc (n # names)) (same_chunks M)"
      by (rule hoare_conseq) (erule upd | assumption)+
    have go: "hoare (\<lambda>f. same_chunks M f \<and> b = x)
        (if length b \<noteq> cs then err_op e else load_entries dir cs names (AList.update j b acc)) (?Q acc (n # names)) (same_chunks M)" for b e
    proof (cases "b = x \<and> length b = cs")
      case True
      then have "b = x" "length x = cs" by auto
      with ih show ?thesis by (simp cong: if_cong del: split_paired_All)
    next
      case False
      then show ?thesis by (cases "b = x") (simp_all add: hoare_def err_op_def)
    qed
    have rd: "hoare (same_chunks M) (fs_read msg n) (\<lambda>b f. same_chunks M f \<and> b = x) (same_chunks M)" for msg
      by (rule hoare_conseq [OF read_chunks]) (use True x in auto)
    have parse: "from_str_radix16 (2 ^ 64) n = Some j" using chunk_name_parse [OF j(1)] j(2) by (simp only:)
    have chunk: "(\<not> is_chunk_name n) = False" using True by simp
    show ?thesis
      unfolding load_entries.simps chunk if_False parse option.case
      by (rule hoare_bind [OF touch_chunks], rule hoare_bind [OF rd], rule go)
  qed
qed

lemma recovered_get:
  assumes "distinct (map fst xs)"
  shows "dirty_get (fold (\<lambda>(idx, data). dirty_insert now idx data) xs ds) idx =
    (case map_of xs idx of Some x \<Rightarrow> Some x | None \<Rightarrow> dirty_get ds idx)"
  using assms
proof (induction xs arbitrary: ds)
  case (Cons p xs)
  obtain i b where p: "p = (i, b)" by fastforce
  with Cons have "map_of xs i = None" by (auto simp: map_of_eq_None_iff)
  with Cons p show ?case by (auto split: option.split)
qed simp

lemma recovered_keys:
  "distinct (map fst (ds_chunks ds)) \<Longrightarrow>
   distinct (map fst (ds_chunks (fold (\<lambda>(idx, data). dirty_insert now idx data) xs ds)))"
  by (induction xs arbitrary: ds) (auto simp: dirty_keys_insert)

lemma load_disk_cache_hoare:
  assumes "names_ok M"
  shows "hoare (same_chunks M) (load_disk_cache J dir volume cs)
    (\<lambda>r f. same_chunks M f \<and> distinct (map fst r) \<and> (\<forall>idx. map_of r idx = (if idx < 2 ^ 64 then M (chunk_name idx) else None)))
    (same_chunks M)"
proof -
  let ?Q = "\<lambda>r f. same_chunks M f \<and> distinct (map fst r) \<and> (\<forall>idx. map_of r idx = (if idx < 2 ^ 64 then M (chunk_name idx) else None))"
  have list: "hoare (same_chunks M) (\<lambda>f. load_entries dir cs (map fst (fs_files f)) [] f) ?Q (same_chunks M)"
    unfolding hoare_def
  proof (intro allI impI)
    fix f assume f: "same_chunks M f"
    let ?M = "fs_get f"
    have eq: "same_chunks ?M = same_chunks M" using f by (auto simp: same_chunks_def fun_eq_iff)
    have ok: "names_ok ?M" using assms f by (auto simp: names_ok_def same_chunks_def)
    have names: "set (map fst (fs_files f)) = dom ?M" by (simp add: fs_get_def [abs_def] dom_map_of_conv_image_fst)
    have mem: "chunk_name idx \<in> set (map fst (fs_files f)) \<longleftrightarrow> M (chunk_name idx) \<noteq> None" for idx
      using names f by (auto simp: same_chunks_def)
    have get: "?M (chunk_name idx) = M (chunk_name idx)" for idx using f by (simp add: same_chunks_def)
    have "hoare (same_chunks ?M) (load_entries dir cs (map fst (fs_files f)) [])
      (\<lambda>r f'. same_chunks ?M f' \<and> distinct (map fst r) \<and>
        (\<forall>idx. map_of r idx = (if idx < 2 ^ 64 \<and> chunk_name idx \<in> set (map fst (fs_files f)) then ?M (chunk_name idx) else map_of [] idx)))
      (same_chunks ?M)"
      by (rule load_entries_hoare [OF ok]) (use names in auto)
    from hoare_post [OF this [unfolded eq mem get] f]
    show "post ?Q (same_chunks M) (load_entries dir cs (map fst (fs_files f)) [] f)"
      by (rule post_mono) auto
  qed
  show ?thesis
    unfolding load_disk_cache_def
    by (rule hoare_bind [OF touch_chunks], rule hoare_bind [OF check_stamp_chunks], rule hoare_bind [OF touch_chunks], rule list)
qed

lemma files_cover_names: "files_cover adm d g ds f \<Longrightarrow> names_ok (fs_get f)"
  unfolding files_cover_def names_ok_def by blast

lemma files_cover_chunks: "files_cover adm d g ds f \<Longrightarrow> same_chunks (fs_get f) f"
  by (simp add: files_cover_def same_chunks_def)

lemma files_cover_file:
  assumes "files_cover adm d g ds f" and "idx < 2 ^ 64" and "fs_get f (chunk_name idx) = Some x"
  shows "idx * g_chunk g < g_cap g \<and> x = disk_read d (idx * g_chunk g) (g_chunk g) \<and> adm x"
proof -
  obtain j where "j < 2 ^ 64" "chunk_name idx = chunk_name j" "j * g_chunk g < g_cap g" "x = disk_read d (j * g_chunk g) (g_chunk g)" "adm x"
    using assms is_chunk_name_chunk unfolding files_cover_def by blast
  with assms(2) chunk_name_inj show ?thesis by auto
qed

lemma files_cover_recovered:
  assumes cov: "files_cover adm d g ds f" and f': "same_chunks (fs_get f) f'"
    and ds': "\<And>idx. dirty_get ds' idx = (if idx < 2 ^ 64 then fs_get f (chunk_name idx) else None)"
  shows "files_cover adm d g ds' f'"
  unfolding files_cover_def
proof (intro conjI allI impI)
  fix idx x assume "dirty_get ds' idx = Some x"
  with ds' f' show "idx < 2 ^ 64" "fs_get f' (chunk_name idx) = Some x"
    by (auto simp: same_chunks_def split: if_splits)
next
  fix n x assume "fs_get f' n = Some x" "is_chunk_name n"
  with cov f' show "\<exists>idx < 2 ^ 64. n = chunk_name idx \<and> idx * g_chunk g < g_cap g \<and> x = disk_read d (idx * g_chunk g) (g_chunk g) \<and> adm x"
    unfolding files_cover_def same_chunks_def by auto
qed (use f' in \<open>simp add: same_chunks_def\<close>)

lemma wc_open_recovers:
  assumes rep: "wc_rep_at WDisk None Rep adm d g w" and od: "on_disk adm d g w"
    and inner: "\<And>di. Rep di g (wc_inner w) \<Longrightarrow> Rep di g s" and mode: "wcc_mode cache = WDisk"
    and op: "wc_open J B s cache 0 volume now (wc_fs w) = (Ok w', f')"
  shows "wc_rep_at WDisk None Rep adm d g w' \<and> on_disk adm d g w'"
proof -
  let ?M = "fs_get (wc_fs w)"
  have cov: "files_cover adm d g (wc_dirty w) (wc_fs w)" using od by (simp add: on_disk_def)
  obtain dir where dir: "wcc_path cache = Some dir" using op mode by (auto simp: wc_open_def split: option.splits)
  obtain r f1 where ld: "load_disk_cache J dir volume (bs_chunk_size B s) (wc_fs w) = (r, f1)" by fastforce
  then obtain xs where r: "r = Ok xs" and w': "w' = wc_build s cache 0 now (Some dir) f1 (dirty_from_recovered now xs)"
    using op mode dir by (cases r) (auto simp: wc_open_def bind_op_def)
  have q: "same_chunks ?M f1 \<and> distinct (map fst xs) \<and> (\<forall>idx. map_of xs idx = (if idx < 2 ^ 64 then ?M (chunk_name idx) else None))"
    using hoare_post [OF load_disk_cache_hoare [OF files_cover_names [OF cov]] files_cover_chunks [OF cov], of J dir volume "bs_chunk_size B s"]
      ld r by simp
  let ?ds = "dirty_from_recovered now xs"
  have ds: "dirty_get ?ds idx = (if idx < 2 ^ 64 then ?M (chunk_name idx) else None)" for idx
    using recovered_get [of xs now dirty_new idx] q
    by (simp add: dirty_from_recovered_def dirty_get_def dirty_new_def split: option.split)
  have cov': "files_cover adm d g ?ds f1" by (rule files_cover_recovered [OF cov]) (use q ds in auto)
  have lk: "wc_lookup w' = dirty_get ?ds"
    by (rule ext) (simp add: w' wc_build_def wc_lookup_def buf_lookup_def split: option.split)
  obtain di where di: "Rep di g s" and ov: "overlay (g_chunk g) (wc_lookup w) di d"
    using rep inner by (auto simp: wc_rep_at_def wc_rep_def)
  have got: "idx * g_chunk g < g_cap g \<and> x = disk_read d (idx * g_chunk g) (g_chunk g) \<and> adm x" if "dirty_get ?ds idx = Some x" for idx x
    using that ds files_cover_file [OF cov, of idx x] by (auto split: if_splits)
  have miss: "wc_lookup w idx = None" if "dirty_get ?ds idx = None" for idx
  proof -
    have "dirty_get (wc_dirty w) idx = None" using that ds cov
      by (cases "dirty_get (wc_dirty w) idx") (auto simp: files_cover_def split: if_splits)
    then show ?thesis using rep by (simp add: wc_lookup_def buf_lookup_def wc_rep_at_def)
  qed
  have "overlay (g_chunk g) (dirty_get ?ds) di d" using ov got miss by (auto simp: overlay_def)
  moreover have "distinct (map fst (ds_chunks ?ds))"
    unfolding dirty_from_recovered_def by (rule recovered_keys) (simp add: dirty_new_def)
  ultimately have "wc_rep_at WDisk None Rep adm d g w'"
    using rep di got lk mode by (auto simp: wc_rep_at_def wc_rep_def wc_keys_ok_def w' wc_build_def)
  moreover have "on_disk adm d g w'" using cov' by (simp add: on_disk_def w' wc_build_def)
  ultimately show ?thesis ..
qed

context block_store
begin

lemma wc_wrap_recovers:
  assumes rep: "wc_rep_at WDisk None Rep adm d g w" and od: "on_disk adm d g w"
    and inner: "\<And>di. Rep di g (wc_inner w) \<Longrightarrow> Rep di g s" and mode: "wcc_mode cache = WDisk"
    and wrap: "wc_wrap J B fuel s cache 0 volume now (wc_fs w) = Some (Ok w')"
  shows "wc_rep_at WDisk None Rep adm d g w' \<and> on_disk adm d g w'"
proof -
  obtain r f1 where op: "wc_open J B s cache 0 volume now (wc_fs w) = (r, f1)" by fastforce
  with wrap obtain w1 where r: "r = Ok w1" by (cases r) (auto simp: wc_wrap_def)
  note rec = wc_open_recovers [OF rep od inner mode op [unfolded r]]
  obtain r2 w2 where ev: "evict_direct B w1 = (r2, w2)" by fastforce
  have "wc_buffer w1 = None" using rec by (simp add: wc_rep_at_def)
  then have "w2 = w'" "r2 = Ok ()" using wrap op r ev by (cases r2; auto simp: wc_wrap_def)+
  with hoare_post [OF evict_direct_hoare, of WDisk d g w1] rec ev
    evict_loop_disk [of B w1 r2 w2 adm d g] show ?thesis
    by (auto simp: evict_direct_def split: if_splits)
qed

end

section \<open>The property\<close>

definition demo_codec :: stamp_codec where
  "demo_codec = \<lparr>sc_enc = \<lambda>s. Inr (of_nat (sp_chunk_size s) # map (\<lambda>c. of_nat (of_char c)) (sp_volume s)),
     sc_dec = \<lambda>b. Inr \<lparr>sp_volume = map (\<lambda>x. char_of (unat x)) (drop 1 b), sp_chunk_size = unat (hd b)\<rparr>\<rparr>"

definition disk_cache :: write_cache_config where
  "disk_cache = \<lparr>wcc_mode = WDisk, wcc_max_bytes = 0, wcc_path = Some ''/c''\<rparr>"

definition disk_vol :: "bucket volume_store" where
  "disk_vol = wc_build (cached_new (demo_store Cow) (cache_new 64) ''vol'') disk_cache 0 0 (Some ''/c'') \<lparr>fs_files = [], fs_faults = []\<rparr> dirty_new"

lemma disk_vol_rep: "vol_rep bk_env objs_of CNone small_bodies WDisk (\<lambda>_. 0) demo_geom disk_vol"
proof -
  have "cached_rep_at False (s3_rep bk_env objs_of CNone small_bodies) (\<lambda>_. 0) demo_geom
      (cached_new (demo_store Cow) (cache_new 64) ''vol'')"
    by (rule cached_new_rep, rule demo_rep, rule cache_new_inv) (simp add: cache_lookup_def cache_new_def)
  from fresh_rep [where Rep = "cached_rep_at False (s3_rep bk_env objs_of CNone small_bodies)", OF this, of disk_cache]
  show ?thesis by (simp add: vol_rep_def disk_vol_def zero_beyond_def disk_cache_def)
qed

lemma disk_vol_files: "on_disk adm (\<lambda>_. 0) demo_geom disk_vol"
  by (simp add: on_disk_def disk_vol_def wc_build_def files_cover_def fs_keys_ok_def fs_get_def dirty_get_def dirty_new_def)

text \<open>
  C3: In disk mode an acknowledged write survives a crash: when the process dies after the write, with
  the dirty chunks and both caches in memory lost, and the volume is opened again over the same bucket
  and cache directory, the opened volume holds the written disk, reads return its bytes, and its files
  cover it again for the next crash. File operations may have failed before and may fail during the
  recovery; a recovery that meets one reports an error.
\<close>

theorem crash_recovery:
  assumes laws: "s3_laws E objs" "inj_on (e_blake3 E) U" and adm: "adm_write (s3_adm E a U) (g_chunk g) d off bs"
    and before: "vol_rep E objs a U WDisk d g w" "on_disk (s3_adm E a U) d g w"
    and acked: "bs_write_at (vol_ops E) off bs w = (Ok (), w1)"
    and reopened: "wcc_mode cache = WDisk"
      "wc_wrap J (cached_ops (s3_ops E)) fuel (cached_new (cst_inner (wc_inner w1)) (cache_new mx) name) cache 0 volume now (wc_fs w1) = Some (Ok w2)"
  shows "vol_rep E objs a U WDisk (disk_write d off bs) g w2 \<and> on_disk (s3_adm E a U) (disk_write d off bs) g w2 \<and>
    post (\<lambda>xs _. xs = disk_read (disk_write d off bs) o' n) (\<lambda>_. True) (bs_read_at (vol_ops E) o' n w2)"
proof -
  let ?R = "cached_rep_at False (s3_rep E objs a U)" and ?D = "disk_write d off bs"
  have w1: "wc_rep_at WDisk None ?R (s3_adm E a U) ?D g w1 \<and> on_disk (s3_adm E a U) ?D g w1"
    using hoare_post [OF block_store.wc_write_disk [OF cached_s3_store [OF laws] adm, where m = WDisk], where s = w] before acked
    by (simp add: vol_rep_def vol_ops_def)
  have "?R di g (cached_new (cst_inner (wc_inner w1)) (cache_new mx) name)" if "?R di g (wc_inner w1)" for di
    by (rule cached_new_rep, use that in \<open>simp add: cached_rep_at_def cached_rep_def\<close>, rule cache_new_inv)
      (simp add: cache_lookup_def cache_new_def)
  from block_store.wc_wrap_recovers [OF cached_s3_store [OF laws] conjunct1 [OF w1] conjunct2 [OF w1] this reopened]
  have w2: "vol_rep E objs a U WDisk ?D g w2" "on_disk (s3_adm E a U) ?D g w2" by (simp_all add: vol_rep_def)
  moreover have "post (\<lambda>xs _. xs = disk_read ?D o' n) (\<lambda>_. True) (bs_read_at (vol_ops E) o' n w2)"
    by (rule post_mono [OF hoare_post [OF block_store.read_at [OF vol_store [OF laws]] w2(1)]]) auto
  ultimately show ?thesis by blast
qed

definition disk_written :: "bucket volume_store" where
  "disk_written = snd (bs_write_at (vol_ops bk_env) 3 [1, 2] disk_vol)"

definition disk_reopened :: "bucket volume_store" where
  "disk_reopened =
     (case wc_wrap demo_codec (cached_ops (s3_ops bk_env)) 0 (cached_new (cst_inner (wc_inner disk_written)) (cache_new 64) ''vol'')
        disk_cache 0 ''vol'' 5 (wc_fs disk_written) of
        Some (Ok w) \<Rightarrow> w
      | _ \<Rightarrow> disk_vol)"

theorem crash_recovery_witness:
  "vol_rep bk_env objs_of CNone small_bodies WDisk (disk_write (\<lambda>_. 0) 3 [1, 2]) demo_geom disk_reopened \<and>
   dirty_count disk_written = 2 \<and> wc_fs disk_reopened \<noteq> wc_fs disk_vol \<and>
   fst (bs_read_at (vol_ops bk_env) 2 4 disk_reopened) = Ok [0, 1, 2, 0]"
proof -
  have adm: "adm_write (s3_adm bk_env CNone small_bodies) (g_chunk demo_geom) (\<lambda>_. 0) 3 [1, 2]"
    using small_adm by (simp add: demo_geom_def)
  have w1: "bs_write_at (vol_ops bk_env) 3 [1, 2] disk_vol = (Ok (), disk_written)"
  proof -
    have "fst (bs_write_at (vol_ops bk_env) 3 [1, 2] disk_vol) = Ok ()" by code_simp
    then show ?thesis by (simp add: disk_written_def prod_eq_iff)
  qed
  have w2: "wc_wrap demo_codec (cached_ops (s3_ops bk_env)) 0 (cached_new (cst_inner (wc_inner disk_written)) (cache_new 64) ''vol'')
      disk_cache 0 ''vol'' 5 (wc_fs disk_written) = Some (Ok disk_reopened)"
  proof -
    have "(case wc_wrap demo_codec (cached_ops (s3_ops bk_env)) 0 (cached_new (cst_inner (wc_inner disk_written)) (cache_new 64) ''vol'')
        disk_cache 0 ''vol'' 5 (wc_fs disk_written) of Some (Ok w) \<Rightarrow> True | _ \<Rightarrow> False)" by code_simp
    then show ?thesis by (auto simp: disk_reopened_def split: option.splits result.splits)
  qed
  have mode: "wcc_mode disk_cache = WDisk" by (simp add: disk_cache_def)
  have "dirty_count disk_written = 2 \<and> wc_fs disk_reopened \<noteq> wc_fs disk_vol \<and>
      fst (bs_read_at (vol_ops bk_env) 2 4 disk_reopened) = Ok [0, 1, 2, 0]" by code_simp
  with crash_recovery [OF bk_laws small_inj adm disk_vol_rep disk_vol_files w1 mode w2] show ?thesis by blast
qed

end
