(* ===== verification/BulkOps.thy ===== *)
theory BulkOps
  imports Volume SnapshotRefine Display
begin

text \<open>
  The bulk operations of \<open>src/admin.rs\<close> that work on any block store: copying a volume, wiping it,
  seeding it from an image and exporting it. Their \<open>String\<close> errors are carried by \<open>Other\<close>. The two stores
  of a copy work on one state; \<open>store_pair\<close> says what a copy relies on, that neither store disturbs the
  other. The socket is the bytes that arrive before it ends or fails with \<open>eof\<close>, and for an export the bytes sent
  and how many more it takes.
\<close>

section \<open>Operations\<close>

definition str_err :: "(string \<Rightarrow> string) \<Rightarrow> ('s, 'a) op \<Rightarrow> ('s, 'a) op" where
  "str_err msg m s =
     (case m s of
        (Ok a, s') \<Rightarrow> (Ok a, s')
      | (Err e, s') \<Rightarrow> (Err (Other (msg (store_error_display e))), s')
      | (Panic, s') \<Rightarrow> (Panic, s'))"

definition on_fst :: "('s, 'a) op \<Rightarrow> ('s \<times> 't, 'a) op" where
  "on_fst m st = (case m (fst st) of (r, s) \<Rightarrow> (r, (s, snd st)))"

definition on_snd :: "('t, 'a) op \<Rightarrow> ('s \<times> 't, 'a) op" where
  "on_snd m st = (case m (snd st) of (r, t) \<Rightarrow> (r, (fst st, t)))"

record copy_volume_result =
  cv_chunks_copied :: nat
  cv_chunks_deleted :: nat
  cv_bytes_copied :: nat
  cv_chunks_skipped :: nat

definition skipped :: "nat option \<Rightarrow> nat \<Rightarrow> bool" where
  "skipped resume_from idx \<longleftrightarrow> (case resume_from of None \<Rightarrow> False | Some start \<Rightarrow> idx < start)"

definition copy_chunk ::
  "('s, 'm) store_ops_scheme \<Rightarrow> ('s, 'n) store_ops_scheme \<Rightarrow> nat option \<Rightarrow> nat \<Rightarrow> nat \<Rightarrow> copy_volume_result \<Rightarrow> nat \<Rightarrow>
    ('s, copy_volume_result) op" where
  "copy_chunk src dst resume_from capacity chunk_size r idx =
     (if skipped resume_from idx then ret_op (r\<lparr>cv_chunks_skipped := cv_chunks_skipped r + 1\<rparr>)
      else case checked_mul idx chunk_size of
        None \<Rightarrow> err_op (Other (''chunk index '' @ dec idx @ '' overflows with chunk_size '' @ dec chunk_size))
      | Some offset \<Rightarrow>
          if offset \<ge> capacity then ret_op r
          else
            (let len = min (capacity - offset) chunk_size; hint = '' (resume with --resume-from '' @ dec idx @ '')'' in
             bind_op (str_err (\<lambda>e. ''read source chunk '' @ dec idx @ '': '' @ e @ hint) (bs_read_at src offset len)) (\<lambda>buf.
             bind_op (str_err (\<lambda>e. ''write destination chunk '' @ dec idx @ '': '' @ e @ hint) (bs_write_at dst offset buf)) (\<lambda>_.
               ret_op (r\<lparr>cv_chunks_copied := cv_chunks_copied r + 1, cv_bytes_copied := cv_bytes_copied r + len\<rparr>)))))"

definition delete_extra ::
  "('s, 'n) store_ops_scheme \<Rightarrow> nat list \<Rightarrow> copy_volume_result \<Rightarrow> nat \<Rightarrow> ('s, copy_volume_result) op" where
  "delete_extra dst src_set r idx =
     (if idx \<in> set src_set then ret_op r
      else
        bind_op (str_err (\<lambda>e. ''delete destination chunk '' @ dec idx @ '': '' @ e) (bs_delete_chunk dst idx)) (\<lambda>_.
          ret_op (r\<lparr>cv_chunks_deleted := cv_chunks_deleted r + 1\<rparr>)))"

definition copy_volume ::
  "('s, 'm) store_ops_scheme \<Rightarrow> ('s, 'n) store_ops_scheme \<Rightarrow> nat option \<Rightarrow> ('s, copy_volume_result) op" where
  "copy_volume src dst resume_from s =
     (if bs_chunk_size src s \<noteq> bs_chunk_size dst s then
        (Err (Other (''chunk_size mismatch: source '' @ dec (bs_chunk_size src s) @ '' != destination '' @ dec (bs_chunk_size dst s))), s)
      else if bs_block_size src s \<noteq> bs_block_size dst s then
        (Err (Other (''block_size mismatch: source '' @ dec (bs_block_size src s) @ '' != destination '' @ dec (bs_block_size dst s))), s)
      else if bs_capacity src s \<noteq> bs_capacity dst s then
        (Err (Other (''capacity mismatch: source '' @ dec (bs_capacity src s) @ '' != destination '' @ dec (bs_capacity dst s) @
           '' (1:1 copy requires equal capacity)'')), s)
      else if bs_chunk_size src s = 0 then (Err (Other ''invalid chunk_size 0''), s)
      else
        bind_op (str_err (\<lambda>e. ''list source chunks: '' @ e) (bs_present_chunks src)) (\<lambda>src_chunks.
        bind_op (str_err (\<lambda>e. ''list destination chunks: '' @ e) (bs_present_chunks dst)) (\<lambda>dst_chunks.
        bind_op (fold_op (copy_chunk src dst resume_from (bs_capacity src s) (bs_chunk_size src s))
            \<lparr>cv_chunks_copied = 0, cv_chunks_deleted = 0, cv_bytes_copied = 0, cv_chunks_skipped = 0\<rparr> src_chunks) (\<lambda>r1.
        bind_op (fold_op (delete_extra dst src_chunks) r1 dst_chunks) (\<lambda>r2.
        bind_op (str_err (\<lambda>e. ''flush destination after copy: '' @ e) (bs_flush dst)) (\<lambda>_. ret_op r2))))) s)"

definition wipe_volume :: "('s, 'm) store_ops_scheme \<Rightarrow> ('s, nat) op" where
  "wipe_volume store =
     bind_op (str_err (\<lambda>e. ''list chunks: '' @ e) (bs_present_chunks store)) (\<lambda>chunks.
     bind_op (fold_op (\<lambda>n idx. bind_op (str_err (\<lambda>e. ''delete chunk '' @ dec idx @ '': '' @ e) (bs_delete_chunk store idx)) (\<lambda>_. ret_op (n + 1)))
         0 chunks) (\<lambda>chunks_deleted.
     bind_op (str_err (\<lambda>e. ''flush after wipe: '' @ e) (bs_flush store)) (\<lambda>_. ret_op chunks_deleted)))"

record seed_image_result =
  si_bytes_read :: nat
  si_bytes_stored :: nat
  si_chunks_written :: nat
  si_zero_chunks_skipped :: nat

definition read_body :: "string \<Rightarrow> nat \<Rightarrow> nat \<Rightarrow> (bytes, bytes) op" where
  "read_body eof offset n body =
     (if n \<le> length body then (Ok (take n body), drop n body)
      else (Err (Other (''read image body at offset '' @ dec offset @ '': '' @ eof)), []))"

function seed_loop ::
  "('s, 'm) store_ops_scheme \<Rightarrow> string \<Rightarrow> nat \<Rightarrow> nat \<Rightarrow> nat \<Rightarrow> seed_image_result \<Rightarrow> (bytes \<times> 's, seed_image_result) op" where
  "seed_loop store eof chunk_size remaining offset r =
     (if remaining = 0 \<or> chunk_size = 0 then ret_op r
      else
        (let n = min remaining chunk_size in
         bind_op (on_fst (read_body eof offset n)) (\<lambda>buf.
           if list_all (\<lambda>b. b = 0) buf then
             seed_loop store eof chunk_size (remaining - n) (offset + n) (r\<lparr>si_zero_chunks_skipped := si_zero_chunks_skipped r + 1\<rparr>)
           else
             bind_op (on_snd (str_err (\<lambda>e. ''write at offset '' @ dec offset @ '': '' @ e) (bs_write_at store offset buf))) (\<lambda>_.
               seed_loop store eof chunk_size (remaining - n) (offset + n)
                 (r\<lparr>si_chunks_written := si_chunks_written r + 1, si_bytes_stored := si_bytes_stored r + n\<rparr>)))))"
  by pat_completeness auto
termination by (relation "measure (\<lambda>(_, _, _, remaining, _, _). remaining)") auto

declare seed_loop.simps [simp del]

definition seed_image_from_reader ::
  "('s, 'm) store_ops_scheme \<Rightarrow> string \<Rightarrow> nat \<Rightarrow> (bytes \<times> 's, seed_image_result) op" where
  "seed_image_from_reader store eof size' st =
     (let s = snd st; capacity = bs_capacity store s in
      if bs_chunk_size store s = 0 then (Err (Other ''invalid chunk_size 0''), st)
      else if size' > capacity then
        (Err (Other (''image size '' @ dec size' @ '' exceeds volume capacity '' @ dec capacity)), st)
      else
        bind_op (seed_loop store eof (bs_chunk_size store s) size' 0
            \<lparr>si_bytes_read = size', si_bytes_stored = 0, si_chunks_written = 0, si_zero_chunks_skipped = 0\<rparr>) (\<lambda>r.
        bind_op (on_snd (str_err (\<lambda>e. ''flush after image write: '' @ e) (bs_flush store))) (\<lambda>_. ret_op r)) st)"

record pipe =
  pp_sent :: bytes
  pp_room :: nat

definition pipe_write :: "string \<Rightarrow> nat \<Rightarrow> bytes \<Rightarrow> (pipe, unit) op" where
  "pipe_write eof offset bs p =
     (if length bs \<le> pp_room p then (Ok (), \<lparr>pp_sent = pp_sent p @ bs, pp_room = pp_room p - length bs\<rparr>)
      else (Err (Other (''write export body at offset '' @ dec offset @ '': '' @ eof)),
            \<lparr>pp_sent = pp_sent p @ take (pp_room p) bs, pp_room = 0\<rparr>))"

record export_image_result =
  ex_bytes_sent :: nat
  ex_chunks_read :: nat

function export_loop ::
  "('s, 'm) store_ops_scheme \<Rightarrow> string \<Rightarrow> nat \<Rightarrow> nat \<Rightarrow> nat \<Rightarrow> nat \<Rightarrow> (pipe \<times> 's, nat) op" where
  "export_loop store eof chunk_size remaining offset chunks_read =
     (if remaining = 0 \<or> chunk_size = 0 then ret_op chunks_read
      else
        (let n = min remaining chunk_size in
         bind_op (on_snd (str_err (\<lambda>e. ''read at offset '' @ dec offset @ '': '' @ e) (bs_read_at store offset n))) (\<lambda>buf.
         bind_op (on_fst (pipe_write eof offset buf)) (\<lambda>_.
           export_loop store eof chunk_size (remaining - n) (offset + n) (chunks_read + 1)))))"
  by pat_completeness auto
termination by (relation "measure (\<lambda>(_, _, _, remaining, _, _). remaining)") auto

declare export_loop.simps [simp del]

definition export_image_to_writer ::
  "('s, 'm) store_ops_scheme \<Rightarrow> string \<Rightarrow> nat \<Rightarrow> (pipe \<times> 's, export_image_result) op" where
  "export_image_to_writer store eof size' st =
     (let s = snd st; capacity = bs_capacity store s in
      if bs_chunk_size store s = 0 then (Err (Other ''invalid chunk_size 0''), st)
      else if size' > capacity then
        (Err (Other (''export size '' @ dec size' @ '' exceeds volume capacity '' @ dec capacity)), st)
      else
        bind_op (export_loop store eof (bs_chunk_size store s) size' 0 0)
          (\<lambda>n. ret_op \<lparr>ex_bytes_sent = size', ex_chunks_read = n\<rparr>) st)"

section \<open>Lifting\<close>

lemma str_err_hoare: "hoare P m Q E \<Longrightarrow> hoare P (str_err msg m) Q E"
  by (force simp: hoare_def str_err_def post_def split: prod.splits result.splits)

lemma on_fst_hoare:
  "hoare P m Q E \<Longrightarrow> hoare (\<lambda>x. P (fst x) \<and> R (snd x)) (on_fst m) (\<lambda>a x. Q a (fst x) \<and> R (snd x)) (\<lambda>x. E (fst x) \<and> R (snd x))"
  by (fastforce simp: hoare_def on_fst_def post_def split: prod.splits result.splits)

lemma on_snd_hoare:
  "hoare P m Q E \<Longrightarrow> hoare (\<lambda>x. R (fst x) \<and> P (snd x)) (on_snd m) (\<lambda>a x. R (fst x) \<and> Q a (snd x)) (\<lambda>x. R (fst x) \<and> E (snd x))"
  by (fastforce simp: hoare_def on_snd_def post_def split: prod.splits result.splits)

lemma hoare_both:
  "hoare P m Q E \<Longrightarrow> hoare (\<lambda>s. P s \<and> P' s) m Q' E' \<Longrightarrow>
     hoare (\<lambda>s. P s \<and> P' s) m (\<lambda>a s. Q a s \<and> Q' a s) (\<lambda>s. E s \<and> E' s)"
  by (fastforce simp: hoare_def post_def split: prod.splits result.splits)

lemma hoare_both':
  "hoare (\<lambda>s. P s \<and> P' s) m Q E \<Longrightarrow> hoare P' m Q' E' \<Longrightarrow>
     hoare (\<lambda>s. P s \<and> P' s) m (\<lambda>a s. Q a s \<and> Q' a s) (\<lambda>s. E s \<and> E' s)"
  by (fastforce simp: hoare_def post_def split: prod.splits result.splits)

section \<open>Copying\<close>

text \<open>The destination after the chunks \<open>ys\<close> of the source have been visited.\<close>

definition mixed :: "nat \<Rightarrow> nat option \<Rightarrow> nat list \<Rightarrow> (nat \<Rightarrow> byte) \<Rightarrow> (nat \<Rightarrow> byte) \<Rightarrow> nat \<Rightarrow> byte" where
  "mixed cs resume ys d e = (\<lambda>i. if i div cs \<in> set ys \<and> \<not> skipped resume (i div cs) then d i else e i)"

text \<open>The destination after the chunks \<open>zs\<close> that the source does not have were deleted.\<close>

definition cleared :: "nat \<Rightarrow> nat list \<Rightarrow> nat list \<Rightarrow> (nat \<Rightarrow> byte) \<Rightarrow> nat \<Rightarrow> byte" where
  "cleared cs src zs d = (\<lambda>i. if i div cs \<in> set zs \<and> i div cs \<notin> set src then 0 else d i)"

lemma mixed_skip: "skipped resume idx \<Longrightarrow> mixed cs resume (ys @ [idx]) d e = mixed cs resume ys d e"
  by (auto simp: mixed_def fun_eq_iff)

lemma mixed_beyond:
  assumes "zero_beyond cap d" and "zero_beyond cap e" and "cap \<le> idx * cs" and "0 < cs"
  shows "mixed cs resume (ys @ [idx]) d e = mixed cs resume ys d e"
proof (rule ext)
  fix i
  have "d i = e i" if "i div cs = idx"
    using that assms div_times_less_eq_dividend [of i cs] by (auto simp: zero_beyond_def)
  then show "mixed cs resume (ys @ [idx]) d e i = mixed cs resume ys d e i" by (auto simp: mixed_def)
qed

lemma mixed_write:
  assumes zero: "zero_beyond cap d" "zero_beyond cap e" and "idx * cs < cap" and "0 < cs" and "\<not> skipped resume idx"
  shows "disk_write (mixed cs resume ys d e) (idx * cs) (disk_read d (idx * cs) (min (cap - idx * cs) cs)) =
    mixed cs resume (ys @ [idx]) d e"
proof (rule ext)
  fix i
  let ?n = "min (cap - idx * cs) cs"
  show "disk_write (mixed cs resume ys d e) (idx * cs) (disk_read d (idx * cs) ?n) i = mixed cs resume (ys @ [idx]) d e i"
  proof (cases "idx * cs \<le> i \<and> i < idx * cs + ?n")
    case True
    then have "i div cs = idx" by (intro chunk_of_range) auto
    moreover have "disk_read d (idx * cs) ?n ! (i - idx * cs) = d i"
    proof -
      have "i - idx * cs < ?n" "idx * cs + (i - idx * cs) = i" using True by linarith+
      then show ?thesis by simp
    qed
    ultimately show ?thesis using True assms(5) by (simp add: disk_write_def mixed_def)
  next
    case False
    have "d i = e i" if "i div cs = idx"
    proof -
      have "idx * cs \<le> i" "i < idx * cs + cs"
        using that assms(4) div_times_less_eq_dividend [of i cs] dividend_less_div_times [of cs i] by auto
      then have "cap \<le> i" using False by auto
      then show ?thesis using zero by (simp add: zero_beyond_def)
    qed
    with False show ?thesis by (auto simp: disk_write_def mixed_def)
  qed
qed

lemma mixed_adm:
  assumes "0 < cs" and "idx * cs < cap" and "\<not> skipped resume idx" and "zero_beyond cap d" "zero_beyond cap e"
    and "adm (disk_read d (idx * cs) cs)"
  shows "adm_write adm cs (mixed cs resume ys d e) (idx * cs) (disk_read d (idx * cs) (min (cap - idx * cs) cs))"
  unfolding adm_write_def
proof (intro allI impI)
  fix j assume "touches cs (idx * cs) (length (disk_read d (idx * cs) (min (cap - idx * cs) cs))) j"
  then have "j * cs < idx * cs + cs" "idx * cs < j * cs + cs" by (auto simp: touches_def)
  then have "j * cs < Suc idx * cs" "idx * cs < Suc j * cs" by simp_all
  then have "j < Suc idx" "idx < Suc j" by (simp_all only: mult_less_cancel2)
  then have j: "j = idx" by simp
  have "disk_read (mixed cs resume (ys @ [idx]) d e) (idx * cs) cs = disk_read d (idx * cs) cs"
    by (rule disk_read_cong) (use assms(1,3) chunk_of_range [of idx cs] in \<open>auto simp: mixed_def\<close>)
  with assms show "adm (disk_read (disk_write (mixed cs resume ys d e) (idx * cs)
      (disk_read d (idx * cs) (min (cap - idx * cs) cs))) (j * cs) cs)"
    by (simp add: mixed_write j)
qed

lemma cleared_delete: "idx \<notin> set src \<Longrightarrow> clear_chunk cs (cleared cs src zs d) idx = cleared cs src (zs @ [idx]) d"
  by (auto simp: clear_chunk_def cleared_def fun_eq_iff)

lemma cleared_keep: "idx \<in> set src \<Longrightarrow> cleared cs src (zs @ [idx]) d = cleared cs src zs d"
  by (auto simp: cleared_def fun_eq_iff)

text \<open>What the destination holds when both lists have been worked through.\<close>

lemma cleared_mixed:
  assumes src: "lists_chunks cs d xs" and dst: "lists_chunks cs e zs"
    and old: "\<And>i. i div cs \<in> set xs \<Longrightarrow> skipped resume (i div cs) \<Longrightarrow> e i = d i"
  shows "cleared cs xs zs (mixed cs resume xs d e) = d"
proof (rule ext)
  fix i
  have "d i = 0" if "i div cs \<notin> set xs" using src that by (simp add: lists_chunks_def chunk_zero_def)
  moreover have "e i = 0" if "i div cs \<notin> set zs" using dst that by (simp add: lists_chunks_def chunk_zero_def)
  moreover have "e i = d i" if "i div cs \<in> set xs" "skipped resume (i div cs)" using old that by blast
  ultimately show "cleared cs xs zs (mixed cs resume xs d e) i = d i"
    by (cases "i div cs \<in> set xs") (auto simp: cleared_def mixed_def)
qed

text \<open>
  What a copy relies on: two stores that keep their contracts, and that reading the source leaves the
  destination alone and working on the destination leaves the source alone, also when it fails.
\<close>

locale store_pair = src: block_store B R a + dst: block_store B' R' a'
  for B :: "('s, 'm) store_ops_scheme" and R a and B' :: "('s, 'n) store_ops_scheme" and R' a' +
  assumes read_frame: "hoare (\<lambda>x. R d g x \<and> R' e h x) (bs_read_at B off n) (\<lambda>_. R' e h) (\<lambda>_. True)"
    and list_frame: "hoare (\<lambda>x. R d g x \<and> R' e h x) (bs_present_chunks B) (\<lambda>_. R' e h) (\<lambda>_. True)"
    and write_frame: "adm_write a' (g_chunk h) e off bs \<Longrightarrow> hoare (\<lambda>x. R d g x \<and> R' e h x) (bs_write_at B' off bs) (\<lambda>_. R d g) (R d g)"
    and list_frame': "hoare (\<lambda>x. R d g x \<and> R' e h x) (bs_present_chunks B') (\<lambda>_. R d g) (R d g)"
    and delete_frame: "idx < 2 ^ 64 \<Longrightarrow> hoare (\<lambda>x. R d g x \<and> R' e h x) (bs_delete_chunk B' idx) (\<lambda>_. R d g) (R d g)"
    and flush_frame: "hoare (\<lambda>x. R d g x \<and> R' e h x) (bs_flush B') (\<lambda>_. R d g) (R d g)"
begin

lemma copy_chunk_hoare:
  assumes zero: "zero_beyond (g_cap g) d" "zero_beyond (g_cap g) e" and cs: "0 < g_chunk g"
    and adm: "\<And>c. c * g_chunk g < g_cap g \<Longrightarrow> a' (disk_read d (c * g_chunk g) (g_chunk g))"
  shows "hoare (\<lambda>x. R d g x \<and> R' (mixed (g_chunk g) resume ys d e) g x)
    (copy_chunk B B' resume (g_cap g) (g_chunk g) r idx)
    (\<lambda>_ x. R d g x \<and> R' (mixed (g_chunk g) resume (ys @ [idx]) d e) g x) (\<lambda>x. R d g x)"
proof -
  let ?cs = "g_chunk g" and ?cap = "g_cap g" let ?off = "idx * ?cs" let ?len = "min (?cap - ?off) ?cs"
  let ?M = "\<lambda>ys. mixed ?cs resume ys d e"
  consider (skip) "skipped resume idx" | (overflow) "\<not> skipped resume idx" "checked_mul idx ?cs = None"
    | (beyond) "\<not> skipped resume idx" "checked_mul idx ?cs = Some ?off" "?cap \<le> ?off"
    | (copy) "\<not> skipped resume idx" "checked_mul idx ?cs = Some ?off" "?off < ?cap"
    by (cases "?off < 2 ^ 64"; cases "?off < ?cap") (auto simp: checked_mul_def not_less)
  then show ?thesis
  proof cases
    case skip
    then show ?thesis by (auto simp: copy_chunk_def mixed_skip intro!: hoare_ret)
  next
    case overflow
    then show ?thesis by (auto simp: copy_chunk_def intro!: hoare_err)
  next
    case beyond
    then show ?thesis using mixed_beyond [OF zero beyond(3) cs] by (auto simp: copy_chunk_def intro!: hoare_ret)
  next
    case copy
    have rd: "hoare (\<lambda>x. R d g x \<and> R' (?M ys) g x) (str_err msg (bs_read_at B ?off ?len))
        (\<lambda>buf x. buf = disk_read d ?off ?len \<and> R d g x \<and> R' (?M ys) g x) (\<lambda>x. R d g x)" for msg
      by (rule hoare_conseq [OF str_err_hoare [OF hoare_both [OF src.read_at read_frame]]]) auto
    have aw: "adm_write a' ?cs (?M ys) ?off (disk_read d ?off ?len)"
      by (rule mixed_adm [OF cs copy(3,1) zero]) (rule adm [OF copy(3)])
    have wr: "hoare (\<lambda>x. R d g x \<and> R' (?M ys) g x) (str_err msg (bs_write_at B' ?off (disk_read d ?off ?len)))
        (\<lambda>_ x. R d g x \<and> R' (?M (ys @ [idx])) g x) (\<lambda>x. R d g x)" for msg
      by (rule hoare_conseq [OF str_err_hoare [OF hoare_both' [OF write_frame [where e = "?M ys" and h = g, OF aw] dst.write_at [where d = "?M ys" and g = g, OF aw]]]])
        (auto simp: mixed_write [OF zero copy(3) cs copy(1)])
    have rest: "hoare (\<lambda>x. buf = disk_read d ?off ?len \<and> R d g x \<and> R' (?M ys) g x)
        (bind_op (str_err msg (bs_write_at B' ?off buf)) (\<lambda>_. ret_op r'))
        (\<lambda>_ x. R d g x \<and> R' (?M (ys @ [idx])) g x) (\<lambda>x. R d g x)" for buf msg r'
    proof (cases "buf = disk_read d ?off ?len")
      case True
      then show ?thesis by (simp, intro hoare_bind [OF wr] hoare_ret)
    qed (simp add: hoare_false)
    show ?thesis
      unfolding copy_chunk_def Let_def using copy by (simp, intro hoare_bind [OF rd] rest)
  qed
qed

lemma delete_extra_hoare:
  assumes "idx < 2 ^ 64"
  shows "hoare (\<lambda>x. R d g x \<and> R' (cleared (g_chunk g) src zs D) g x) (delete_extra B' src r idx)
    (\<lambda>_ x. R d g x \<and> R' (cleared (g_chunk g) src (zs @ [idx]) D) g x) (\<lambda>x. R d g x)"
proof (cases "idx \<in> set src")
  case True
  then show ?thesis by (auto simp: delete_extra_def cleared_keep intro!: hoare_ret)
next
  case False
  have "hoare (\<lambda>x. R d g x \<and> R' (cleared (g_chunk g) src zs D) g x) (str_err msg (bs_delete_chunk B' idx))
      (\<lambda>_ x. R d g x \<and> R' (cleared (g_chunk g) src (zs @ [idx]) D) g x) (\<lambda>x. R d g x)" for msg
    by (rule hoare_conseq [OF str_err_hoare [OF hoare_both' [OF delete_frame [OF assms] dst.delete [OF assms]]]])
      (auto simp: cleared_delete [OF False])
  then show ?thesis using False by (auto simp: delete_extra_def intro!: hoare_bind hoare_ret)
qed

lemma copy_rest_hoare:
  assumes zero: "zero_beyond (g_cap g) d" "zero_beyond (g_cap g) e" and cs: "0 < g_chunk g"
    and adm: "\<And>c. c * g_chunk g < g_cap g \<Longrightarrow> a' (disk_read d (c * g_chunk g) (g_chunk g))"
    and xs: "lists_chunks (g_chunk g) d xs"
    and old: "\<And>i. i div g_chunk g \<in> set xs \<Longrightarrow> skipped resume (i div g_chunk g) \<Longrightarrow> e i = d i"
  shows "hoare (\<lambda>x. R d g x \<and> R' e g x)
    (bind_op (str_err m1 (bs_present_chunks B')) (\<lambda>zs.
     bind_op (fold_op (copy_chunk B B' resume (g_cap g) (g_chunk g)) r0 xs) (\<lambda>r1.
     bind_op (fold_op (delete_extra B' xs) r1 zs) (\<lambda>r2.
     bind_op (str_err m2 (bs_flush B')) (\<lambda>_. ret_op r2)))))
    (\<lambda>_ x. R d g x \<and> R' d g x) (\<lambda>x. R d g x)"
proof -
  let ?cs = "g_chunk g" let ?M = "\<lambda>ys. mixed ?cs resume ys d e" let ?E = "\<lambda>x. R d g x"
  have ls: "hoare (\<lambda>x. R d g x \<and> R' e g x) (str_err m1 (bs_present_chunks B'))
      (\<lambda>zs x. lists_chunks ?cs e zs \<and> R d g x \<and> R' e g x) ?E"
    by (rule hoare_conseq [OF str_err_hoare [OF hoare_both' [OF list_frame' dst.present]]]) auto
  have cp: "hoare (\<lambda>x. R d g x \<and> R' e g x) (fold_op (copy_chunk B B' resume (g_cap g) ?cs) r0 xs)
      (\<lambda>_ x. R d g x \<and> R' (?M xs) g x) ?E"
    by (rule hoare_pre [OF fold_op_hoare [where I = "\<lambda>ys _ x. R d g x \<and> R' (?M ys) g x"]])
      (use copy_chunk_hoare [OF zero cs adm] in \<open>auto simp: mixed_def\<close>)
  have rest: "hoare (\<lambda>x. R d g x \<and> R' (?M xs) g x)
      (bind_op (fold_op (delete_extra B' xs) r1 zs) (\<lambda>r2. bind_op (str_err m2 (bs_flush B')) (\<lambda>_. ret_op r2)))
      (\<lambda>_ x. R d g x \<and> R' d g x) ?E" if zs: "lists_chunks ?cs e zs" for zs r1
  proof -
    have del: "hoare (\<lambda>x. R d g x \<and> R' (?M xs) g x) (fold_op (delete_extra B' xs) r1 zs)
        (\<lambda>_ x. R d g x \<and> R' (cleared ?cs xs zs (?M xs)) g x) ?E"
      by (rule hoare_pre [OF fold_op_hoare [where I = "\<lambda>ys _ x. R d g x \<and> R' (cleared ?cs xs ys (?M xs)) g x"]])
        (use zs delete_extra_hoare in \<open>auto simp: cleared_def lists_chunks_def\<close>)
    have fl: "hoare (\<lambda>x. R d g x \<and> R' d g x) (str_err m2 (bs_flush B'))
        (\<lambda>_ x. R d g x \<and> R' d g x) ?E"
      by (rule hoare_conseq [OF str_err_hoare [OF hoare_both' [OF flush_frame dst.flush]]]) auto
    have whole: "cleared ?cs xs zs (?M xs) = d" by (rule cleared_mixed [OF xs zs old])
    show ?thesis by (rule hoare_bind [OF del [unfolded whole]], rule hoare_bind [OF fl], rule hoare_ret)
  qed
  show ?thesis
  proof (rule hoare_bind [OF ls])
    fix zs
    show "hoare (\<lambda>x. lists_chunks ?cs e zs \<and> R d g x \<and> R' e g x)
        (bind_op (fold_op (copy_chunk B B' resume (g_cap g) ?cs) r0 xs) (\<lambda>r1.
         bind_op (fold_op (delete_extra B' xs) r1 zs) (\<lambda>r2.
         bind_op (str_err m2 (bs_flush B')) (\<lambda>_. ret_op r2))))
        (\<lambda>_ x. R d g x \<and> R' d g x) ?E"
      by (cases "lists_chunks ?cs e zs") (simp_all add: hoare_false hoare_bind [OF cp rest])
  qed
qed

lemma copy_volume_post:
  assumes s: "R d g s" and t: "R' e g' s"
    and adm: "\<And>c. c * g_chunk g < g_cap g \<Longrightarrow> a' (disk_read d (c * g_chunk g) (g_chunk g))"
    and old: "\<And>i. skipped resume (i div g_chunk g) \<Longrightarrow> e i = d i"
  shows "post (\<lambda>_ x. g' = g \<and> R d g x \<and> R' d g x) (R d g) (copy_volume B B' resume s)"
proof (cases "g' = g")
  case False
  then show ?thesis using src.geom [OF s] dst.geom [OF t] s by (auto simp: copy_volume_def)
next
  case True
  have zero: "zero_beyond (g_cap g) d" "zero_beyond (g_cap g) e" using src.wf [OF s] dst.wf [OF t] True by simp_all
  have ls: "hoare (\<lambda>x. R d g x \<and> R' e g x) (str_err msg (bs_present_chunks B))
      (\<lambda>xs x. lists_chunks (g_chunk g) d xs \<and> R d g x \<and> R' e g x) (R d g)" for msg
    by (rule hoare_conseq [OF str_err_hoare [OF hoare_both [OF src.present list_frame]]]) auto
  have "hoare (\<lambda>x. R d g x \<and> R' e g x) (bind_op (str_err m0 (bs_present_chunks B)) (\<lambda>xs.
      bind_op (str_err m1 (bs_present_chunks B')) (\<lambda>zs.
      bind_op (fold_op (copy_chunk B B' resume (g_cap g) (g_chunk g)) r0 xs) (\<lambda>r1.
      bind_op (fold_op (delete_extra B' xs) r1 zs) (\<lambda>r2. bind_op (str_err m2 (bs_flush B')) (\<lambda>_. ret_op r2))))))
      (\<lambda>_ x. R d g x \<and> R' d g x) (R d g)" for m0 m1 m2 r0
  proof (rule hoare_bind [OF ls])
    fix xs
    show "hoare (\<lambda>x. lists_chunks (g_chunk g) d xs \<and> R d g x \<and> R' e g x)
      (bind_op (str_err m1 (bs_present_chunks B')) (\<lambda>zs.
       bind_op (fold_op (copy_chunk B B' resume (g_cap g) (g_chunk g)) r0 xs) (\<lambda>r1.
       bind_op (fold_op (delete_extra B' xs) r1 zs) (\<lambda>r2. bind_op (str_err m2 (bs_flush B')) (\<lambda>_. ret_op r2)))))
      (\<lambda>_ x. R d g x \<and> R' d g x) (R d g)"
    proof (cases "lists_chunks (g_chunk g) d xs")
      case xs: True
      note copy_rest_hoare [OF zero src.chunk_pos' [OF s] adm xs old]
      then show ?thesis by (rule hoare_pre) simp_all
    qed (rule hoare_false, blast)
  qed
  from hoare_post [OF this, of s] show ?thesis
    using src.geom [OF s] dst.geom [OF t] src.chunk_pos' [OF s] True s t by (simp add: copy_volume_def)
qed

end

text \<open>Stores in separate parts of the state disturb nothing of each other.\<close>

definition fst_ops :: "('s, 'm) store_ops_scheme \<Rightarrow> ('s \<times> 't) store_ops" where
  "fst_ops B =
     \<lparr>bs_read_at = \<lambda>off n. on_fst (bs_read_at B off n), bs_write_at = \<lambda>off bs. on_fst (bs_write_at B off bs),
      bs_capacity = \<lambda>x. bs_capacity B (fst x), bs_set_capacity = \<lambda>c. on_fst (bs_set_capacity B c), bs_flush = on_fst (bs_flush B),
      bs_block_size = \<lambda>x. bs_block_size B (fst x), bs_chunk_size = \<lambda>x. bs_chunk_size B (fst x),
      bs_present_chunks = on_fst (bs_present_chunks B), bs_delete_chunk = \<lambda>i. on_fst (bs_delete_chunk B i)\<rparr>"

definition snd_ops :: "('t, 'm) store_ops_scheme \<Rightarrow> ('s \<times> 't) store_ops" where
  "snd_ops B =
     \<lparr>bs_read_at = \<lambda>off n. on_snd (bs_read_at B off n), bs_write_at = \<lambda>off bs. on_snd (bs_write_at B off bs),
      bs_capacity = \<lambda>x. bs_capacity B (snd x), bs_set_capacity = \<lambda>c. on_snd (bs_set_capacity B c), bs_flush = on_snd (bs_flush B),
      bs_block_size = \<lambda>x. bs_block_size B (snd x), bs_chunk_size = \<lambda>x. bs_chunk_size B (snd x),
      bs_present_chunks = on_snd (bs_present_chunks B), bs_delete_chunk = \<lambda>i. on_snd (bs_delete_chunk B i)\<rparr>"

lemma on_fst_pre: "hoare P m Q E \<Longrightarrow> hoare (\<lambda>x. P (fst x)) (on_fst m) (\<lambda>a x. Q a (fst x)) (\<lambda>x. E (fst x))"
  using on_fst_hoare [where R = "\<lambda>_. True"] by simp

lemma on_snd_pre: "hoare P m Q E \<Longrightarrow> hoare (\<lambda>x. P (snd x)) (on_snd m) (\<lambda>a x. Q a (snd x)) (\<lambda>x. E (snd x))"
  using on_snd_hoare [where R = "\<lambda>_. True"] by simp

lemma on_fst_pre': "hoare P m Q E \<Longrightarrow> hoare (\<lambda>x. P (fst x)) (on_fst m) (\<lambda>a x. Q a (fst x)) (\<lambda>_. True)"
  by (drule on_fst_pre, erule hoare_conseq) auto

lemma on_snd_pre': "hoare P m Q E \<Longrightarrow> hoare (\<lambda>x. P (snd x)) (on_snd m) (\<lambda>a x. Q a (snd x)) (\<lambda>_. True)"
  by (drule on_snd_pre, erule hoare_conseq) auto

lemma fst_store:
  assumes "block_store B R a"
  shows "block_store (fst_ops B) (\<lambda>d g x. R d g (fst x)) a"
  by (rule block_store.intro)
    (simp_all only: fst_ops_def store_ops.simps block_store.geom [OF assms] block_store.wf [OF assms]
      on_fst_pre [OF block_store.read_at [OF assms]] on_fst_pre' [OF block_store.write_at [OF assms]]
      on_fst_pre' [OF block_store.set_capacity [OF assms]] on_fst_pre' [OF block_store.flush [OF assms]]
      on_fst_pre [OF block_store.present [OF assms]] on_fst_pre' [OF block_store.delete [OF assms]])

lemma snd_store:
  assumes "block_store B R a"
  shows "block_store (snd_ops B) (\<lambda>d g x. R d g (snd x)) a"
  by (rule block_store.intro)
    (simp_all only: snd_ops_def store_ops.simps block_store.geom [OF assms] block_store.wf [OF assms]
      on_snd_pre [OF block_store.read_at [OF assms]] on_snd_pre' [OF block_store.write_at [OF assms]]
      on_snd_pre' [OF block_store.set_capacity [OF assms]] on_snd_pre' [OF block_store.flush [OF assms]]
      on_snd_pre [OF block_store.present [OF assms]] on_snd_pre' [OF block_store.delete [OF assms]])

lemma on_fst_keeps:
  assumes "hoare P m Q E"
  shows "hoare (\<lambda>x. P (fst x) \<and> R (snd x)) (on_fst m) (\<lambda>_ x. R (snd x)) (\<lambda>_. True)"
  by (rule hoare_conseq [OF on_fst_hoare [OF assms, where R = R]]) auto

lemma on_snd_keeps:
  assumes "hoare P m Q E"
  shows "hoare (\<lambda>x. R (fst x) \<and> P (snd x)) (on_snd m) (\<lambda>_ x. R (fst x)) (\<lambda>x. R (fst x))"
  by (rule hoare_conseq [OF on_snd_hoare [OF assms, where R = R]]) auto

lemma separate_stores:
  assumes "block_store B R a" and "block_store B' R' a'"
  shows "store_pair (fst_ops B) (\<lambda>d g x. R d g (fst x)) a (snd_ops B') (\<lambda>d g x. R' d g (snd x)) a'"
proof (intro store_pair.intro store_pair_axioms.intro fst_store snd_store assms)
qed (simp_all add: fst_ops_def snd_ops_def on_fst_keeps [OF block_store.read_at [OF assms(1)]]
    on_fst_keeps [OF block_store.present [OF assms(1)]] on_snd_keeps [OF block_store.write_at [OF assms(2)]]
    on_snd_keeps [OF block_store.present [OF assms(2)]] on_snd_keeps [OF block_store.delete [OF assms(2)]]
    on_snd_keeps [OF block_store.flush [OF assms(2)]])

interpretation vol_mem: store_pair "fst_ops (vol_ops bk_env)" "\<lambda>d g x. vol_rep bk_env objs_of CNone small_bodies m d g (fst x)"
    "s3_adm bk_env CNone small_bodies" "snd_ops memory_ops" "\<lambda>d g x. memory_rep d g (snd x)" "\<lambda>_. True"
  by (rule separate_stores [OF vol_store [OF bk_laws small_inj] memory_block_store])

section \<open>Wiping, seeding, exporting\<close>

lemma nth_take_drop:
  assumes "m \<le> i" and "i < m + k" and "m + k \<le> length xs"
  shows "take k (drop m xs) ! (i - m) = xs ! i"
proof -
  have "i - m < k" "m + (i - m) = i" "m \<le> length xs" using assms by linarith+
  then show ?thesis by simp
qed

context block_store
begin

lemma wipe_volume_hoare: "hoare (Rep d g) (wipe_volume B) (\<lambda>_. Rep (\<lambda>_. 0) g) (\<lambda>_. True)"
proof -
  let ?cs = "g_chunk g" let ?D = "\<lambda>ys i. if i div ?cs \<in> set ys then 0 else d i"
  have ls: "hoare (Rep d g) (str_err msg (bs_present_chunks B)) (\<lambda>xs s. lists_chunks ?cs d xs \<and> Rep d g s) (\<lambda>_. True)" for msg
    by (rule hoare_conseq [OF str_err_hoare [OF present]]) auto
  have step: "hoare (Rep (?D ys) g) (bind_op (str_err msg (bs_delete_chunk B idx)) (\<lambda>_. ret_op (n + 1)))
      (\<lambda>_. Rep (?D (ys @ [idx])) g) (\<lambda>_. True)" if "idx < 2 ^ 64" for ys idx msg and n :: nat
  proof -
    have "clear_chunk ?cs (?D ys) idx = ?D (ys @ [idx])" by (auto simp: clear_chunk_def fun_eq_iff)
    with str_err_hoare [OF delete [OF that], of "?D ys" g msg] show ?thesis
      by (intro hoare_bind [where R = "\<lambda>_. Rep (?D (ys @ [idx])) g"] hoare_ret) auto
  qed
  have "hoare (\<lambda>s. lists_chunks ?cs d xs \<and> Rep d g s)
      (bind_op (fold_op (\<lambda>n idx. bind_op (str_err (m1 idx) (bs_delete_chunk B idx)) (\<lambda>_. ret_op (n + 1))) (0 :: nat) xs) (\<lambda>n.
       bind_op (str_err m2 (bs_flush B)) (\<lambda>_. ret_op n))) (\<lambda>_. Rep (\<lambda>_. 0) g) (\<lambda>_. True)" for xs m1 m2
  proof (cases "lists_chunks ?cs d xs")
    case True
    then have D: "?D xs = (\<lambda>_. 0)" and u: "\<forall>i \<in> set xs. i < 2 ^ 64" by (auto simp: lists_chunks_def chunk_zero_def)
    have "hoare (Rep (?D []) g) (fold_op (\<lambda>n idx. bind_op (str_err (m1 idx) (bs_delete_chunk B idx)) (\<lambda>_. ret_op (n + 1))) (0 :: nat) xs)
        (\<lambda>_. Rep (?D xs) g) (\<lambda>_. True)"
      by (rule fold_op_hoare [where I = "\<lambda>ys _. Rep (?D ys) g"]) (use u step in auto)
    moreover have "?D [] = d" by simp
    ultimately show ?thesis
      using True by (auto simp: D intro!: hoare_bind hoare_ret str_err_hoare flush)
  qed (simp add: hoare_false)
  then show ?thesis unfolding wipe_volume_def by (rule hoare_bind [OF ls])
qed

lemma seed_piece_adm:
  assumes cs: "0 < g_chunk g" and o: "g_chunk g dvd o'" "o' < n" and n: "n \<le> g_cap g" "o' + min (n - o') (g_chunk g) \<le> length img"
    and adm: "\<And>c. c * g_chunk g < g_cap g \<Longrightarrow> adm (disk_read (disk_write d 0 (take n img)) (c * g_chunk g) (g_chunk g))"
  shows "adm_write adm (g_chunk g) (disk_write d 0 (take o' img)) o' (take (min (n - o') (g_chunk g)) (drop o' img))"
  unfolding adm_write_def
proof (intro allI impI)
  let ?cs = "g_chunk g" and ?k = "min (n - o') (g_chunk g)" and ?D = "disk_write d 0 (take n img)"
  let ?E = "disk_write (disk_write d 0 (take o' img)) o' (take ?k (drop o' img))"
  obtain c where c: "o' = c * ?cs" using o(1) by (metis dvd_def mult.commute)
  fix j assume "touches ?cs o' (length (take ?k (drop o' img))) j"
  then have "j * ?cs < o' + ?cs" "o' < j * ?cs + ?cs" by (auto simp: touches_def)
  then have "j * ?cs < Suc c * ?cs" "c * ?cs < Suc j * ?cs" by (simp_all add: c)
  then have "j < Suc c" "c < Suc j" by (simp_all only: mult_less_cancel2)
  then have j: "j = c" by simp
  have "?E i = ?D i" if "i < o' + ?cs" for i
  proof -
    have len: "length (take o' img) = o'" "length (take ?k (drop o' img)) = ?k" using o n by auto
    show ?thesis
    proof (cases "i < n")
      case True
      then have "i < o' + ?k" using that by linarith
      then show ?thesis using True o n len nth_take_drop [of o' i ?k img] by (auto simp: disk_write_def)
    next
      case False
      then have "\<not> i < o' + ?k" "\<not> i < o'" using o by linarith+
      then show ?thesis using False n len by (auto simp: disk_write_def)
    qed
  qed
  then have "disk_read ?E (c * ?cs) ?cs = disk_read ?D (c * ?cs) ?cs"
    by (intro disk_read_cong) (simp add: c)
  moreover have "c * ?cs < g_cap g" using c o n by simp
  ultimately show "adm (disk_read ?E (j * ?cs) ?cs)" using adm j by simp
qed

lemma seed_step:
  assumes "o' + k \<le> length img"
  shows "disk_write (disk_write d 0 (take o' img)) o' (take k (drop o' img)) = disk_write d 0 (take (o' + k) img)"
  using assms disk_write_append [of d 0 "take o' img" "take k (drop o' img)"] by (simp add: take_add min_def)

lemma seed_zero:
  assumes "list_all (\<lambda>b. b = 0) (take k (drop m img))" and "m + k \<le> length img" and "\<And>i. i < m + k \<Longrightarrow> d i = 0"
  shows "disk_write d 0 (take (m + k) img) = disk_write d 0 (take m img)"
proof (rule ext)
  fix i
  have "img ! i = 0" if "m \<le> i" "i < m + k"
  proof -
    have "i - m < length (take k (drop m img))" using that assms(2) by auto
    then have "take k (drop m img) ! (i - m) = 0" using assms(1) by (simp add: list_all_length)
    then show ?thesis using nth_take_drop [OF that assms(2)] by simp
  qed
  then show "disk_write d 0 (take (m + k) img) i = disk_write d 0 (take m img) i"
    using assms(2) assms(3) [of i] by (cases "i < m") (simp_all add: disk_write_def)
qed

lemma seed_loop_hoare:
  assumes cs: "0 < g_chunk g" and n: "n \<le> g_cap g" and blank: "\<And>i. i < n \<Longrightarrow> d i = 0"
    and adm: "\<And>c. c * g_chunk g < g_cap g \<Longrightarrow> adm (disk_read (disk_write d 0 (take n img)) (c * g_chunk g) (g_chunk g))"
  shows "o' \<le> n \<Longrightarrow> o' \<le> length img \<Longrightarrow> g_chunk g dvd o' \<or> o' = n \<Longrightarrow>
    hoare (\<lambda>x. fst x = drop o' img \<and> Rep (disk_write d 0 (take o' img)) g (snd x)) (seed_loop B eof (g_chunk g) (n - o') o' r)
      (\<lambda>_ x. n \<le> length img \<and> fst x = drop n img \<and> Rep (disk_write d 0 (take n img)) g (snd x)) (\<lambda>_. True)"
proof (induction "n - o'" arbitrary: o' r rule: less_induct)
  case less
  let ?cs = "g_chunk g" and ?k = "min (n - o') (g_chunk g)"
  let ?P = "\<lambda>m x. fst x = drop m img \<and> Rep (disk_write d 0 (take m img)) g (snd x)"
  let ?Q = "\<lambda>_ x. n \<le> length img \<and> ?P n x"
  show ?case
  proof (cases "o' = n")
    case True
    then show ?thesis using less.prems by (subst seed_loop.simps) (auto intro!: hoare_ret)
  next
    case False
    then have lt: "o' < n" "0 < ?k" "?cs dvd o'" using less.prems cs by auto
    have next_ok: "hoare (?P (o' + ?k)) (seed_loop B eof ?cs (n - o' - ?k) (o' + ?k) r') ?Q (\<lambda>_. True)"
      if "o' + ?k \<le> length img" for r'
    proof -
      have "?cs dvd o' + ?k \<or> o' + ?k = n" using lt by (cases "n - o' < ?cs") (auto simp: min_def)
      then show ?thesis using less.hyps [of "o' + ?k" r'] lt that by simp
    qed
    have rd: "hoare (?P o') (on_fst (read_body eof o' ?k))
        (\<lambda>buf x. o' + ?k \<le> length img \<and> buf = take ?k (drop o' img) \<and> fst x = drop (o' + ?k) img \<and>
           Rep (disk_write d 0 (take o' img)) g (snd x)) (\<lambda>_. True)"
      using less.prems(2) by (auto simp: hoare_def on_fst_def read_body_def add.commute)
    let ?buf = "take ?k (drop o' img)"
    have wr: "hoare (\<lambda>x. fst x = drop (o' + ?k) img \<and> Rep (disk_write d 0 (take o' img)) g (snd x))
        (on_snd (str_err msg (bs_write_at B o' ?buf))) (\<lambda>_. ?P (o' + ?k)) (\<lambda>_. True)"
      if "o' + ?k \<le> length img" for msg
      using seed_piece_adm [OF cs lt(3,1) n that] adm seed_step [OF that]
      by (intro hoare_conseq [OF on_snd_hoare [OF str_err_hoare [OF write_at], where R = "\<lambda>b. b = drop (o' + ?k) img"]]) auto
    have step: "hoare (\<lambda>x. o' + ?k \<le> length img \<and> buf = ?buf \<and> fst x = drop (o' + ?k) img \<and> Rep (disk_write d 0 (take o' img)) g (snd x))
        (if list_all (\<lambda>b. b = 0) buf then seed_loop B eof ?cs (n - o' - ?k) (o' + ?k) r1
         else bind_op (on_snd (str_err msg (bs_write_at B o' buf))) (\<lambda>_. seed_loop B eof ?cs (n - o' - ?k) (o' + ?k) r2)) ?Q (\<lambda>_. True)"
      for buf msg r1 r2
    proof (cases "o' + ?k \<le> length img \<and> buf = ?buf")
      case True
      have "d i = 0" if "i < o' + ?k" for i using that lt by (intro blank) linarith
      note zero = seed_zero [OF _ conjunct1 [OF True] this]
      show ?thesis
      proof (cases "list_all (\<lambda>b. b = 0) buf")
        case z: True
        then have eq: "disk_write d 0 (take (o' + ?k) img) = disk_write d 0 (take o' img)" using True by (intro zero) auto
        show ?thesis unfolding if_P [OF z] by (rule hoare_pre [OF next_ok [OF conjunct1 [OF True]]]) (simp add: eq)
      next
        case False
        have h: "hoare (\<lambda>x. fst x = drop (o' + ?k) img \<and> Rep (disk_write d 0 (take o' img)) g (snd x))
          (bind_op (on_snd (str_err msg (bs_write_at B o' ?buf))) (\<lambda>_. seed_loop B eof ?cs (n - o' - ?k) (o' + ?k) r2)) ?Q (\<lambda>_. True)"
          by (rule hoare_bind [OF wr next_ok]) (rule conjunct1 [OF True])+
        show ?thesis unfolding if_not_P [OF False] unfolding conjunct2 [OF True] by (rule hoare_pre [OF h]) simp
      qed
    qed (rule hoare_false, blast)
    show ?thesis
      using lt cs by (subst seed_loop.simps) (simp add: Let_def hoare_bind [OF rd step])
  qed
qed

lemma export_loop_hoare:
  assumes cs: "0 < g_chunk g"
  shows "hoare (\<lambda>x. pp_sent (fst x) = pre \<and> Rep d g (snd x)) (export_loop B eof (g_chunk g) n off k)
     (\<lambda>_ x. pp_sent (fst x) = pre @ disk_read d off n \<and> Rep d g (snd x))
     (\<lambda>x. (\<exists>j \<le> n. pp_sent (fst x) = pre @ disk_read d off j) \<and> Rep d g (snd x))"
proof (induction n arbitrary: off k pre rule: less_induct)
  case (less n)
  let ?cs = "g_chunk g" and ?m = "min n (g_chunk g)"
  let ?E = "\<lambda>x. (\<exists>j \<le> n. pp_sent (fst x) = pre @ disk_read d off j) \<and> Rep d g (snd x)"
  show ?case
  proof (cases "n = 0")
    case True
    then show ?thesis by (subst export_loop.simps) (auto intro!: hoare_ret)
  next
    case False
    have split: "disk_read d off (?m + j) = disk_read d off ?m @ disk_read d (off + ?m) j" for j by (rule disk_read_append)
    have rd: "hoare (\<lambda>x. pp_sent (fst x) = pre \<and> Rep d g (snd x)) (on_snd (str_err msg (bs_read_at B off ?m)))
        (\<lambda>buf x. buf = disk_read d off ?m \<and> pp_sent (fst x) = pre \<and> Rep d g (snd x)) ?E" for msg
      by (rule hoare_conseq [OF on_snd_hoare [OF str_err_hoare [OF read_at], where R = "\<lambda>p. pp_sent p = pre"]])
        (auto intro: exI [of _ 0])
    have wr: "hoare (\<lambda>x. buf = disk_read d off ?m \<and> pp_sent (fst x) = pre \<and> Rep d g (snd x)) (on_fst (pipe_write eof off buf))
        (\<lambda>_ x. pp_sent (fst x) = pre @ disk_read d off ?m \<and> Rep d g (snd x)) ?E" for buf
    proof -
      have "take r (disk_read d off ?m) = disk_read d off (min r ?m)" for r
        by (rule nth_equalityI) auto
      moreover have "min r ?m \<le> n" for r by simp
      ultimately show ?thesis by (auto simp: hoare_def on_fst_def pipe_write_def)
    qed
    have IH: "hoare (\<lambda>x. pp_sent (fst x) = pre @ disk_read d off ?m \<and> Rep d g (snd x))
        (export_loop B eof ?cs (n - ?m) (off + ?m) (Suc k))
        (\<lambda>_ x. pp_sent (fst x) = pre @ disk_read d off n \<and> Rep d g (snd x)) ?E"
    proof (rule hoare_conseq [OF less.IH])
      show "n - ?m < n" using False cs by simp
      fix x assume "(\<exists>j \<le> n - ?m. pp_sent (fst x) = (pre @ disk_read d off ?m) @ disk_read d (off + ?m) j) \<and> Rep d g (snd x)"
      then obtain j where j: "j \<le> n - ?m" "pp_sent (fst x) = pre @ disk_read d off (?m + j)" "Rep d g (snd x)" by (auto simp: split)
      moreover have "?m + j \<le> n" using j(1) by linarith
      ultimately show "?E x" by blast
    qed (use split [of "n - ?m"] in auto)
    show ?thesis
      using False cs by (subst export_loop.simps) (simp add: Let_def, intro hoare_bind [OF rd] hoare_bind [OF wr] IH)
  qed
qed

lemma seed_image_post:
  assumes s: "Rep d g s" and blank: "\<And>i. i < n \<Longrightarrow> d i = 0"
    and adm: "\<And>c. c * g_chunk g < g_cap g \<Longrightarrow> adm (disk_read (disk_write d 0 (take n img)) (c * g_chunk g) (g_chunk g))"
  shows "post (\<lambda>_ x. n \<le> length img \<and> n \<le> g_cap g \<and> fst x = drop n img \<and> Rep (disk_write d 0 (take n img)) g (snd x)) (\<lambda>_. True)
    (seed_image_from_reader B eof n (img, s))"
proof (cases "n \<le> g_cap g")
  case False
  then show ?thesis using geom [OF s] chunk_pos' [OF s] by (simp add: seed_image_from_reader_def)
next
  case True
  let ?Q = "\<lambda>_ x. n \<le> length img \<and> n \<le> g_cap g \<and> fst x = drop n img \<and> Rep (disk_write d 0 (take n img)) g (snd x)"
  note loop = seed_loop_hoare [where o' = 0 and d = d and img = img and n = n and g = g, OF chunk_pos' [OF s] True blank adm, simplified]
  have fl: "hoare (\<lambda>x. n \<le> length img \<and> fst x = drop n img \<and> Rep (disk_write d 0 (take n img)) g (snd x))
      (on_snd (str_err msg (bs_flush B))) (\<lambda>_. ?Q ()) (\<lambda>_. True)" for msg
    using True
    by (intro hoare_conseq [OF on_snd_hoare [OF str_err_hoare [OF flush], where R = "\<lambda>b. n \<le> length img \<and> b = drop n img"]]) auto
  have "hoare (\<lambda>x. fst x = img \<and> Rep d g (snd x))
      (bind_op (seed_loop B eof (g_chunk g) n 0 r) (\<lambda>r. bind_op (on_snd (str_err msg (bs_flush B))) (\<lambda>_. ret_op r))) ?Q (\<lambda>_. True)" for r msg
    by (rule hoare_bind [OF loop], rule hoare_bind [OF fl], rule hoare_ret) simp
  from hoare_post [OF this, of "(img, s)"] show ?thesis
    using True s geom [OF s] chunk_pos' [OF s] by (simp add: seed_image_from_reader_def)
qed

lemma export_image_post:
  assumes s: "Rep d g s"
  shows "post (\<lambda>r x. n \<le> g_cap g \<and> ex_bytes_sent r = n \<and> pp_sent (fst x) = pp_sent p @ disk_read d 0 n \<and> Rep d g (snd x))
    (\<lambda>x. (\<exists>j \<le> n. pp_sent (fst x) = pp_sent p @ disk_read d 0 j) \<and> Rep d g (snd x)) (export_image_to_writer B eof n (p, s))"
proof (cases "n \<le> g_cap g")
  case False
  then show ?thesis using geom [OF s] chunk_pos' [OF s] s by (auto simp: export_image_to_writer_def intro: exI [of _ 0])
next
  case True
  have "post (\<lambda>_ x. pp_sent (fst x) = pp_sent p @ disk_read d 0 n \<and> Rep d g (snd x))
    (\<lambda>x. (\<exists>j \<le> n. pp_sent (fst x) = pp_sent p @ disk_read d 0 j) \<and> Rep d g (snd x)) (export_loop B eof (g_chunk g) n 0 0 (p, s))"
    by (rule hoare_post [OF export_loop_hoare [OF chunk_pos' [OF s]]]) (simp add: s)
  then show ?thesis
    using True geom [OF s] chunk_pos' [OF s]
    by (auto simp: export_image_to_writer_def bind_op_def ret_op_def post_def split: prod.splits result.splits)
qed

end

section \<open>Properties\<close>

text \<open>
  A copy that reports success makes the destination hold exactly the source's disk, zeros included,
  and requires equal geometry. The source is unchanged, whatever the outcome. A resumed copy gives
  the same when the destination already agrees with the source below the chunk it resumes from.
\<close>

theorem copy_exact:
  assumes "store_pair B R a B' R' a'" and "R d g s" and "R' e g' s"
    and "\<And>c. c * g_chunk g < g_cap g \<Longrightarrow> a' (disk_read d (c * g_chunk g) (g_chunk g))"
    and "\<And>i. skipped resume (i div g_chunk g) \<Longrightarrow> e i = d i"
  shows "post (\<lambda>_ x. g' = g \<and> R d g x \<and> R' d g x) (R d g) (copy_volume B B' resume s)"
  using assms by (rule store_pair.copy_volume_post)

definition copy_demo :: "bucket volume_store \<times> memory_store" where
  "copy_demo = (demo_vol, \<lparr>m_capacity = 8, m_chunks = [(1, [7, 7, 7, 7])], m_block_size = 2, m_chunk_size = 4\<rparr>)"

theorem copy_exact_witness:
  "vol_rep bk_env objs_of CNone small_bodies WMemory (\<lambda>_. 0) demo_geom (fst copy_demo) \<and>
   post (\<lambda>_ x. memory_rep (\<lambda>_. 0) demo_geom (snd x)) (\<lambda>_. True)
     (copy_volume (fst_ops (vol_ops bk_env)) (snd_ops memory_ops) None copy_demo)"
proof -
  let ?e = "chunk_disk 4 (map_of [(1, [7, 7, 7, 7 :: byte])])"
  have z: "zero_beyond 8 ?e"
    by (auto simp: zero_beyond_def chunk_disk_def)
  have m: "memory_rep ?e \<lparr>g_cap = 8, g_chunk = 4, g_block = 2\<rparr> (snd copy_demo)"
    using z by (simp add: memory_rep_def copy_demo_def wf_geom_def table_ok_def split: if_splits)
  have v: "vol_rep bk_env objs_of CNone small_bodies WMemory (\<lambda>_. 0) demo_geom (fst copy_demo)"
    by (simp add: copy_demo_def demo_vol_rep)
  have "post (\<lambda>_ x. \<lparr>g_cap = 8, g_chunk = 4, g_block = 2\<rparr> = demo_geom \<and>
      vol_rep bk_env objs_of CNone small_bodies WMemory (\<lambda>_. 0) demo_geom (fst x) \<and> memory_rep (\<lambda>_. 0) demo_geom (snd x))
      (\<lambda>x. vol_rep bk_env objs_of CNone small_bodies WMemory (\<lambda>_. 0) demo_geom (fst x))
      (copy_volume (fst_ops (vol_ops bk_env)) (snd_ops memory_ops) None copy_demo)"
    by (rule copy_exact [OF separate_stores [OF vol_store [OF bk_laws small_inj] memory_block_store] v m]) (simp_all add: skipped_def)
  then show ?thesis using v by (auto elim: post_mono)
qed

text \<open>
  A wipe of a block store that reports success leaves a disk of zeros with the same geometry.
\<close>

theorem wipe_blank:
  assumes "block_store B Rep adm"
  shows "hoare (Rep d g) (wipe_volume B) (\<lambda>_. Rep (\<lambda>_. 0) g) (\<lambda>_. True)"
  using assms by (rule block_store.wipe_volume_hoare)

theorem wipe_blank_witness:
  "block_store (vol_ops bk_env) (vol_rep bk_env objs_of CNone small_bodies WMemory) (s3_adm bk_env CNone small_bodies) \<and>
   post (\<lambda>_. vol_rep bk_env objs_of CNone small_bodies WMemory (\<lambda>_. 0) demo_geom) (\<lambda>_. True) (wipe_volume (vol_ops bk_env) demo_vol)"
  using hoare_post [OF wipe_blank [OF vol_store [OF bk_laws small_inj]] demo_vol_rep] vol_store [OF bk_laws small_inj] by blast

text \<open>
  C16: Seeding a blank volume and exporting it gives the image back: a seed that reports success has read
  exactly the announced number of bytes, the bytes exported after it are exactly those, although all-zero
  chunks were never written, and a failed export has sent a prefix of them.
\<close>

theorem seed_export_roundtrip:
  assumes "block_store B Rep adm" and "Rep d g s" and "\<And>i. i < n \<Longrightarrow> d i = 0"
    and "\<And>c. c * g_chunk g < g_cap g \<Longrightarrow> adm (disk_read (disk_write d 0 (take n img)) (c * g_chunk g) (g_chunk g))"
    and "seed_image_from_reader B eof n (img, s) = (Ok r, rest, s1)"
  shows "n \<le> length img \<and> rest = drop n img \<and>
    post (\<lambda>x p. pp_sent (fst p) = take n img \<and> ex_bytes_sent x = n)
      (\<lambda>p. \<exists>j \<le> n. pp_sent (fst p) = take j img) (export_image_to_writer B eof' n (\<lparr>pp_sent = [], pp_room = room\<rparr>, s1))"
proof -
  have s1: "n \<le> length img \<and> n \<le> g_cap g \<and> rest = drop n img \<and> Rep (disk_write d 0 (take n img)) g s1"
    using block_store.seed_image_post [OF assms(1,2), of n img eof] assms(3-5) by simp
  have rd: "disk_read (disk_write d 0 (take n img)) 0 j = take j img" if "j \<le> n" for j
    by (rule nth_equalityI) (use that s1 in \<open>auto simp: disk_write_def\<close>)
  have "post (\<lambda>x p. pp_sent (fst p) = take n img \<and> ex_bytes_sent x = n)
      (\<lambda>p. \<exists>j \<le> n. pp_sent (fst p) = take j img) (export_image_to_writer B eof' n (\<lparr>pp_sent = [], pp_room = room\<rparr>, s1))"
    by (rule post_mono [OF block_store.export_image_post [OF assms(1) s1 [THEN conjunct2, THEN conjunct2, THEN conjunct2]]])
      (auto simp: rd)
  with s1 show ?thesis by blast
qed

theorem seed_export_roundtrip_witness:
  "fst (seed_image_from_reader (vol_ops bk_env) [] 6 ([0, 0, 0, 0, 1, 0, 9], demo_vol)) =
     Ok \<lparr>si_bytes_read = 6, si_bytes_stored = 2, si_chunks_written = 1, si_zero_chunks_skipped = 1\<rparr> \<and>
   post (\<lambda>x p. pp_sent (fst p) = [0, 0, 0, 0, 1, 0] \<and> ex_bytes_sent x = 6) (\<lambda>p. True)
     (export_image_to_writer (vol_ops bk_env) [] 6
       (\<lparr>pp_sent = [], pp_room = 9\<rparr>, snd (snd (seed_image_from_reader (vol_ops bk_env) [] 6 ([0, 0, 0, 0, 1, 0, 9], demo_vol)))))"
proof -
  let ?img = "[0, 0, 0, 0, 1, 0, 9 :: byte]"
  have r: "fst (seed_image_from_reader (vol_ops bk_env) [] 6 (?img, demo_vol)) =
      Ok \<lparr>si_bytes_read = 6, si_bytes_stored = 2, si_chunks_written = 1, si_zero_chunks_skipped = 1\<rparr>" by code_simp
  then obtain rest s1 where e: "seed_image_from_reader (vol_ops bk_env) [] 6 (?img, demo_vol) =
      (Ok \<lparr>si_bytes_read = 6, si_bytes_stored = 2, si_chunks_written = 1, si_zero_chunks_skipped = 1\<rparr>, rest, s1)"
    by (metis prod.collapse)
  have adm: "s3_adm bk_env CNone small_bodies (disk_read (disk_write (\<lambda>_. 0) 0 (take 6 ?img)) (c * g_chunk demo_geom) (g_chunk demo_geom))" for c
    by (simp add: demo_geom_def s3_adm_def small_bodies_def encode_chunk_def)
  from seed_export_roundtrip [OF vol_store [OF bk_laws small_inj] demo_vol_rep refl adm e, of "[]" 9] r e
  show ?thesis by (auto elim: post_mono)
qed

end
