(* ===== verification/Admin.thy ===== *)
theory Admin
  imports BulkOps Metrics
begin

text \<open>
  \<open>src/admin.rs\<close>: the requests of the control socket. A request is a decoded JSON object, a response a JSON
  value. All volumes share one bucket and one pool of cached chunks: the state keeps them once, and an
  operation of a volume runs on the volume's store with the shared parts put in and takes them out
  again. \<open>String\<close> errors are carried by \<open>Other\<close>. The number of connections and sessions that the target library
  reports, the clock and the reply to \<open>HeadBucket\<close> are parameters or parts of the state; log lines are left
  out. A write that would have to wait for the worker of a write buffer is not modelled here (\<open>vol_ops\<close>).
\<close>

section \<open>JSON values\<close>

datatype json = JNull | JBool bool | JNum int | JReal string | JStr string | JArr "json list" | JObj "(string \<times> json) list"

definition jnum :: "nat \<Rightarrow> json" where "jnum n = JNum (int n)"

definition jopt :: "('a \<Rightarrow> json) \<Rightarrow> 'a option \<Rightarrow> json" where
  "jopt f x = (case x of None \<Rightarrow> JNull | Some a \<Rightarrow> f a)"

definition json_get :: "string \<Rightarrow> json \<Rightarrow> json option" where
  "json_get key v = (case v of JObj fs \<Rightarrow> map_of fs key | _ \<Rightarrow> None)"

definition json_ok :: "json \<Rightarrow> json" where
  "json_ok data = JObj [(''ok'', JBool True), (''data'', data)]"

definition json_err :: "string \<Rightarrow> json" where
  "json_err message = JObj [(''ok'', JBool False), (''error'', JStr message)]"

section \<open>State\<close>

record volume_summary =
  vs_name :: string
  vs_iqn :: string
  vs_capacity :: nat
  vs_auth :: string
  vs_prefix :: string
  vs_chunk_size :: nat
  vs_compression :: string
  vs_storage :: string
  vs_write_cache :: string
  vs_write_cache_max_bytes :: nat
  vs_write_buffer_max_bytes :: nat

record 's admin_handle =
  ah_name :: string
  ah_iqn :: string
  ah_store :: "'s volume_store"

record admin_snapshot =
  as_bind :: string
  as_portals :: "string list"
  as_instance :: "string option"
  as_volumes :: "volume_summary list"
  as_cache_max_bytes :: nat
  as_s3_bucket :: "string option"
  as_s3_endpoint :: "string option"
  as_s3_region :: string
  as_s3_force_path_style :: bool
  as_performance_optimiser :: bool

record 's admin_state =
  ad_config_path :: "string option"
  ad_started :: nat
  ad_now :: nat
  ad_cache :: chunk_cache
  ad_connections :: nat
  ad_session_count :: nat
  ad_svc :: 's
  ad_sessions :: session_sink
  ad_snapshot :: admin_snapshot
  ad_volumes :: "'s admin_handle list"

record admin_request =
  rq_op :: string
  rq_max_bytes :: "json option"
  rq_volume :: "string option"
  rq_to :: "string option"
  rq_size :: "nat option"
  rq_capacity :: "json option"
  rq_id :: "string option"
  rq_name :: "string option"
  rq_force :: bool
  rq_resume_from :: "nat option"

text \<open>The parameters: the bucket, the decoder of the configuration, the size parser, \<open>HeadBucket\<close>.\<close>

record 's admin_env =
  ae_s3 :: "'s s3_env"
  ae_extract :: "config_layer list \<Rightarrow> string + config"
  ae_bytesize :: "string \<Rightarrow> string + nat"
  ae_head :: "string \<Rightarrow> ('s, unit) op"

definition of_sum :: "string + 'a \<Rightarrow> ('s, 'a) op" where
  "of_sum r s = (case r of Inl e \<Rightarrow> (Err (Other e), s) | Inr a \<Rightarrow> (Ok a, s))"

text \<open>One volume with the shared bucket and pool, and back.\<close>

definition check_out :: "'s admin_state \<Rightarrow> 's volume_store \<Rightarrow> 's volume_store" where
  "check_out st w =
     w\<lparr>wc_inner := (wc_inner w)\<lparr>cst_cache := ad_cache st, cst_inner := (cst_inner (wc_inner w))\<lparr>st_svc := ad_svc st\<rparr>\<rparr>\<rparr>"

definition check_in :: "nat \<Rightarrow> 's volume_store \<Rightarrow> 's admin_state \<Rightarrow> 's admin_state" where
  "check_in i w st =
     st\<lparr>ad_cache := cst_cache (wc_inner w), ad_svc := st_svc (cst_inner (wc_inner w)),
        ad_volumes := (ad_volumes st)[i := (ad_volumes st ! i)\<lparr>ah_store := w\<rparr>]\<rparr>"

definition store_at :: "nat \<Rightarrow> 's admin_state \<Rightarrow> 's volume_store" where
  "store_at i st = check_out st (ah_store (ad_volumes st ! i))"

definition on_vol :: "nat \<Rightarrow> ('s volume_store, 'a) op \<Rightarrow> ('s admin_state, 'a) op" where
  "on_vol i m st = (case m (store_at i st) of (r, w) \<Rightarrow> (r, check_in i w st))"

definition upd_vol :: "nat \<Rightarrow> ('s volume_store \<Rightarrow> 's volume_store) \<Rightarrow> ('s admin_state, unit) op" where
  "upd_vol i f = on_vol i (\<lambda>w. (Ok (), f w))"

definition on_store :: "('s s3_store, 'a) op \<Rightarrow> ('s volume_store, 'a) op" where
  "on_store m = on_winner (on_inner m)"

definition on_service :: "('s, 'a) op \<Rightarrow> ('s admin_state, 'a) op" where
  "on_service m st = (case m (ad_svc st) of (r, v) \<Rightarrow> (r, st\<lparr>ad_svc := v\<rparr>))"

definition invalidate_pool :: "string \<Rightarrow> ('s admin_state, unit) op" where
  "invalidate_pool name st = (Ok (), st\<lparr>ad_cache := cache_invalidate_volume name (ad_cache st)\<rparr>)"

definition upd_snapshot :: "(admin_snapshot \<Rightarrow> admin_snapshot) \<Rightarrow> ('s admin_state, unit) op" where
  "upd_snapshot f st = (Ok (), st\<lparr>ad_snapshot := f (ad_snapshot st)\<rparr>)"

text \<open>\<open>iter_mut().find\<close>: the first volume of that name.\<close>

fun upd_volume :: "string \<Rightarrow> (volume_summary \<Rightarrow> volume_summary) \<Rightarrow> volume_summary list \<Rightarrow> volume_summary list" where
  "upd_volume name f [] = []"
| "upd_volume name f (v # vs) = (if vs_name v = name then f v # vs else v # upd_volume name f vs)"

definition set_summary :: "string \<Rightarrow> (volume_summary \<Rightarrow> volume_summary) \<Rightarrow> ('s admin_state, unit) op" where
  "set_summary name f = upd_snapshot (\<lambda>s. s\<lparr>as_volumes := upd_volume name f (as_volumes s)\<rparr>)"

section \<open>Selecting volumes, sizes\<close>

definition find_volume :: "volume_summary list \<Rightarrow> string option \<Rightarrow> string + volume_summary" where
  "find_volume volumes selector =
     (case non_empty selector of
        None \<Rightarrow> Inl ''volume name or IQN is required''
      | Some sel \<Rightarrow>
          (case find (\<lambda>v. vs_name v = sel \<or> vs_iqn v = sel) volumes of
             None \<Rightarrow> Inl (''unknown volume '' @ debug_str sel)
           | Some v \<Rightarrow> Inr v))"

fun find_index :: "('a \<Rightarrow> bool) \<Rightarrow> 'a list \<Rightarrow> nat option" where
  "find_index P [] = None"
| "find_index P (x # xs) = (if P x then Some 0 else map_option Suc (find_index P xs))"

definition find_volume_store :: "'s admin_handle list \<Rightarrow> volume_summary \<Rightarrow> string + nat" where
  "find_volume_store stores vol =
     (case find_index (\<lambda>h. ah_name h = vs_name vol \<or> ah_iqn h = vs_iqn vol) stores of
        None \<Rightarrow> Inl (''no live store for volume '' @ vs_name vol)
      | Some i \<Rightarrow> Inr i)"

definition get_volume :: "string option \<Rightarrow> ('s admin_state, volume_summary) op" where
  "get_volume sel st = of_sum (find_volume (as_volumes (ad_snapshot st)) sel) st"

definition get_store :: "volume_summary \<Rightarrow> ('s admin_state, nat) op" where
  "get_store vol st = of_sum (find_volume_store (ad_volumes st) vol) st"

definition require_quiesced :: "string \<Rightarrow> string \<Rightarrow> bool \<Rightarrow> ('s admin_state, unit) op" where
  "require_quiesced volume iqn force st =
     (if force then (Ok (), st)
      else
        (let sessions = list_sessions (ad_now st) (Some volume) (ad_sessions st);
             by_iqn = (if sessions = [] then list_sessions (ad_now st) (Some iqn) (ad_sessions st) else sessions)
         in if by_iqn \<noteq> [] then
              (Err (Other (''volume '' @ volume @ '' has '' @ dec (length by_iqn) @
                 '' active FullFeature session(s); disconnect first or pass force=true for crash-consistent best-effort'')), st)
            else (Ok (), st)))"

definition parse_max_bytes_value :: "(string \<Rightarrow> string + nat) \<Rightarrow> json \<Rightarrow> string + nat" where
  "parse_max_bytes_value bytesize val =
     (case val of
        JNum n \<Rightarrow> if 0 \<le> n \<and> n < 2 ^ 64 then Inr (nat n) else Inl ''max_bytes must be a non-negative integer''
      | JReal _ \<Rightarrow> Inl ''max_bytes must be a non-negative integer''
      | JStr s \<Rightarrow> parse_byte_size bytesize s
      | _ \<Rightarrow> Inl ''max_bytes must be a number or size string'')"

definition parse_optional_max_bytes :: "(string \<Rightarrow> string + nat) \<Rightarrow> json option \<Rightarrow> string + nat option" where
  "parse_optional_max_bytes bytesize v =
     (case v of
        None \<Rightarrow> Inr None
      | Some val \<Rightarrow>
          if val = JNull then Inr None
          else (case parse_max_bytes_value bytesize val of Inl e \<Rightarrow> Inl e | Inr n \<Rightarrow> Inr (Some n)))"

definition parse_required_max_bytes :: "(string \<Rightarrow> string + nat) \<Rightarrow> json option \<Rightarrow> string + nat" where
  "parse_required_max_bytes bytesize v =
     (case v of None \<Rightarrow> Inl ''max_bytes is required'' | Some val \<Rightarrow> parse_max_bytes_value bytesize val)"

definition format_duration :: "nat \<Rightarrow> string" where
  "format_duration secs = dec (secs div 3600) @ ''h'' @ dec (secs mod 3600 div 60) @ ''m'' @ dec (secs mod 60) @ ''s''"

definition uptime_secs :: "'s admin_state \<Rightarrow> nat" where
  "uptime_secs st = (ad_now st - ad_started st) div 1000000000"

section \<open>Responses\<close>

definition summary_json :: "volume_summary \<Rightarrow> json" where
  "summary_json v =
     JObj [(''name'', JStr (vs_name v)), (''iqn'', JStr (vs_iqn v)), (''capacity'', jnum (vs_capacity v)),
       (''auth'', JStr (vs_auth v)), (''prefix'', JStr (vs_prefix v)), (''chunk_size'', jnum (vs_chunk_size v)),
       (''compression'', JStr (vs_compression v)), (''storage'', JStr (vs_storage v)),
       (''write_cache'', JStr (vs_write_cache v)), (''write_cache_max_bytes'', jnum (vs_write_cache_max_bytes v)),
       (''write_buffer_max_bytes'', jnum (vs_write_buffer_max_bytes v))]"

definition session_json :: "live_session \<Rightarrow> json" where
  "session_json s =
     JObj [(''volume'', JStr (ls_volume s)), (''target_iqn'', JStr (ls_target_iqn s)),
       (''initiator_iqn'', JStr (ls_initiator_iqn s)), (''peer'', JStr (ls_peer s)),
       (''started_secs_ago'', jnum (ls_started_secs_ago s))]"

fun state_str :: "snapshot_state \<Rightarrow> string" where
  "state_str Creating = ''creating''"
| "state_str Ready = ''ready''"
| "state_str Deleting = ''deleting''"

definition manifest_json :: "snapshot_manifest \<Rightarrow> json" where
  "manifest_json m =
     JObj [(''id'', JStr (sm_id m)), (''created_at_unix'', jnum (sm_created_at_unix m)), (''parent'', jopt JStr (sm_parent m)),
       (''source_volume'', JStr (sm_source_volume m)), (''capacity_bytes'', jnum (sm_capacity_bytes m)),
       (''chunk_size'', jnum (sm_chunk_size m)), (''block_size'', jnum (sm_block_size m)),
       (''compression'', JStr (compression_as_str (sm_compression m))), (''chunk_count'', jnum (sm_chunk_count m)),
       (''chunks_object'', JStr (sm_chunks_object m)), (''hash_algo'', JStr (sm_hash_algo m)),
       (''state'', JStr (state_str (sm_state m))), (''format_version'', jnum (sm_format_version m))]"

definition cache_json :: "'s admin_state \<Rightarrow> json" where
  "cache_json st =
     (let c = ad_cache st; (used, entries) = cache_stats c
      in JObj [(''enabled'', JBool (cache_is_enabled c)), (''max_bytes'', jnum (cc_max_bytes c)),
           (''last_nonzero_max_bytes'', jnum (cc_last_nonzero_max_bytes c)), (''used_bytes'', jnum used), (''entries'', jnum entries)])"

definition iscsi_json :: "'s admin_state \<Rightarrow> json" where
  "iscsi_json st = JObj [(''connections'', jnum (ad_connections st)), (''sessions'', jnum (ad_session_count st))]"

definition stats_json :: "'s admin_state \<Rightarrow> json" where
  "stats_json st =
     (let snap = ad_snapshot st in
      JObj [(''uptime_secs'', jnum (uptime_secs st)), (''uptime'', JStr (format_duration (uptime_secs st))),
        (''config_path'', jopt JStr (ad_config_path st)), (''bind'', JStr (as_bind snap)),
        (''portals'', JArr (map JStr (as_portals snap))), (''instance'', jopt JStr (as_instance snap)),
        (''volumes'', JArr (map summary_json (as_volumes snap))), (''cache'', cache_json st), (''iscsi'', iscsi_json st)])"

definition volume_list_json :: "'s admin_state \<Rightarrow> json" where
  "volume_list_json st =
     (let vs = as_volumes (ad_snapshot st) in JObj [(''volumes'', JArr (map summary_json vs)), (''count'', jnum (length vs))])"

definition volume_sessions_json :: "'s admin_state \<Rightarrow> string option \<Rightarrow> json" where
  "volume_sessions_json st selector =
     (let sessions = list_sessions (ad_now st) selector (ad_sessions st) in
      JObj [(''sessions'', JArr (map session_json sessions)), (''count'', jnum (length sessions)), (''iscsi'', iscsi_json st)])"

section \<open>Handlers\<close>

text \<open>The block store of a volume, on the shared state.\<close>

definition world_ops :: "'s s3_env \<Rightarrow> nat \<Rightarrow> 's admin_state store_ops" where
  "world_ops E i =
     \<lparr>bs_read_at = \<lambda>off n. on_vol i (bs_read_at (vol_ops E) off n), bs_write_at = \<lambda>off bs. on_vol i (bs_write_at (vol_ops E) off bs),
      bs_capacity = \<lambda>st. bs_capacity (vol_ops E) (store_at i st), bs_set_capacity = \<lambda>c. on_vol i (bs_set_capacity (vol_ops E) c),
      bs_flush = on_vol i (bs_flush (vol_ops E)), bs_block_size = \<lambda>st. bs_block_size (vol_ops E) (store_at i st),
      bs_chunk_size = \<lambda>st. bs_chunk_size (vol_ops E) (store_at i st), bs_present_chunks = on_vol i (bs_present_chunks (vol_ops E)),
      bs_delete_chunk = \<lambda>idx. on_vol i (bs_delete_chunk (vol_ops E) idx)\<rparr>"

definition conf_at :: "nat \<Rightarrow> 's admin_state \<Rightarrow> s3_conf" where
  "conf_at i st = st_conf (cst_inner (wc_inner (store_at i st)))"

definition require_bucket :: "('s admin_state, string) op" where
  "require_bucket st =
     (case as_s3_bucket (ad_snapshot st) of None \<Rightarrow> (Err (Other ''s3.bucket is not configured''), st) | Some b \<Rightarrow> (Ok b, st))"

definition volume_s3_stats :: "'s s3_env \<Rightarrow> string option \<Rightarrow> ('s admin_state, json) op" where
  "volume_s3_stats E selector =
     bind_op (get_volume selector) (\<lambda>vol.
     bind_op require_bucket (\<lambda>bucket.
     bind_op (str_err id (on_service (list_prefix_stats E (vs_prefix vol)))) (\<lambda>stats.
       ret_op (JObj [(''volume'', JStr (vs_name vol)), (''iqn'', JStr (vs_iqn vol)), (''bucket'', JStr bucket),
         (''prefix'', JStr (vs_prefix vol)), (''logical_capacity_bytes'', jnum (vs_capacity vol)),
         (''chunk_size'', jnum (vs_chunk_size vol)), (''compression'', JStr (vs_compression vol)),
         (''objects'', JObj [(''total'', jnum (po_object_count stats)), (''chunks'', jnum (po_chunk_count stats)),
            (''meta'', jnum (po_meta_count stats)), (''other'', jnum (po_other_count stats))]),
         (''bytes'', JObj [(''total'', jnum (po_total_bytes stats)), (''chunks'', jnum (po_chunk_bytes stats)),
            (''meta'', jnum (po_meta_bytes stats)), (''other'', jnum (po_other_bytes stats))]),
         (''logical_chunk_bytes_if_full'', jnum (sat_mul (po_chunk_count stats) (vs_chunk_size vol))),
         (''note'', JStr ''bytes are on-disk object sizes (compressed when compression != none); sparse unwritten chunks have no object'')]))))"

definition endpoint_json :: "volume_summary \<Rightarrow> json" where
  "endpoint_json v =
     JObj [(''volume'', JStr (vs_name v)), (''iqn'', JStr (vs_iqn v)), (''prefix'', JStr (vs_prefix v)),
       (''capacity'', jnum (vs_capacity v)), (''compression'', JStr (vs_compression v))]"

definition volume_copy :: "'s s3_env \<Rightarrow> string option \<Rightarrow> string option \<Rightarrow> nat option \<Rightarrow> ('s admin_state, json) op" where
  "volume_copy E from' to' resume_from =
     bind_op (get_volume from') (\<lambda>src_sum.
     bind_op (get_volume to') (\<lambda>dst_sum.
       if vs_name src_sum = vs_name dst_sum then err_op (Other ''source and destination must be different volumes'')
       else
         bind_op (get_store src_sum) (\<lambda>i.
         bind_op (get_store dst_sum) (\<lambda>j.
         bind_op (copy_volume (world_ops E i) (world_ops E j) resume_from) (\<lambda>r.
           ret_op (JObj ([(''from'', endpoint_json src_sum), (''to'', endpoint_json dst_sum),
             (''chunks_copied'', jnum (cv_chunks_copied r)), (''chunks_deleted'', jnum (cv_chunks_deleted r)),
             (''chunks_skipped'', jnum (cv_chunks_skipped r)), (''bytes_copied'', jnum (cv_bytes_copied r)),
             (''note'', JStr (case resume_from of
                None \<Rightarrow> ''destination overwritten to match source sparsity; compression may be re-encoded per destination config''
              | Some _ \<Rightarrow> ''resumed copy: source chunks below resume_from were skipped; dest-only chunks still reconciled''))] @
             (case resume_from of None \<Rightarrow> [] | Some idx \<Rightarrow> [(''resume_from'', jnum idx)]))))))))"

text \<open>Unlock after the work, whether it succeeded or not; a panic leaves the lock.\<close>

definition then_unlock :: "nat \<Rightarrow> ('s admin_state, 'a) op \<Rightarrow> ('s admin_state, 'a) op" where
  "then_unlock i m st =
     (case m st of
        (Panic, st') \<Rightarrow> (Panic, st')
      | (r, st') \<Rightarrow> (r, snd (upd_vol i wc_unlock_io st')))"

definition volume_wipe :: "'s s3_env \<Rightarrow> string option \<Rightarrow> ('s admin_state, json) op" where
  "volume_wipe E selector =
     bind_op (get_volume selector) (\<lambda>vol.
     bind_op (get_store vol) (\<lambda>i.
     bind_op (str_err (\<lambda>e. ''discard write cache: '' @ e) (on_vol i discard_dirty)) (\<lambda>_.
     bind_op (upd_vol i (wc_lock_io (s3_ops E))) (\<lambda>_.
     bind_op (then_unlock i
         (bind_op (on_vol i (wipe_volume (vol_ops E))) (\<lambda>wiped.
          bind_op (str_err id (on_vol i (on_store (at_conf (wipe_objects_and_snapshots E))))) (\<lambda>(objects, snapshots).
            ret_op (wiped, objects, snapshots))))) (\<lambda>(wiped, objects, snapshots).
       ret_op (JObj [(''volume'', JStr (vs_name vol)), (''iqn'', JStr (vs_iqn vol)), (''prefix'', JStr (vs_prefix vol)),
         (''chunks_deleted'', jnum wiped), (''objects_deleted'', jnum objects), (''snapshots_deleted'', jnum snapshots),
         (''note'', JStr ''live data, objects, and snapshots deleted; meta.json kept'')]))))))"

definition gc_json :: "gc_stats \<Rightarrow> (string \<times> json) list" where
  "gc_json gc = [(''objects_deleted'', jnum (gc_objects_deleted gc)), (''objects_referenced'', jnum (gc_objects_referenced gc))]"

definition volume_gc :: "'s s3_env \<Rightarrow> string option \<Rightarrow> ('s admin_state, json) op" where
  "volume_gc E selector =
     bind_op (get_volume selector) (\<lambda>vol.
     bind_op (get_store vol) (\<lambda>i.
     bind_op (upd_vol i (wc_lock_io (s3_ops E))) (\<lambda>_.
     bind_op (then_unlock i (str_err id (on_vol i (on_store (at_conf (gc_unreferenced_objects E)))))) (\<lambda>gc.
       ret_op (JObj ([(''volume'', JStr (vs_name vol)), (''iqn'', JStr (vs_iqn vol))] @ gc_json gc))))))"

definition volume_snapshot_create :: "'s s3_env \<Rightarrow> admin_request \<Rightarrow> ('s admin_state, json) op" where
  "volume_snapshot_create E req =
     bind_op (get_volume (rq_volume req)) (\<lambda>vol.
     bind_op (require_quiesced (vs_name vol) (vs_iqn vol) (rq_force req)) (\<lambda>_.
     bind_op (get_store vol) (\<lambda>i st.
       let sid = (case or_else (rq_id req) (rq_name req) of Some x \<Rightarrow> x | None \<Rightarrow> ''snap-'' @ dec (e_clock E (ad_svc st))) in
       bind_op (str_err (\<lambda>e. ''flush write cache: '' @ e) (on_vol i (bs_flush (vol_ops E)))) (\<lambda>_.
       bind_op (invalidate_pool (vs_name vol)) (\<lambda>_.
       bind_op (str_err id (on_vol i (on_store (at_conf (\<lambda>c. snapshot_create E c sid (vs_name vol)))))) (\<lambda>manifest.
         ret_op (JObj [(''volume'', JStr (vs_name vol)), (''snapshot'', manifest_json manifest)])))) st)))"

definition volume_snapshot_list :: "'s s3_env \<Rightarrow> string option \<Rightarrow> ('s admin_state, json) op" where
  "volume_snapshot_list E selector =
     bind_op (get_volume selector) (\<lambda>vol.
     bind_op (get_store vol) (\<lambda>i.
     bind_op (str_err id (on_vol i (on_store (at_conf (snapshot_list E))))) (\<lambda>ms.
       ret_op (JObj [(''volume'', JStr (vs_name vol)), (''storage'', JStr (vs_storage vol)),
         (''snapshots'', JArr (map manifest_json ms)), (''count'', jnum (length ms))]))))"

definition require_id :: "admin_request \<Rightarrow> ('s admin_state, string) op" where
  "require_id req = (case rq_id req of None \<Rightarrow> err_op (Other ''snapshot id is required'') | Some x \<Rightarrow> ret_op x)"

definition volume_snapshot_delete :: "'s s3_env \<Rightarrow> admin_request \<Rightarrow> ('s admin_state, json) op" where
  "volume_snapshot_delete E req =
     bind_op (get_volume (rq_volume req)) (\<lambda>vol.
     bind_op (require_id req) (\<lambda>sid.
     bind_op (get_store vol) (\<lambda>i.
     bind_op (str_err id (on_vol i (on_store (at_conf (\<lambda>c. snapshot_delete E c sid))))) (\<lambda>gc.
       ret_op (JObj [(''volume'', JStr (vs_name vol)), (''id'', JStr sid), (''gc'', JObj (gc_json gc))])))))"

definition volume_snapshot_restore :: "'s s3_env \<Rightarrow> admin_request \<Rightarrow> ('s admin_state, json) op" where
  "volume_snapshot_restore E req =
     bind_op (get_volume (rq_volume req)) (\<lambda>vol.
     bind_op (require_quiesced (vs_name vol) (vs_iqn vol) (rq_force req)) (\<lambda>_.
     bind_op (require_id req) (\<lambda>sid.
     bind_op (get_store vol) (\<lambda>i.
     bind_op (str_err (\<lambda>e. ''discard write cache: '' @ e) (on_vol i discard_dirty)) (\<lambda>_.
     bind_op (invalidate_pool (vs_name vol)) (\<lambda>_.
     bind_op (str_err id (on_vol i (on_store (snapshot_restore E sid)))) (\<lambda>stats.
     bind_op (invalidate_pool (vs_name vol)) (\<lambda>_.
     bind_op (set_summary (vs_name vol) (\<lambda>v. v\<lparr>vs_capacity := rs_capacity stats\<rparr>)) (\<lambda>_.
       ret_op (JObj [(''volume'', JStr (vs_name vol)), (''id'', JStr sid),
         (''restore'', JObj [(''pointers_written'', jnum (rs_pointers_written stats)),
            (''pointers_deleted'', jnum (rs_pointers_deleted stats)), (''capacity'', jnum (rs_capacity stats))])]))))))))))"

definition volume_snapshot_clone :: "'s s3_env \<Rightarrow> admin_request \<Rightarrow> ('s admin_state, json) op" where
  "volume_snapshot_clone E req =
     bind_op (get_volume (rq_volume req)) (\<lambda>src.
     bind_op (get_volume (rq_to req)) (\<lambda>dst.
       if vs_name src = vs_name dst then err_op (Other ''clone source and destination must differ'')
       else
         bind_op (require_id req) (\<lambda>sid.
         bind_op (get_store src) (\<lambda>i.
         bind_op (get_store dst) (\<lambda>j.
         bind_op (str_err (\<lambda>e. ''flush source write cache: '' @ e) (on_vol i (bs_flush (vol_ops E)))) (\<lambda>_.
         bind_op (str_err (\<lambda>e. ''discard dest write cache: '' @ e) (on_vol j discard_dirty)) (\<lambda>_.
         bind_op (invalidate_pool (vs_name dst)) (\<lambda>_.
         bind_op (str_err id (\<lambda>st. on_vol j (on_store (snapshot_clone_into E (conf_at i st) sid)) st)) (\<lambda>stats.
         bind_op (\<lambda>st. set_summary (vs_name dst) (\<lambda>v. v\<lparr>vs_capacity := bs_capacity (world_ops E j) st\<rparr>) st) (\<lambda>_.
           ret_op (JObj [(''from'', JStr (vs_name src)), (''to'', JStr (vs_name dst)), (''id'', JStr sid),
             (''clone'', JObj [(''pointers_written'', jnum (cl_pointers_written stats)),
                (''objects_copied'', jnum (cl_objects_copied stats))])])))))))))))"

definition migrate_note :: string where
  "migrate_note = ''set volumes[].storage = '' @ [CHR 34] @ ''cow'' @ [CHR 34] @
     '' before next restart; legacy chunks were deleted as they migrated''"

text \<open>After a failed migration the volume stays locked.\<close>

definition volume_migrate_cow :: "'s s3_env \<Rightarrow> string option \<Rightarrow> ('s admin_state, json) op" where
  "volume_migrate_cow E selector =
     bind_op (get_volume selector) (\<lambda>vol.
     bind_op (require_quiesced (vs_name vol) (vs_iqn vol) False) (\<lambda>_.
     bind_op (get_store vol) (\<lambda>i st.
       if s3_storage (conf_at i st) \<noteq> Legacy then (Err (Other (''volume '' @ vs_name vol @ '' is already storage=cow'')), st)
       else
         bind_op (invalidate_pool (vs_name vol)) (\<lambda>_.
         bind_op (upd_vol i (wc_lock_io (s3_ops E))) (\<lambda>_.
         bind_op (str_err (\<lambda>e. e @ '' (volume remains I/O-locked; re-run migrate-cow to resume, or restart the daemon to auto-resume)'')
             (on_vol i (on_store (migrate_to_cow E)))) (\<lambda>stats.
         bind_op (upd_vol i wc_unlock_io) (\<lambda>_.
         bind_op (set_summary (vs_name vol) (\<lambda>v. v\<lparr>vs_storage := storage_as_str Cow\<rparr>)) (\<lambda>_.
           ret_op (JObj [(''volume'', JStr (vs_name vol)),
             (''migrate'', JObj [(''chunks_migrated'', jnum (mg_chunks_migrated stats)),
                (''chunks_deleted'', jnum (mg_chunks_deleted stats)), (''note'', JStr migrate_note)]),
             (''storage'', JStr ''cow''), (''io_locked'', JBool False)])))))) st)))"

definition volume_grow :: "'s admin_env \<Rightarrow> string option \<Rightarrow> json option \<Rightarrow> ('s admin_state, json) op" where
  "volume_grow A selector capacity =
     bind_op (of_sum (parse_required_max_bytes (ae_bytesize A) capacity)) (\<lambda>new_capacity.
       if new_capacity = 0 then err_op (Other ''capacity must be greater than 0'')
       else
         bind_op (get_volume selector) (\<lambda>vol.
         bind_op (get_store vol) (\<lambda>i st.
           let old_capacity = bs_capacity (world_ops (ae_s3 A) i) st;
               reply = (\<lambda>changed note. JObj [(''volume'', JStr (vs_name vol)), (''iqn'', JStr (vs_iqn vol)),
                 (''old_capacity'', jnum old_capacity), (''new_capacity'', jnum new_capacity), (''changed'', JBool changed),
                 (''note'', JStr note)])
           in if new_capacity < old_capacity then
                (Err (Other (''cannot shrink capacity from '' @ dec old_capacity @ '' to '' @ dec new_capacity)), st)
              else if new_capacity = old_capacity then (Ok (reply False ''capacity unchanged''), st)
              else
                bind_op (str_err id (on_vol i (bs_set_capacity (vol_ops (ae_s3 A)) new_capacity))) (\<lambda>_.
                bind_op (set_summary (vs_name vol) (\<lambda>v. v\<lparr>vs_capacity := new_capacity\<rparr>)) (\<lambda>_ st1.
                  (Ok (reply True ''SCSI READ CAPACITY updates immediately; initiator may need a device rescan''),
                   st1\<lparr>ad_sessions := (ad_sessions st1)\<lparr>sk_metrics :=
                     set_volume_capacity \<lparr>vl_volume = vs_name vol, vl_iqn = vs_iqn vol\<rparr> new_capacity (sk_metrics (ad_sessions st1))\<rparr>\<rparr>))) st)))"

definition probe_s3 :: "'s admin_env \<Rightarrow> nat \<Rightarrow> ('s admin_state, json) op" where
  "probe_s3 A latency_ms st =
     (case as_s3_bucket (ad_snapshot st) of
        None \<Rightarrow> (Ok (JObj [(''ok'', JBool False), (''error'', JStr ''s3.bucket is not configured'')]), st)
      | Some bucket \<Rightarrow>
          (let endpoint = (''endpoint'', jopt JStr (as_s3_endpoint (ad_snapshot st)));
               latency = (''latency_ms'', jnum latency_ms)
           in case on_service (ae_head A bucket) st of
                (Ok _, st') \<Rightarrow> (Ok (JObj [(''ok'', JBool True), (''bucket'', JStr bucket), endpoint, latency]), st')
              | (Err e, st') \<Rightarrow>
                  (Ok (JObj [(''ok'', JBool False), (''bucket'', JStr bucket), endpoint, (''error'', JStr (store_error_display e)), latency]), st')
              | (Panic, st') \<Rightarrow> (Panic, st')))"

definition health_json :: "'s admin_env \<Rightarrow> nat \<Rightarrow> ('s admin_state, json) op" where
  "health_json A latency_ms =
     bind_op (probe_s3 A latency_ms) (\<lambda>s3 st.
       let snap = ad_snapshot st in
       (Ok (JObj [(''status'', JStr (if json_get ''ok'' s3 = Some (JBool True) then ''ok'' else ''degraded'')),
          (''uptime_secs'', jnum (uptime_secs st)), (''uptime'', JStr (format_duration (uptime_secs st))),
          (''bind'', JStr (as_bind snap)), (''portals'', JArr (map JStr (as_portals snap))), (''instance'', jopt JStr (as_instance snap)),
          (''volumes'', jnum (length (as_volumes snap))), (''iscsi'', iscsi_json st), (''cache'', cache_json st), (''s3'', s3)]), st))"

section \<open>Reload\<close>

record rejected_change =
  rc_field :: string
  rc_reason :: string

record reload_result =
  rr_applied :: "string list"
  rr_rejected :: "rejected_change list"
  rr_warnings :: "string list"
  rr_bind_unchanged :: bool

definition volume_changed :: "volume_summary \<Rightarrow> volume_config \<Rightarrow> bool" where
  "volume_changed cur vol \<longleftrightarrow>
     vs_name cur \<noteq> vc_name vol \<or> vs_iqn cur \<noteq> vc_iqn vol \<or> vs_prefix cur \<noteq> trim_slashes (vc_prefix vol) \<or>
     vs_capacity cur \<noteq> vc_capacity vol \<or> vs_chunk_size cur \<noteq> vc_chunk_size vol \<or>
     vs_compression cur \<noteq> compression_as_str (vc_compression vol) \<or> vs_storage cur \<noteq> storage_as_str (vc_storage vol) \<or>
     vs_write_cache cur \<noteq> write_cache_as_str (wcc_mode (vc_write_cache vol)) \<or>
     vs_write_cache_max_bytes cur \<noteq> wcc_max_bytes (vc_write_cache vol) \<or> vs_write_buffer_max_bytes cur \<noteq> vc_write_buffer_max vol"

definition volumes_structurally_changed :: "admin_snapshot \<Rightarrow> config \<Rightarrow> bool" where
  "volumes_structurally_changed current new_cfg \<longleftrightarrow>
     length (as_volumes current) \<noteq> length (cf_volumes new_cfg) \<or>
     list_ex (\<lambda>(cur, vol). volume_changed cur vol) (zip (as_volumes current) (cf_volumes new_cfg))"

definition new_portals :: "admin_snapshot \<Rightarrow> config \<Rightarrow> string list" where
  "new_portals current new_cfg =
     (if cf_portals new_cfg \<noteq> [] then cf_portals new_cfg
      else case cf_advertise new_cfg of Some a \<Rightarrow> [a] | None \<Rightarrow> as_portals current)"

definition apply_safe_reload :: "admin_snapshot \<Rightarrow> config \<Rightarrow> chunk_cache \<Rightarrow> reload_result \<times> chunk_cache" where
  "apply_safe_reload current new_cfg cache =
     (let reject = (\<lambda>b field reason. if b then [\<lparr>rc_field = field, rc_reason = reason\<rparr>] else []);
          s3 = cf_s3 new_cfg;
          rejected =
            reject (cf_bind new_cfg \<noteq> as_bind current) ''bind'' ''listen address cannot change without restart'' @
            reject (volumes_structurally_changed current new_cfg) ''volumes''
              ''volume add/remove/iqn/prefix/geometry changes require restart'' @
            reject (sc_bucket s3 \<noteq> as_s3_bucket current \<or> sc_endpoint s3 \<noteq> as_s3_endpoint current \<or>
                sc_region s3 \<noteq> as_s3_region current \<or> sc_force_path_style s3 \<noteq> as_s3_force_path_style current)
              ''s3'' ''S3 bucket/endpoint/region/path-style changes require restart'' @
            reject (cf_performance_optimiser new_cfg \<noteq> as_performance_optimiser current) ''performance_optimiser''
              ''performance optimiser changes require restart'' @
            reject (cf_auth new_cfg \<noteq> None \<or> list_ex (\<lambda>v. vc_auth v \<noteq> None) (cf_volumes new_cfg) \<or>
                list_ex (\<lambda>v. vs_auth v \<noteq> ''none'') (as_volumes current))
              ''auth'' ''CHAP / ACL changes require restart'';
          resize = (cf_cache_max new_cfg \<noteq> as_cache_max_bytes current);
          cache' = (if resize then (if cf_cache_max new_cfg = 0 then cache_disable cache else cache_enable (Some (cf_cache_max new_cfg)) cache)
                    else cache);
          relabel = (new_portals current new_cfg \<noteq> as_portals current)
      in (\<lparr>rr_applied = (if resize then [''cache.max_bytes='' @ dec (cf_cache_max new_cfg)] else []) @
                         (if relabel then [''portals/advertise@stats''] else []),
           rr_rejected = rejected,
           rr_warnings = (if relabel then
             [''portals/advertise updated in stats labels only; SendTargets still uses addresses from process start until restart''] else []),
           rr_bind_unchanged = (cf_bind new_cfg = as_bind current)\<rparr>, cache'))"

definition config_error_display :: "config_error \<Rightarrow> string" where
  "config_error_display e = (case e of Figment m \<Rightarrow> ''config error: '' @ m | Invalid m \<Rightarrow> m)"

definition reload :: "'s admin_env \<Rightarrow> ('s admin_state, json) op" where
  "reload A st =
     (case ad_config_path st of
        None \<Rightarrow> (Err (Other ''no config file path (started without --config); cannot reload''), st)
      | Some path \<Rightarrow>
          (case load_for_reload (ae_extract A) path of
             Inl e \<Rightarrow> (Err (Other (config_error_display e)), st)
           | Inr new_cfg \<Rightarrow>
               (let (result, cache) = apply_safe_reload (ad_snapshot st) new_cfg (ad_cache st);
                    st' = st\<lparr>ad_cache := cache, ad_snapshot := (ad_snapshot st)\<lparr>as_cache_max_bytes := cc_max_bytes cache,
                            as_portals := new_portals (ad_snapshot st) new_cfg, as_instance := cf_instance new_cfg\<rparr>\<rparr>
                in (Ok (JObj [(''applied'', JArr (map JStr (rr_applied result))),
                      (''rejected'', JArr (map (\<lambda>c. JObj [(''field'', JStr (rc_field c)), (''reason'', JStr (rc_reason c))]) (rr_rejected result))),
                      (''warnings'', JArr (map JStr (rr_warnings result))), (''cache'', cache_json st')]), st'))))"

section \<open>Dispatch\<close>

text \<open>\<open>match handler { Ok(v) => ok(v), Err(e) => err(e) }\<close>.\<close>

definition answer :: "('s admin_state, json) op \<Rightarrow> ('s admin_state, json) op" where
  "answer m st =
     (case m st of
        (Ok v, st') \<Rightarrow> (Ok (json_ok v), st')
      | (Err e, st') \<Rightarrow> (Ok (json_err (store_error_display e)), st')
      | (Panic, st') \<Rightarrow> (Panic, st'))"

definition set_pool :: "(chunk_cache \<Rightarrow> chunk_cache) \<Rightarrow> ('s admin_state, json) op" where
  "set_pool f st =
     (let c = f (ad_cache st);
          st' = st\<lparr>ad_cache := c, ad_snapshot := (ad_snapshot st)\<lparr>as_cache_max_bytes := cc_max_bytes c\<rparr>\<rparr>
      in (Ok (cache_json st'), st'))"

definition dispatch :: "'s admin_env \<Rightarrow> nat \<Rightarrow> admin_request \<Rightarrow> ('s admin_state, json) op" where
  "dispatch A latency_ms req =
     (let op' = rq_op req; E = ae_s3 A; sel = rq_volume req in
      if op' = ''stats'' \<or> op' = ''cache.status'' then (\<lambda>st. (Ok (json_ok (stats_json st)), st))
      else if op' = ''cache.disable'' then answer (set_pool cache_disable)
      else if op' = ''cache.enable'' then
        answer (bind_op (of_sum (parse_optional_max_bytes (ae_bytesize A) (rq_max_bytes req))) (\<lambda>mb. set_pool (cache_enable mb)))
      else if op' = ''cache.set'' then
        answer (bind_op (of_sum (parse_required_max_bytes (ae_bytesize A) (rq_max_bytes req)))
          (\<lambda>mb. set_pool (if mb = 0 then cache_disable else cache_enable (Some mb))))
      else if op' = ''reload'' then answer (reload A)
      else if op' = ''volume.s3_stats'' then answer (volume_s3_stats E sel)
      else if op' = ''volume.list'' then (\<lambda>st. (Ok (json_ok (volume_list_json st)), st))
      else if op' = ''volume.copy'' then answer (volume_copy E sel (rq_to req) (rq_resume_from req))
      else if op' = ''volume.wipe'' then answer (volume_wipe E sel)
      else if op' = ''volume.gc'' then answer (volume_gc E sel)
      else if op' = ''volume.grow'' then answer (volume_grow A sel (rq_capacity req))
      else if op' = ''volume.sessions'' then (\<lambda>st. (Ok (json_ok (volume_sessions_json st sel)), st))
      else if op' = ''volume.snapshot.create'' then answer (volume_snapshot_create E req)
      else if op' = ''volume.snapshot.list'' then answer (volume_snapshot_list E sel)
      else if op' = ''volume.snapshot.delete'' then answer (volume_snapshot_delete E req)
      else if op' = ''volume.snapshot.restore'' then answer (volume_snapshot_restore E req)
      else if op' = ''volume.snapshot.clone'' then answer (volume_snapshot_clone E req)
      else if op' = ''volume.migrate_cow'' then answer (volume_migrate_cow E sel)
      else if op' = ''health'' then answer (health_json A latency_ms)
      else (\<lambda>st. (Ok (json_err (''unknown op: '' @ op')), st)))"

section \<open>Images\<close>

text \<open>
  The connection of a client: the bytes it still sends and what the read after them reports, the
  lines it received, the image bytes it received and takes, and which of the next lines it takes.
\<close>

record client =
  cn_body :: bytes
  cn_eof :: string
  cn_lines :: "json list"
  cn_pipe :: pipe
  cn_line_ok :: "bool list"

definition write_json_line :: "json \<Rightarrow> (client, unit) op" where
  "write_json_line v c =
     (case cn_line_ok c of
        False # oks \<Rightarrow> (Err (Other (''write: '' @ cn_eof c)), c\<lparr>cn_line_ok := oks\<rparr>)
      | oks \<Rightarrow> (Ok (), c\<lparr>cn_lines := cn_lines c @ [v], cn_line_ok := drop 1 oks\<rparr>))"

record image_prep =
  ip_volume_name :: string
  ip_iqn :: string
  ip_size :: nat
  ip_capacity :: nat
  ip_chunk_size :: nat
  ip_store :: nat

definition ensure_prefix_empty_for_seed :: "prefix_object_stats \<Rightarrow> string + unit" where
  "ensure_prefix_empty_for_seed stats =
     (if po_chunk_count stats > 0 then
        Inl (''volume is not empty: '' @ dec (po_chunk_count stats) @ '' chunk object(s) already exist under the prefix'')
      else Inr ())"

definition prep_of :: "'s s3_env \<Rightarrow> volume_summary \<Rightarrow> nat \<Rightarrow> nat \<Rightarrow> ('s admin_state, image_prep) op" where
  "prep_of E vol size' i st =
     (Ok \<lparr>ip_volume_name = vs_name vol, ip_iqn = vs_iqn vol, ip_size = size', ip_capacity = bs_capacity (world_ops E i) st,
          ip_chunk_size = bs_chunk_size (world_ops E i) st, ip_store = i\<rparr>, st)"

definition prepare_write_image :: "'s s3_env \<Rightarrow> admin_request \<Rightarrow> ('s admin_state, image_prep) op" where
  "prepare_write_image E req =
     (case rq_size req of
        None \<Rightarrow> err_op (Other ''size is required for volume.write_image'')
      | Some size' \<Rightarrow>
          if size' = 0 then err_op (Other ''size must be greater than 0'')
          else
            bind_op (get_volume (rq_volume req)) (\<lambda>vol.
            bind_op (get_store vol) (\<lambda>i st.
              let capacity = bs_capacity (world_ops E i) st in
              if size' > capacity then
                (Err (Other (''image size '' @ dec size' @ '' exceeds volume capacity '' @ dec capacity)), st)
              else
                bind_op require_bucket (\<lambda>_.
                bind_op (str_err id (on_service (list_prefix_stats E (vs_prefix vol)))) (\<lambda>stats.
                bind_op (of_sum (ensure_prefix_empty_for_seed stats)) (\<lambda>_. prep_of E vol size' i))) st)))"

definition prepare_export :: "'s s3_env \<Rightarrow> admin_request \<Rightarrow> ('s admin_state, image_prep) op" where
  "prepare_export E req =
     bind_op (get_volume (rq_volume req)) (\<lambda>vol.
     bind_op (get_store vol) (\<lambda>i st.
       let capacity = bs_capacity (world_ops E i) st; size' = (case rq_size req of None \<Rightarrow> capacity | Some n \<Rightarrow> n) in
       if size' = 0 then (Err (Other ''size must be greater than 0''), st)
       else if size' > capacity then
         (Err (Other (''export size '' @ dec size' @ '' exceeds volume capacity '' @ dec capacity)), st)
       else prep_of E vol size' i st))"

definition ready_json :: "image_prep \<Rightarrow> json" where
  "ready_json p =
     json_ok (JObj [(''ready'', JBool True), (''volume'', JStr (ip_volume_name p)), (''iqn'', JStr (ip_iqn p)),
       (''size'', jnum (ip_size p)), (''capacity'', jnum (ip_capacity p)), (''chunk_size'', jnum (ip_chunk_size p))])"

definition seed_client :: "(bytes \<times> 's, 'a) op \<Rightarrow> (client \<times> 's, 'a) op" where
  "seed_client m x = (case m (cn_body (fst x), snd x) of (r, b, s) \<Rightarrow> (r, (fst x)\<lparr>cn_body := b\<rparr>, s))"

definition export_client :: "(pipe \<times> 's, 'a) op \<Rightarrow> (client \<times> 's, 'a) op" where
  "export_client m x = (case m (cn_pipe (fst x), snd x) of (r, p, s) \<Rightarrow> (r, (fst x)\<lparr>cn_pipe := p\<rparr>, s))"

text \<open>\<open>match f { Ok(r) => ok(json(r)), Err(e) => err(e) }\<close> as the last line.\<close>

definition last_line :: "('r \<Rightarrow> json) \<Rightarrow> (client \<times> 's, 'r) op \<Rightarrow> (client \<times> 's, unit) op" where
  "last_line f m x =
     (case m x of
        (Ok r, y) \<Rightarrow> on_fst (write_json_line (json_ok (f r))) y
      | (Err e, y) \<Rightarrow> on_fst (write_json_line (json_err (store_error_display e))) y
      | (Panic, y) \<Rightarrow> (Panic, y))"

definition with_prep ::
  "('s admin_state, image_prep) op \<Rightarrow> (image_prep \<Rightarrow> (client \<times> 's admin_state, unit) op) \<Rightarrow> (client \<times> 's admin_state, unit) op" where
  "with_prep m f x =
     (case on_snd m x of
        (Ok prep, y) \<Rightarrow> bind_op (on_fst (write_json_line (ready_json prep))) (\<lambda>_. f prep) y
      | (Err e, y) \<Rightarrow> on_fst (write_json_line (json_err (store_error_display e))) y
      | (Panic, y) \<Rightarrow> (Panic, y))"

definition handle_write_image :: "'s s3_env \<Rightarrow> admin_request \<Rightarrow> (client \<times> 's admin_state, unit) op" where
  "handle_write_image E req =
     with_prep (prepare_write_image E req) (\<lambda>prep.
       last_line (\<lambda>r. JObj [(''volume'', JStr (ip_volume_name prep)), (''iqn'', JStr (ip_iqn prep)),
           (''bytes_read'', jnum (si_bytes_read r)), (''bytes_stored'', jnum (si_bytes_stored r)),
           (''chunks_written'', jnum (si_chunks_written r)), (''zero_chunks_skipped'', jnum (si_zero_chunks_skipped r)),
           (''note'', JStr ''all-zero chunks were skipped (sparse); meta.json may already exist'')])
         (\<lambda>x. seed_client (seed_image_from_reader (world_ops E (ip_store prep)) (cn_eof (fst x)) (ip_size prep)) x))"

definition handle_export :: "'s s3_env \<Rightarrow> admin_request \<Rightarrow> (client \<times> 's admin_state, unit) op" where
  "handle_export E req =
     with_prep (prepare_export E req) (\<lambda>prep.
       last_line (\<lambda>r. JObj [(''volume'', JStr (ip_volume_name prep)), (''iqn'', JStr (ip_iqn prep)),
           (''bytes_sent'', jnum (ex_bytes_sent r)), (''chunks_read'', jnum (ex_chunks_read r))])
         (\<lambda>x. export_client (export_image_to_writer (world_ops E (ip_store prep)) (cn_eof (fst x)) (ip_size prep)) x))"

text \<open>\<open>decode\<close> is the JSON decoder of requests; the line was read from the socket.\<close>

definition handle_client ::
  "'s admin_env \<Rightarrow> (string \<Rightarrow> string + admin_request) \<Rightarrow> nat \<Rightarrow> string \<Rightarrow> (client \<times> 's admin_state, unit) op" where
  "handle_client A decode latency_ms line =
     (if str_trim line = [] then ret_op ()
      else case decode (str_trim line) of
        Inl e \<Rightarrow> err_op (Other (''bad request json: '' @ e))
      | Inr req \<Rightarrow>
          if rq_op req = ''volume.write_image'' then handle_write_image (ae_s3 A) req
          else if rq_op req = ''volume.export'' then handle_export (ae_s3 A) req
          else bind_op (on_snd (dispatch A latency_ms req)) (\<lambda>response. on_fst (write_json_line response)))"

end
