(* ===== verification/Frame.thy ===== *)
theory Frame
  imports Volume FormatProps
begin

text \<open>
  What an operation of one volume leaves alone. \<open>keeps K m\<close>: every run of \<open>m\<close>, also a failed one or a
  panic, moves the state along \<open>K\<close>. The relations below say that a volume changes only the objects under
  its own prefix of the bucket and only its own entries of the shared pool of cached chunks. They are shown
  for every operation of the S3 store (\<open>src/store/s3.rs\<close>), of the read cache (\<open>src/cache.rs\<close>) and of the
  write cache (\<open>src/write_cache.rs\<close>).
\<close>

named_theorems keeps_intro

definition keeps :: "('s \<Rightarrow> 's \<Rightarrow> bool) \<Rightarrow> ('s, 'a) op \<Rightarrow> bool" where
  "keeps K m \<longleftrightarrow> (\<forall>s. K\<^sup>*\<^sup>* s (snd (m s)))"

lemma keepsD: "keeps K m \<Longrightarrow> m s = (r, s') \<Longrightarrow> K\<^sup>*\<^sup>* s s'"
  unfolding keeps_def by (metis snd_conv)

lemma keepsI: "(\<And>s r s'. m s = (r, s') \<Longrightarrow> K\<^sup>*\<^sup>* s s') \<Longrightarrow> keeps K m"
  unfolding keeps_def by (metis prod.collapse)

lemma keeps_ret [keeps_intro]: "keeps K (ret_op a)"
  by (simp add: keeps_def ret_op_def)

lemma keeps_err [keeps_intro]: "keeps K (err_op e)"
  by (simp add: keeps_def err_op_def)

lemma keeps_panic [keeps_intro]: "keeps K panic_op"
  by (simp add: keeps_def panic_op_def)

lemma keeps_of_result [keeps_intro]: "keeps K (of_result r)"
  by (simp add: keeps_def of_result_def)

lemma keeps_same [keeps_intro]: "keeps K (\<lambda>s. (f s, s))"
  by (simp add: keeps_def)

lemma keeps_bind [keeps_intro]:
  assumes "keeps K m" and "\<And>a. keeps K (f a)"
  shows "keeps K (bind_op m f)"
proof (rule keepsI)
  fix s r s' assume b: "bind_op m f s = (r, s')"
  obtain q s1 where m: "m s = (q, s1)" by fastforce
  have "K\<^sup>*\<^sup>* s s1" using assms(1) m by (rule keepsD)
  moreover have "K\<^sup>*\<^sup>* s1 s'"
    using b m keepsD [OF assms(2)] by (cases q) (auto simp: bind_op_def)
  ultimately show "K\<^sup>*\<^sup>* s s'" by (rule rtranclp_trans)
qed

lemma keeps_if [keeps_intro]: "(b \<Longrightarrow> keeps K m) \<Longrightarrow> (\<not> b \<Longrightarrow> keeps K n) \<Longrightarrow> keeps K (if b then m else n)"
  by simp

lemma keeps_option [keeps_intro]:
  "(x = None \<Longrightarrow> keeps K m) \<Longrightarrow> (\<And>a. x = Some a \<Longrightarrow> keeps K (f a)) \<Longrightarrow> keeps K (case x of None \<Rightarrow> m | Some a \<Rightarrow> f a)"
  by (cases x) simp_all

lemma keeps_prod [keeps_intro]: "(\<And>a b. keeps K (f a b)) \<Longrightarrow> keeps K (case x of (a, b) \<Rightarrow> f a b)"
  by (cases x) simp

lemma keeps_let [keeps_intro]: "(\<And>a. keeps K (f a)) \<Longrightarrow> keeps K (let a = x in f a)"
  by (simp add: Let_def)

lemma keeps_storage [keeps_intro]:
  "keeps K m \<Longrightarrow> keeps K n \<Longrightarrow> keeps K (case x of Legacy \<Rightarrow> m | Cow \<Rightarrow> n)"
  by (cases x) simp_all

lemma keeps_sum [keeps_intro]:
  "(\<And>a. keeps K (f a)) \<Longrightarrow> (\<And>a. keeps K (g a)) \<Longrightarrow> keeps K (case x of Inl a \<Rightarrow> f a | Inr a \<Rightarrow> g a)"
  by (cases x) simp_all

lemma keeps_fold [keeps_intro]: "(\<And>b x. keeps K (f b x)) \<Longrightarrow> keeps K (fold_op f b xs)"
  by (induction xs arbitrary: b) (auto intro: keeps_intro)

lemma keeps_guard [keeps_intro]: "keeps K m \<Longrightarrow> keeps K (guard_op r m)"
  by (cases r) (simp_all add: keeps_def guard_op_def)

lemma keeps_ignore [keeps_intro]:
  assumes "keeps K m"
  shows "keeps K (ignore_err m)"
proof (rule keepsI)
  fix s r s' assume "ignore_err m s = (r, s')"
  then obtain q where "m s = (q, s')"
    by (auto simp: ignore_err_def split: prod.splits result.splits)
  then show "K\<^sup>*\<^sup>* s s'" by (rule keepsD [OF assms])
qed

lemma keeps_seen: "(\<And>x. keeps K (f x)) \<Longrightarrow> keeps K (\<lambda>s. f (h s) s)"
  by (simp add: keeps_def)

lemma read_loop_bind:
  "read_loop cs fetch off n k buf =
     (if k < n then
        if cs = 0 then panic_op
        else
          bind_op (fetch ((off + k) div cs) ((off + k) mod cs) (off + k) (min (cs - (off + k) mod cs) (n - k)))
            (\<lambda>p. read_loop cs fetch off n (k + min (cs - (off + k) mod cs) (n - k)) (patch buf k p))
      else ret_op buf)"
  by (rule ext) (subst read_loop.simps, simp add: bind_op_def panic_op_def ret_op_def Let_def split: prod.splits result.splits)

lemma write_loop_bind:
  "write_loop cs store off data k =
     (if k < length data then
        if cs = 0 then panic_op
        else
          bind_op (store ((off + k) div cs) ((off + k) mod cs) (off + k) (take (min (cs - (off + k) mod cs) (length data - k)) (drop k data)))
            (\<lambda>_. write_loop cs store off data (k + min (cs - (off + k) mod cs) (length data - k)))
      else ret_op ())"
  by (rule ext) (subst write_loop.simps, simp add: bind_op_def panic_op_def ret_op_def Let_def split: prod.splits result.splits)

lemma keeps_read_loop [keeps_intro]:
  assumes "\<And>idx wi pos tk. keeps K (fetch idx wi pos tk)"
  shows "keeps K (read_loop cs fetch off n k buf)"
proof (induction "n - k" arbitrary: k buf rule: less_induct)
  case less
  then show ?case
    by (subst read_loop_bind) (intro keeps_intro assms less piece_progress, simp_all)
qed

lemma keeps_write_loop [keeps_intro]:
  assumes "\<And>idx wi pos p. keeps K (store idx wi pos p)"
  shows "keeps K (write_loop cs store off data k)"
proof (induction "length data - k" arbitrary: k rule: less_induct)
  case less
  then show ?case
    by (subst write_loop_bind) (intro keeps_intro assms less piece_progress, simp_all)
qed

section \<open>The bucket\<close>

text \<open>Only objects under the prefix \<open>p\<close> change.\<close>

definition own_only :: "('s \<Rightarrow> string \<rightharpoonup> bytes) \<Rightarrow> string \<Rightarrow> 's \<Rightarrow> 's \<Rightarrow> bool" where
  "own_only objs p s s' \<longleftrightarrow> (\<forall>k. \<not> is_prefix (p @ ''/'') k \<longrightarrow> objs s' k = objs s k)"

lemma own_only_trancl: "(own_only objs p)\<^sup>*\<^sup>* s s' \<Longrightarrow> own_only objs p s s'"
  by (induction rule: rtranclp_induct) (auto simp: own_only_def)

lemma own_same: "objs (snd (m s)) = objs s \<Longrightarrow> (own_only objs p)\<^sup>*\<^sup>* s (snd (m s))"
  by (rule r_into_rtranclp) (simp add: own_only_def)

lemma own_keys [simp]:
  "is_prefix (s3_prefix c @ ''/'') (flat_meta_key c)" "is_prefix (s3_prefix c @ ''/'') (live_meta_key c)"
  "is_prefix (s3_prefix c @ ''/'') (meta_key c)" "is_prefix (s3_prefix c @ ''/'') (legacy_chunk_key c i)"
  "is_prefix (s3_prefix c @ ''/'') (legacy_flat_chunk_key c i)" "is_prefix (s3_prefix c @ ''/'') (chunk_key c i)"
  "is_prefix (s3_prefix c @ ''/'') (object_key c h)" "is_prefix (s3_prefix c @ ''/'') (migrating_key c)"
  "is_prefix (s3_prefix c @ ''/'') (snapshot_manifest_key c sid)" "is_prefix (s3_prefix c @ ''/'') (snapshot_chunks_key c sid)"
  "is_prefix (s3_prefix c @ ''/'') (live_pointer_key c i)"
  by (simp_all add: is_prefix_iff flat_meta_key_def live_meta_key_def meta_key_def legacy_chunk_key_def legacy_flat_chunk_key_def
      chunk_key_def chunks_prefix_def object_key_def migrating_key_def snapshot_manifest_key_def snapshot_chunks_key_def
      snapshot_prefix_def live_pointer_key_def split: storage_mode.splits)

lemma keeps_own:
  assumes "\<And>ob. hoare (\<lambda>s. objs s = ob) m (Q ob) (R ob)"
    and "\<And>ob a s. Q ob a s \<Longrightarrow> near ob (objs s)" and "\<And>ob s. R ob s \<Longrightarrow> near ob (objs s)"
    and "\<And>ob ob' k. near ob ob' \<Longrightarrow> \<not> is_prefix (p @ ''/'') k \<Longrightarrow> ob' k = ob k"
  shows "keeps (own_only objs p) m"
proof (rule keepsI)
  fix s r s' assume m: "m s = (r, s')"
  have "post (Q (objs s)) (R (objs s)) (m s)" using assms(1) by (simp add: hoare_def)
  then have "near (objs s) (objs s')" using m assms(2,3) by (cases r) auto
  then show "(own_only objs p)\<^sup>*\<^sup>* s s'"
    using assms(4) by (intro r_into_rtranclp) (simp add: own_only_def)
qed

lemma keeps_bind_result:
  assumes "keeps K m" and "\<And>s a s'. m s = (Ok a, s') \<Longrightarrow> keeps K (f a)"
  shows "keeps K (bind_op m f)"
proof (rule keepsI)
  fix s r s' assume b: "bind_op m f s = (r, s')"
  obtain q s1 where m: "m s = (q, s1)" by fastforce
  have "K\<^sup>*\<^sup>* s s1" using assms(1) m by (rule keepsD)
  moreover have "K\<^sup>*\<^sup>* s1 s'"
    using b m keepsD [OF assms(2)] by (cases q) (auto simp: bind_op_def)
  ultimately show "K\<^sup>*\<^sup>* s s'" by (rule rtranclp_trans)
qed

lemma keeps_fold_in: "(\<And>b x. x \<in> set xs \<Longrightarrow> keeps K (f b x)) \<Longrightarrow> keeps K (fold_op f b xs)"
  by (induction xs arbitrary: b) (simp_all add: keeps_ret keeps_bind)

locale s3_bucket =
  fixes E :: "('s, 'm) s3_env_scheme" and objs :: "'s \<Rightarrow> string \<rightharpoonup> bytes"
  assumes laws: "s3_laws E objs"
begin

lemmas bucket_laws = s3_lawsD(1-4) [OF laws]

lemma get_keeps [keeps_intro]: "keeps (own_only objs p) (get_bytes E k)"
  by (rule keeps_own [OF get_bytes_hoare [OF bucket_laws(1)], where near = "\<lambda>ob ob'. ob' = ob"]) simp_all

lemma put_keeps [keeps_intro]:
  assumes "is_prefix (p @ ''/'') k"
  shows "keeps (own_only objs p) (put_bytes E k b ct im)"
  by (rule keeps_own [OF put_bytes_hoare [OF bucket_laws(2)], where near = "\<lambda>ob ob'. ob' = ob \<or> ob' = ob(k \<mapsto> b)"])
    (use assms in auto)

lemma delete_keeps [keeps_intro]:
  assumes "is_prefix (p @ ''/'') k"
  shows "keeps (own_only objs p) (delete_object_key E k)"
  by (rule keeps_own [OF delete_object_hoare [OF bucket_laws(3)], where near = "\<lambda>ob ob'. ob' = ob \<or> ob' = ob(k := None)"])
    (use assms in auto)

lemma list_objects_keeps [keeps_intro]: "keeps (own_only objs p) (list_objects E q)"
  by (rule keeps_own [OF list_objects_hoare [OF bucket_laws(4)], where near = "\<lambda>ob ob'. ob' = ob"]) simp_all

lemma list_keys_keeps [keeps_intro]: "keeps (own_only objs p) (list_keys E q)"
  unfolding list_keys_def by (intro keeps_intro)

lemma list_keys_prefix:
  assumes "list_keys E q s = (Ok ks, s')" and "k \<in> set ks"
  shows "is_prefix q k"
  using list_keys_hoare [OF bucket_laws(4), of "objs s" q] assms by (auto simp: hoare_def)

lemma list_chunk_indices_keeps [keeps_intro]: "keeps (own_only objs p) (list_chunk_indices E q)"
  unfolding list_chunk_indices_def by (intro keeps_intro)

lemma get_meta_keeps [keeps_intro]: "keeps (own_only objs p) (get_meta_at E k)"
proof (rule keepsI)
  fix s r s' assume m: "get_meta_at E k s = (r, s')"
  have "objs (snd (e_get E k s)) = objs s" using bucket_laws(1) by (simp add: get_law_def)
  moreover have "s' = snd (e_get E k s)"
    using m by (auto simp: get_meta_at_def split: prod.splits reply.splits get_reply.splits sum.splits if_splits)
  ultimately show "(own_only objs p)\<^sup>*\<^sup>* s s'" by (intro r_into_rtranclp) (simp add: own_only_def)
qed

lemma put_meta_keeps [keeps_intro]: "is_prefix (p @ ''/'') k \<Longrightarrow> keeps (own_only objs p) (put_meta_at E k meta)"
  using put_keeps [of p k]
  by (cases "e_meta_enc E meta") (simp_all add: keeps_def put_meta_at_def)

end

section \<open>The S3 store\<close>

context s3_bucket
begin

lemma get_legacy_chunk_keeps [keeps_intro]: "keeps (own_only objs p) (get_legacy_chunk E c i)"
  unfolding get_legacy_chunk_def by (intro keeps_intro)

lemma get_chunk_keeps [keeps_intro]: "keeps (own_only objs p) (get_chunk E c i)"
  unfolding get_chunk_def by (intro keeps_intro)

lemma put_chunk_keeps [keeps_intro]: "keeps (own_only objs (s3_prefix c)) (put_chunk E c i x im)"
  unfolding put_chunk_def by (intro keeps_intro own_keys)

lemma delete_chunk_keeps [keeps_intro]: "keeps (own_only objs (s3_prefix c)) (delete_chunk_object E c i)"
  unfolding delete_chunk_object_def by (intro keeps_intro own_keys)

lemma load_for_patch_keeps [keeps_intro]: "keeps (own_only objs p) (load_for_patch E c i wi n)"
  unfolding load_for_patch_def by (intro keeps_intro)

lemma cas_loop_keeps [keeps_intro]: "keeps (own_only objs (s3_prefix c)) (cas_loop E c n i wi x)"
proof -
  have "(own_only objs (s3_prefix c))\<^sup>*\<^sup>* s (snd (cas_loop E c n i wi x s))" for s
  proof (induction n arbitrary: s rule: less_induct)
    case (less n)
    obtain r s1 where l: "load_for_patch E c i wi (length x) s = (r, s1)" by fastforce
    have s1: "(own_only objs (s3_prefix c))\<^sup>*\<^sup>* s s1" using load_for_patch_keeps l by (rule keepsD)
    show ?case
    proof (cases r)
      case (Ok y)
      obtain chunk etag where y: "y = (chunk, etag)" by fastforce
      obtain q s2 where p: "put_chunk E c i (patch chunk wi x) etag s1 = (q, s2)" by fastforce
      have s2: "(own_only objs (s3_prefix c))\<^sup>*\<^sup>* s s2"
        using s1 keepsD [OF put_chunk_keeps p] by (rule rtranclp_trans)
      moreover have "(own_only objs (s3_prefix c))\<^sup>*\<^sup>* s (snd (cas_loop E c (n - 1) i wi x s2))" if "0 < n"
        using s2 less [of "n - 1" s2] that by (meson diff_less less_numeral_extra(1) rtranclp_trans)
      ultimately show ?thesis
        using s1 by (simp add: cas_loop.simps l Ok y p split: result.splits)
    qed (use s1 l in \<open>simp_all add: cas_loop.simps\<close>)
  qed
  then show ?thesis by (simp add: keeps_def)
qed

lemma s3_fetch_keeps [keeps_intro]: "keeps (own_only objs p) (s3_fetch E c i wi pos tk)"
  unfolding s3_fetch_def by (intro keeps_intro)

lemma s3_store_piece_keeps [keeps_intro]: "keeps (own_only objs (s3_prefix c)) (s3_store_piece E c i wi pos x)"
  unfolding s3_store_piece_def by (intro keeps_intro)

lemma read_pointer_keeps [keeps_intro]: "keeps (own_only objs p) (read_pointer_hash E c i)"
  unfolding read_pointer_hash_def by (intro keeps_intro)

lemma put_pointer_keeps [keeps_intro]: "keeps (own_only objs (s3_prefix c)) (put_pointer E c i h)"
  unfolding put_pointer_def by (intro keeps_intro own_keys)

lemma get_object_keeps [keeps_intro]: "keeps (own_only objs p) (get_object E c h)"
  unfolding get_object_def by (intro keeps_intro)

lemma present_at_keeps [keeps_intro]: "keeps (own_only objs p) (present_at E c)"
  unfolding present_at_def by (intro keeps_intro)

lemma collect_live_refs_keeps [keeps_intro]: "keeps (own_only objs p) (collect_live_refs E c)"
  unfolding collect_live_refs_def collect_ref_def by (intro keeps_intro)

lemma put_manifest_keeps [keeps_intro]: "keeps (own_only objs (s3_prefix c)) (put_manifest E c sid m)"
  unfolding put_manifest_def by (intro keeps_intro own_keys)

lemma fill_snapshot_keeps [keeps_intro]: "keeps (own_only objs (s3_prefix c)) (fill_snapshot E c sid m)"
  unfolding fill_snapshot_def by (intro keeps_intro own_keys)

lemma snapshot_create_keeps [keeps_intro]: "keeps (own_only objs (s3_prefix c)) (snapshot_create E c sid v)"
  unfolding snapshot_create_def by (intro keeps_intro keeps_seen [where h = "\<lambda>s. e_clock E s"])

lemma snapshot_list_keeps [keeps_intro]: "keeps (own_only objs p) (snapshot_list E c)"
  unfolding snapshot_list_def load_manifest_def by (intro keeps_intro)

lemma snapshot_get_keeps [keeps_intro]: "keeps (own_only objs p) (snapshot_get E c sid)"
  unfolding snapshot_get_def by (intro keeps_intro)

lemma load_snapshot_refs_keeps [keeps_intro]: "keeps (own_only objs p) (load_snapshot_refs E c sid)"
  unfolding load_snapshot_refs_def by (intro keeps_intro)

lemma mark_live_keeps [keeps_intro]: "keeps (own_only objs p) (mark_live E c r i)"
  unfolding mark_live_def by (intro keeps_intro)

lemma mark_snapshot_keeps [keeps_intro]: "keeps (own_only objs p) (mark_snapshot E c r m)"
proof (rule keepsI)
  fix s q s' assume m: "mark_snapshot E c r m s = (q, s')"
  have "s' = snd (load_snapshot_refs E c (sm_id m) s)"
    using m by (auto simp: mark_snapshot_def split: prod.splits result.splits)
  then show "(own_only objs p)\<^sup>*\<^sup>* s s'"
    using load_snapshot_refs_keeps by (simp add: keeps_def)
qed

lemma sweep_keeps [keeps_intro]: "keeps (own_only objs p) (sweep_key E (p @ ''/objects/'') r n k)"
proof -
  have "is_prefix (p @ ''/'') k" if "strip_prefix (p @ ''/objects/'') k = Some rel" for rel
    using that strip_prefix_Some [of "p @ ''/objects/''" k rel] by (simp add: is_prefix_iff)
  then show ?thesis unfolding sweep_key_def by (intro keeps_intro)
qed

lemma gc_keeps [keeps_intro]: "keeps (own_only objs (s3_prefix c)) (gc_unreferenced_objects E c)"
  unfolding gc_unreferenced_objects_def by (intro keeps_intro)

lemma snapshot_delete_keeps [keeps_intro]: "keeps (own_only objs (s3_prefix c)) (snapshot_delete E c sid)"
  unfolding snapshot_delete_def by (intro keeps_intro own_keys)

lemma delete_prefix_keeps [keeps_intro]:
  assumes "is_prefix (p @ ''/'') q"
  shows "keeps (own_only objs p) (delete_prefix E q)"
proof -
  have "is_prefix (p @ ''/'') k" if "list_keys E q s = (Ok ks, s')" "k \<in> set ks" for s ks s' k
    using assms list_keys_prefix [OF that] by (auto simp: is_prefix_iff)
  then show ?thesis
    unfolding delete_prefix_def by (intro keeps_bind_result keeps_fold_in keeps_intro)
qed

lemma wipe_objects_keeps [keeps_intro]: "keeps (own_only objs (s3_prefix c)) (wipe_objects_and_snapshots E c)"
  unfolding wipe_objects_and_snapshots_def by (intro keeps_intro) (simp_all add: is_prefix_iff)

lemma migrate_chunk_keeps [keeps_intro]: "keeps (own_only objs (s3_prefix c)) (migrate_chunk E c n i)"
  unfolding migrate_chunk_def migrate_body_def by (intro keeps_intro own_keys)

lemma clone_ref_keeps [keeps_intro]: "keeps (own_only objs (s3_prefix c)) (clone_ref E src c st r)"
  unfolding clone_ref_def by (intro keeps_intro own_keys)

lemma install_refs_keeps [keeps_intro]: "keeps (own_only objs (s3_prefix c)) (install_refs E refs c)"
  unfolding install_refs_def by (intro keeps_intro)

lemma drop_others_keeps [keeps_intro]: "keeps (own_only objs (s3_prefix c)) (drop_others E ks live c)"
  unfolding drop_others_def by (intro keeps_intro)

end

text \<open>
  Operations whose text mentions their initial state. \<open>inert P K\<close>: outside \<open>P\<close> the relation asks nothing.
\<close>

definition inert :: "('s \<Rightarrow> bool) \<Rightarrow> ('s \<Rightarrow> 's \<Rightarrow> bool) \<Rightarrow> bool" where
  "inert P K \<longleftrightarrow> (\<forall>s s'. \<not> P s \<longrightarrow> K s s')"

lemma keeps_capture:
  assumes "inert P K" and "\<And>s. P s \<Longrightarrow> keeps K (\<lambda>x. f s x)"
  shows "keeps K (\<lambda>s. f s s)"
  unfolding keeps_def
proof
  fix s
  show "K\<^sup>*\<^sup>* s (snd (f s s))"
  proof (cases "P s")
    case True
    then show ?thesis using assms(2) by (simp add: keeps_def)
  next
    case False
    then have "K s (snd (f s s))" using assms(1) by (simp add: inert_def)
    then show ?thesis by (rule r_into_rtranclp)
  qed
qed

lemma capture_bind:
  assumes "inert P K" and "\<And>s. P s \<Longrightarrow> keeps K (m s)" and "\<And>s a. P s \<Longrightarrow> keeps K (f s a)"
  shows "keeps K (\<lambda>s. bind_op (m s) (f s) s)"
  by (rule keeps_capture [OF assms(1), where f = "\<lambda>s. bind_op (m s) (f s)"]) (intro keeps_bind assms(2,3), simp_all)

lemma capture_guard:
  assumes "inert P K" and "\<And>s. P s \<Longrightarrow> keeps K (m s)"
  shows "keeps K (\<lambda>s. guard_op (r s) (m s) s)"
  by (rule keeps_capture [OF assms(1), where f = "\<lambda>s. guard_op (r s) (m s)"]) (intro keeps_guard assms(2), simp_all)

lemma capture_if [keeps_intro]:
  assumes "keeps K m" and "keeps K n"
  shows "keeps K (\<lambda>s. if b s then m s else n s)"
  using assms by (simp add: keeps_def)

lemma inert_True: "inert (\<lambda>_. True) K"
  by (simp add: inert_def)

lemmas capture_plain = capture_bind [OF inert_True] capture_guard [OF inert_True]

definition store_own :: "('s \<Rightarrow> string \<rightharpoonup> bytes) \<Rightarrow> string \<Rightarrow> 's s3_store \<Rightarrow> 's s3_store \<Rightarrow> bool" where
  "store_own objs p s s' \<longleftrightarrow>
     (s3_prefix (st_conf s) = p \<longrightarrow> s3_prefix (st_conf s') = p \<and> own_only objs p (st_svc s) (st_svc s'))"

lemma store_inert: "inert (\<lambda>s. s3_prefix (st_conf s) = p) (store_own objs p)"
  by (simp add: inert_def store_own_def)

lemma store_own_trancl: "(store_own objs p)\<^sup>*\<^sup>* s s' \<Longrightarrow> store_own objs p s s'"
  by (induction rule: rtranclp_induct) (auto simp: store_own_def own_only_def)

lemma on_svc_keeps [keeps_intro]:
  assumes "keeps (own_only objs p) m"
  shows "keeps (store_own objs p) (on_svc m)"
proof (rule keepsI)
  fix s r s' assume "on_svc m s = (r, s')"
  then obtain v where m: "m (st_svc s) = (r, v)" and s': "s' = s\<lparr>st_svc := v\<rparr>"
    by (auto simp: on_svc_def split: prod.splits)
  then show "(store_own objs p)\<^sup>*\<^sup>* s s'"
    using own_only_trancl [OF keepsD [OF assms m]] by (intro r_into_rtranclp) (simp add: store_own_def)
qed

lemma at_conf_keeps [keeps_intro]:
  assumes "\<And>c. keeps (own_only objs (s3_prefix c)) (m c)"
  shows "keeps (store_own objs p) (at_conf m)"
  unfolding at_conf_def [abs_def]
  by (rule keeps_capture [OF store_inert, where f = "\<lambda>s. on_svc (m (st_conf s))"]) (use on_svc_keeps [OF assms] in auto)

lemma set_conf_keeps [keeps_intro]:
  assumes "\<And>c. s3_prefix (g c) = s3_prefix c"
  shows "keeps (store_own objs p) (\<lambda>s. (r s, s\<lparr>st_conf := g (st_conf s)\<rparr>))"
  using assms by (intro keepsI r_into_rtranclp) (auto simp: store_own_def own_only_def)

lemmas store_capture = capture_bind [OF store_inert] capture_guard [OF store_inert]

context s3_bucket
begin

lemma s3_read_keeps [keeps_intro]: "keeps (store_own objs p) (s3_read_at E off n)"
  unfolding s3_read_at_def [abs_def] Let_def by (intro store_capture keeps_intro)

lemma s3_write_framed [keeps_intro]: "keeps (store_own objs p) (s3_write_at E off x)"
proof -
  have "keeps (own_only objs p) (s3_store_piece E (st_conf s) i wi pos y)" if "s3_prefix (st_conf s) = p" for s i wi pos y
    using that s3_store_piece_keeps by blast
  then show ?thesis
    unfolding s3_write_at_def [abs_def] Let_def by (intro store_capture keeps_intro)
qed

lemma s3_present_keeps [keeps_intro]: "keeps (store_own objs p) (s3_present_chunks E)"
  using at_conf_keeps [where m = "\<lambda>c. list_chunk_indices E (chunks_prefix c)"] list_chunk_indices_keeps
  by (simp add: s3_present_chunks_def [abs_def] at_conf_def [abs_def])

lemma s3_delete_keeps [keeps_intro]: "keeps (store_own objs p) (s3_delete_chunk E i)"
  using at_conf_keeps [where m = "\<lambda>c. delete_chunk_object E c i"] delete_chunk_keeps
  by (simp add: s3_delete_chunk_def [abs_def] at_conf_def [abs_def])

lemma s3_set_capacity_keeps [keeps_intro]: "keeps (store_own objs p) (s3_set_capacity E n)"
proof -
  have "is_prefix (p @ ''/'') (meta_key (st_conf s))" if "s3_prefix (st_conf s) = p" for s :: "'s s3_store"
    using that own_keys(3) by blast
  then show ?thesis
    unfolding s3_set_capacity_def [abs_def] Let_def by (intro store_capture keeps_intro) simp_all
qed

lemma grow_to_keeps [keeps_intro]: "keeps (store_own objs p) (grow_to E n)"
  unfolding grow_to_def [abs_def] by (intro keeps_intro)

lemma snapshot_restore_keeps [keeps_intro]: "keeps (store_own objs p) (snapshot_restore E sid)"
  unfolding snapshot_restore_def [abs_def] by (intro store_capture keeps_intro)

lemma clone_into_keeps [keeps_intro]: "keeps (store_own objs p) (snapshot_clone_into E src sid)"
  unfolding snapshot_clone_into_def [abs_def] by (intro store_capture keeps_intro)

lemma migrate_keeps [keeps_intro]: "keeps (store_own objs p) (migrate_to_cow E)"
proof -
  have "keeps (own_only objs p) (migrate_chunk E (st_conf s) n i)" "is_prefix (p @ ''/'') (migrating_key (st_conf s))"
    "is_prefix (p @ ''/'') (live_meta_key (st_conf s))" "is_prefix (p @ ''/'') (flat_meta_key (st_conf s))"
    if "s3_prefix (st_conf s) = p" for s :: "'s s3_store" and n i
    using that migrate_chunk_keeps [of "st_conf s"] own_keys [of "st_conf s"] by auto
  then show ?thesis
    unfolding migrate_to_cow_def [abs_def] Let_def by (intro store_capture keeps_intro) simp_all
qed

end

section \<open>Stores with a frame\<close>

locale framed_store =
  fixes B :: "('s, 'm) store_ops_scheme" and K :: "'s \<Rightarrow> 's \<Rightarrow> bool"
  assumes read_keeps [keeps_intro]: "keeps K (bs_read_at B off n)"
    and write_keeps [keeps_intro]: "keeps K (bs_write_at B off x)"
    and grow_keeps [keeps_intro]: "keeps K (bs_set_capacity B cap)"
    and flush_keeps [keeps_intro]: "keeps K (bs_flush B)"
    and present_keeps [keeps_intro]: "keeps K (bs_present_chunks B)"
    and remove_keeps [keeps_intro]: "keeps K (bs_delete_chunk B idx)"

text \<open>Some clients only read.\<close>

locale framed_reads =
  fixes B :: "('s, 'm) store_ops_scheme" and K :: "'s \<Rightarrow> 's \<Rightarrow> bool"
  assumes fetch_keeps [keeps_intro]: "keeps K (bs_read_at B off n)"

sublocale framed_store \<subseteq> framed_reads B K
  by unfold_locales (rule read_keeps)

lemma s3_framed:
  assumes "s3_laws E objs"
  shows "framed_store (s3_ops E) (store_own objs p)"
proof -
  have b: "s3_bucket E objs" using assms by unfold_locales
  show ?thesis
    by unfold_locales
      (simp_all add: keeps_ret s3_bucket.s3_read_keeps [OF b] s3_bucket.s3_write_framed [OF b] s3_bucket.s3_set_capacity_keeps [OF b]
        s3_bucket.s3_present_keeps [OF b] s3_bucket.s3_delete_keeps [OF b])
qed

section \<open>The read cache\<close>

text \<open>Entries of other volumes may go, but none appears or changes.\<close>

definition pool_kept :: "string \<Rightarrow> chunk_cache \<Rightarrow> chunk_cache \<Rightarrow> bool" where
  "pool_kept v c c' \<longleftrightarrow>
     (cache_inv c \<longrightarrow> cache_inv c' \<and>
        (\<forall>u i x. u \<noteq> v \<longrightarrow> cache_lookup c' (u, i) = Some x \<longrightarrow> cache_lookup c (u, i) = Some x))"

lemma pool_kept_refl [simp]: "pool_kept v c c"
  by (simp add: pool_kept_def)

lemma pool_kept_trans: "pool_kept v c c' \<Longrightarrow> pool_kept v c' c'' \<Longrightarrow> pool_kept v c c''"
  by (simp add: pool_kept_def)

lemma pool_kept_get [simp]: "pool_kept v c (snd (cache_get u i c))"
  by (simp add: pool_kept_def cache_get_inv)

lemma pool_kept_put: "pool_kept v c (cache_put v i x c)"
  using cache_put_other [of c _ v i x] by (auto simp: pool_kept_def cache_put_inv)

lemma pool_kept_invalidate [simp]: "pool_kept v c (cache_invalidate u i c)"
  by (simp add: pool_kept_def cache_invalidate_inv cache_invalidate_lookup)

lemma pool_kept_invalidate_volume [simp]: "pool_kept v c (cache_invalidate_volume u c)"
  by (simp add: pool_kept_def cache_invalidate_volume_inv cache_invalidate_volume_lookup)

lemma pool_kept_set_max [simp]: "pool_kept v c (cache_set_max_bytes n c)"
  using set_max_lookup [of c n] by (auto simp: pool_kept_def cache_set_max_bytes_inv)

lemma pool_kept_disable [simp]: "pool_kept v c (cache_disable c)"
  by (simp add: cache_disable_def)

lemma pool_kept_clear [simp]: "pool_kept v c (cache_clear c)"
  by (simp add: pool_kept_def cache_clear_inv)

lemma pool_kept_enable [simp]: "pool_kept v c (cache_enable b c)"
  unfolding cache_enable_def Let_def by (rule pool_kept_trans [OF pool_kept_clear pool_kept_set_max])

definition cached_own ::
  "('s \<Rightarrow> 's \<Rightarrow> bool) \<Rightarrow> string \<Rightarrow> 's cached_store \<Rightarrow> 's cached_store \<Rightarrow> bool" where
  "cached_own K v s s' \<longleftrightarrow>
     K\<^sup>*\<^sup>* (cst_inner s) (cst_inner s') \<and>
     (cst_volume s = v \<longrightarrow> cst_volume s' = v \<and> pool_kept v (cst_cache s) (cst_cache s'))"

lemma cached_own_trancl: "(cached_own K v)\<^sup>*\<^sup>* s s' \<Longrightarrow> cached_own K v s s'"
proof (induction rule: rtranclp_induct)
  case base
  show ?case by (simp add: cached_own_def)
next
  case (step y z)
  then show ?case unfolding cached_own_def by (meson pool_kept_trans rtranclp_trans)
qed

lemma on_inner_keeps [keeps_intro]:
  assumes "keeps K m"
  shows "keeps (cached_own K v) (on_inner m)"
proof (rule keepsI)
  fix s r s' assume "on_inner m s = (r, s')"
  then obtain i where m: "m (cst_inner s) = (r, i)" and s': "s' = s\<lparr>cst_inner := i\<rparr>"
    by (auto simp: on_inner_def split: prod.splits)
  then show "(cached_own K v)\<^sup>*\<^sup>* s s'"
    using keepsD [OF assms m] by (intro r_into_rtranclp) (simp add: cached_own_def)
qed

lemma pool_keeps [keeps_intro]:
  assumes "\<And>s. pool_kept (cst_volume s) (cst_cache s) (g s)"
  shows "keeps (cached_own K v) (\<lambda>s. (r s, s\<lparr>cst_cache := g s\<rparr>))"
  using assms by (intro keepsI r_into_rtranclp) (auto simp: cached_own_def)

lemma cached_update_keeps [keeps_intro]: "keeps (cached_own K v) (cached_update_piece idx wi pos p)"
proof (rule keepsI, rule r_into_rtranclp)
  fix s r s' assume m: "cached_update_piece idx wi pos p s = (r, s' :: 'a cached_store)"
  obtain q c where g: "cache_get (cst_volume s) idx (cst_cache s) = (q, c)" by fastforce
  have c: "pool_kept (cst_volume s) (cst_cache s) c" using pool_kept_get [of _ _ _ idx] g by (metis snd_conv)
  have "pool_kept (cst_volume s) (cst_cache s) (cst_cache s') \<and> cst_inner s' = cst_inner s \<and> cst_volume s' = cst_volume s"
    using m c pool_kept_trans [OF c pool_kept_put] pool_kept_trans [OF c pool_kept_invalidate]
    by (auto simp: cached_update_piece_def g split: option.splits if_splits)
  then show "cached_own K v s s'" by (auto simp: cached_own_def)
qed

context framed_store
begin

lemma load_miss_keeps [keeps_intro]: "keeps (cached_own K v) (load_miss B i)"
  unfolding load_miss_def [abs_def] Let_def by (intro capture_plain keeps_intro pool_kept_put)

lemma load_cached_keeps [keeps_intro]: "keeps (cached_own K v) (load_cached B i)"
proof (rule keepsI)
  fix s r s' assume m: "load_cached B i s = (r, s')"
  obtain q c where g: "cache_get (cst_volume s) i (cst_cache s) = (q, c)" by fastforce
  have c: "pool_kept (cst_volume s) (cst_cache s) c" using pool_kept_get [of _ _ _ i] g by (metis snd_conv)
  show "(cached_own K v)\<^sup>*\<^sup>* s s'"
  proof (cases q)
    case (Some x)
    then show ?thesis using m c g by (intro r_into_rtranclp) (auto simp: load_cached_def cached_own_def)
  next
    case None
    let ?s = "s\<lparr>cst_cache := c, cst_misses := cst_misses s + 1\<rparr>"
    have "cached_own K v s ?s" using c by (auto simp: cached_own_def)
    moreover have "(cached_own K v)\<^sup>*\<^sup>* ?s s'" using m g None by (intro keepsD [OF load_miss_keeps]) (simp add: load_cached_def)
    ultimately show ?thesis by (rule converse_rtranclp_into_rtranclp)
  qed
qed

lemma cached_fetch_keeps [keeps_intro]: "keeps (cached_own K v) (cached_fetch B idx wi pos tk)"
  unfolding cached_fetch_def load_chunk_def [abs_def] by (intro capture_plain keeps_intro)

lemma cached_framed: "framed_store (cached_ops B) (cached_own K v)"
proof
  show "keeps (cached_own K v) (bs_read_at (cached_ops B) off n)" for off n
    unfolding cached_ops_sel cached_read_at_def [abs_def] by (intro capture_plain keeps_intro)
  show "keeps (cached_own K v) (bs_write_at (cached_ops B) off x)" for off x
    unfolding cached_ops_sel cached_write_at_def [abs_def]
    by (intro capture_plain keeps_intro keeps_seen [where h = "\<lambda>s. bs_chunk_size B (cst_inner s)"])
  show "keeps (cached_own K v) (bs_set_capacity (cached_ops B) cap)" for cap
    unfolding cached_ops_sel cached_set_capacity_def [abs_def] by (intro capture_plain keeps_intro)
  show "keeps (cached_own K v) (bs_flush (cached_ops B))"
    unfolding cached_ops_sel cached_flush_def [abs_def] by (intro capture_plain keeps_intro)
  show "keeps (cached_own K v) (bs_present_chunks (cached_ops B))"
    unfolding cached_ops_sel cached_present_chunks_def [abs_def] by (intro capture_plain keeps_intro)
  show "keeps (cached_own K v) (bs_delete_chunk (cached_ops B) idx)" for idx
    unfolding cached_ops_sel cached_delete_chunk_def [abs_def] by (intro capture_plain keeps_intro) simp
qed

end

section \<open>The write cache\<close>

definition inner_own :: "('s \<Rightarrow> 's \<Rightarrow> bool) \<Rightarrow> 's wcore \<Rightarrow> 's wcore \<Rightarrow> bool" where
  "inner_own K w w' \<longleftrightarrow> K\<^sup>*\<^sup>* (wc_inner w) (wc_inner w')"

lemma inner_own_trancl: "(inner_own K)\<^sup>*\<^sup>* w w' \<longleftrightarrow> K\<^sup>*\<^sup>* (wc_inner w) (wc_inner w')"
proof
  assume "(inner_own K)\<^sup>*\<^sup>* w w'"
  then show "K\<^sup>*\<^sup>* (wc_inner w) (wc_inner w')"
    by (induction rule: rtranclp_induct) (auto simp: inner_own_def)
qed (simp add: inner_own_def r_into_rtranclp)

lemma keeps_inner: "keeps (inner_own K) m \<longleftrightarrow> (\<forall>w. K\<^sup>*\<^sup>* (wc_inner w) (wc_inner (snd (m w))))"
  by (simp add: keeps_def inner_own_trancl)

lemma keeps_innerD: "keeps (inner_own K) m \<Longrightarrow> m w = (r, w') \<Longrightarrow> K\<^sup>*\<^sup>* (wc_inner w) (wc_inner w')"
  unfolding keeps_inner by (metis snd_conv)

lemma on_winner_keeps [keeps_intro]:
  assumes "keeps K m"
  shows "keeps (inner_own K) (on_winner m)"
proof (rule keepsI)
  fix w r w' assume "on_winner m w = (r, w')"
  then obtain i where "m (wc_inner w) = (r, i)" and "w' = w\<lparr>wc_inner := i\<rparr>"
    by (auto simp: on_winner_def split: prod.splits)
  then show "(inner_own K)\<^sup>*\<^sup>* w w'" using keepsD [OF assms] by (simp add: inner_own_trancl)
qed

lemma quiet_keeps [keeps_intro]: "(\<And>w. wc_inner (g w) = wc_inner w) \<Longrightarrow> keeps (inner_own K) (\<lambda>w. (r w, g w))"
  by (simp add: keeps_inner)

lemma remove_file_keeps [keeps_intro]: "keeps (inner_own K) (wc_remove_file idx)"
  by (rule keepsI) (simp add: inner_own_trancl remove_file_frame)

lemma persist_keeps [keeps_intro]: "keeps (inner_own K) (wc_persist idx x)"
  by (auto simp: keeps_inner wc_persist_def on_fs_def split: option.splits prod.splits)

lemma exclusive_keeps [keeps_intro]:
  assumes "keeps (inner_own K) f"
  shows "keeps (inner_own K) (with_exclusive f)"
proof (rule keepsI)
  fix w r w' assume "with_exclusive f w = (r, w')"
  then obtain w1 where "f (ctl_update (\<lambda>c. c\<lparr>ct_exclusive := True\<rparr>) w) = (r, w1)" and "wc_inner w' = wc_inner w1"
    by (auto simp: with_exclusive_def ctl_update_def split: prod.splits)
  then show "(inner_own K)\<^sup>*\<^sup>* w w'"
    using keeps_innerD [OF assms] by (fastforce simp: inner_own_trancl ctl_update_def)
qed

lemma take_all_inner: "take_all_jobs (pause_worker w) = (jobs, w1) \<Longrightarrow> wc_inner w1 = wc_inner w"
  by (auto simp: take_all_jobs_def pause_worker_def ctl_update_def buf_update_def Let_def split: if_splits)

lemma jobs_keeps [keeps_intro]:
  assumes "\<And>jobs. keeps (inner_own K) (f jobs)"
  shows "keeps (inner_own K) (\<lambda>w. case take_all_jobs (pause_worker w) of (jobs, w1) \<Rightarrow> f jobs w1)"
proof (rule keepsI)
  fix w r w' assume m: "(case take_all_jobs (pause_worker w) of (jobs, w1) \<Rightarrow> f jobs w1) = (r, w')"
  obtain jobs w1 where t: "take_all_jobs (pause_worker w) = (jobs, w1)" by fastforce
  then have "K\<^sup>*\<^sup>* (wc_inner w1) (wc_inner w')" using m by (intro keeps_innerD [OF assms]) simp
  then show "(inner_own K)\<^sup>*\<^sup>* w w'" by (simp add: inner_own_trancl take_all_inner [OF t])
qed

lemma discard_keeps [keeps_intro]: "keeps (inner_own K) discard_dirty"
proof -
  have "keeps (inner_own K) (remove_files jobs)" for jobs
    by (induction jobs) (auto intro!: keeps_intro)
  then show ?thesis
    unfolding discard_dirty_def [abs_def] by (intro keeps_intro) (simp_all add: resume_worker_def ctl_update_def)
qed

context framed_reads
begin

lemma read_full_keeps [keeps_intro]: "keeps K (read_full_chunk B idx)"
  unfolding read_full_chunk_def [abs_def] Let_def by (intro capture_plain keeps_intro)

lemma wc_fetch_keeps [keeps_intro]: "keeps (inner_own K) (wc_fetch B idx wi pos tk)"
  using keeps_innerD [OF on_winner_keeps [OF fetch_keeps [of pos tk]]]
  by (auto simp: keeps_inner wc_fetch_def split: option.splits) (metis prod.collapse)

lemma load_for_write_keeps [keeps_intro]: "keeps (inner_own K) (load_for_write B idx)"
  using keeps_innerD [OF on_winner_keeps [OF read_full_keeps [of idx]]]
  by (auto simp: keeps_inner load_for_write_def split: option.splits) (metis prod.collapse)

lemma store_piece_keeps [keeps_intro]: "keeps (inner_own K) (wc_store_piece B idx wi pos p)"
  unfolding wc_store_piece_def by (intro keeps_intro) simp

lemma store_pieces_keeps [keeps_intro]: "keeps (inner_own K) (wc_store_pieces B off x)"
  unfolding wc_store_pieces_def [abs_def] by (intro capture_plain keeps_intro)

end

context framed_store
begin

lemma write_inner_keeps [keeps_intro]: "keeps K (write_inner B idx x)"
  using write_keeps by (simp add: keeps_def write_inner_def Let_def)

lemma evict_loop_keeps [keeps_intro]: "keeps (inner_own K) (evict_loop B)"
proof -
  have "K\<^sup>*\<^sup>* (wc_inner w) (wc_inner (snd (evict_loop B w)))" for w
  proof (induction "length (ds_chunks (wc_dirty w))" arbitrary: w rule: less_induct)
    case less
    show ?case
    proof (cases "evict_victim w")
      case None
      then show ?thesis by (simp add: evict_loop.simps)
    next
      case (Some v)
      obtain idx x where v: "evict_victim w = Some (idx, x)" using Some by (cases v) simp
      obtain q w1 where p: "on_winner (write_inner B idx x) w = (q, w1)" by fastforce
      let ?w = "w1\<lparr>wc_dirty := snd (dirty_remove idx (wc_dirty w1))\<rparr>"
      obtain q2 w2 where f: "wc_remove_file idx ?w = (q2, w2)" by fastforce
      have w1: "K\<^sup>*\<^sup>* (wc_inner w) (wc_inner w1)" using keeps_innerD [OF on_winner_keeps [OF write_inner_keeps] p] .
      have w2: "wc_inner w2 = wc_inner w1" "wc_dirty w2 = snd (dirty_remove idx (wc_dirty w))"
        using remove_file_frame [OF f] on_winner_frame [OF p] by simp_all
      have "K\<^sup>*\<^sup>* (wc_inner w2) (wc_inner (snd (evict_loop B w2)))"
        using less dirty_remove_less [OF evict_victim_in [OF v]] by (simp add: w2(2))
      then show ?thesis
        using w1 w2(1) rtranclp_trans [OF w1]
        by (simp add: evict_loop.simps [of B w] v p f split: result.splits)
    qed
  qed
  then show ?thesis by (simp add: keeps_inner)
qed

lemma evict_direct_keeps [keeps_intro]: "keeps (inner_own K) (evict_direct B)"
  unfolding evict_direct_def [abs_def] by (intro keeps_intro)

lemma write_jobs_keeps [keeps_intro]: "keeps (inner_own K) (write_jobs B jobs)"
proof (induction jobs)
  case (Cons j jobs)
  have "keeps (inner_own K) (write_snapshot B j)"
    unfolding write_snapshot_def by (intro keeps_intro)
  then show ?case using Cons by (simp add: keeps_bind)
qed (simp add: keeps_ret)

lemma wc_flush_keeps [keeps_intro]: "keeps (inner_own K) (wc_flush B)"
proof -
  have "keeps (inner_own K) (flush_jobs B)"
    unfolding flush_jobs_def [abs_def] by (intro keeps_intro) (simp add: resume_worker_def ctl_update_def)
  then show ?thesis unfolding wc_flush_def [abs_def] by (intro capture_plain keeps_intro)
qed

lemma wc_write_keeps [keeps_intro]: "keeps (inner_own K) (wc_write_direct B off x)"
proof (rule keepsI)
  fix w r w' assume m: "wc_write_direct B off x w = (r, w')"
  obtain q w1 where p: "wc_store_pieces B off x (begin_write w) = (q, w1)" by fastforce
  have w1: "K\<^sup>*\<^sup>* (wc_inner w) (wc_inner w1)"
    using keeps_innerD [OF store_pieces_keeps p] by (simp add: begin_write_def ctl_update_def)
  obtain q2 w2 where e: "evict_direct B w1 = (q2, w2)" by fastforce
  have w2: "K\<^sup>*\<^sup>* (wc_inner w) (wc_inner w2)" using w1 keeps_innerD [OF evict_direct_keeps e] by (rule rtranclp_trans)
  show "(inner_own K)\<^sup>*\<^sup>* w w'"
  proof (cases "wc_mode w = WNone")
    case True
    then show ?thesis
      using m keeps_innerD [OF on_winner_keeps [OF write_keeps]] by (simp add: wc_write_direct_def wc_write_at_def inner_own_trancl)
  next
    case False
    then show ?thesis
      using m w1 w2
      by (auto simp: wc_write_direct_def wc_write_at_def p e evict_into_buffer_def drop_hold_def ctl_update_def inner_own_trancl
          split: result.splits if_splits)
  qed
qed

lemma wc_framed: "framed_store (wc_ops B) (inner_own K)"
proof
  show "keeps (inner_own K) (bs_read_at (wc_ops B) off n)" for off n
    unfolding wc_ops_sel wc_read_at_def [abs_def] by (intro capture_plain keeps_intro)
  show "keeps (inner_own K) (bs_write_at (wc_ops B) off x)" for off x
    unfolding wc_ops_sel by (intro keeps_intro)
  show "keeps (inner_own K) (bs_set_capacity (wc_ops B) cap)" for cap
    unfolding wc_ops_sel wc_set_capacity_def by (intro keeps_intro)
  show "keeps (inner_own K) (bs_flush (wc_ops B))"
    unfolding wc_ops_sel by (intro keeps_intro)
  show "keeps (inner_own K) (bs_present_chunks (wc_ops B))"
    unfolding wc_ops_sel wc_present_chunks_def Let_def by (intro keeps_intro)
  show "keeps (inner_own K) (bs_delete_chunk (wc_ops B) idx)" for idx
  proof (rule keepsI)
    fix w r w' assume m: "bs_delete_chunk (wc_ops B) idx w = (r, w')"
    have d: "keeps (inner_own K) (bind_op (wc_remove_file idx) (\<lambda>_. on_winner (bs_delete_chunk B idx)))"
      and o: "keeps (inner_own K) (on_winner (bs_delete_chunk B idx))" by (intro keeps_intro)+
    have "wc_inner (remove_cached idx w) = wc_inner w" by (simp add: remove_cached_def buf_update_def)
    then show "(inner_own K)\<^sup>*\<^sup>* w w'"
      using m keeps_innerD [OF d, of "remove_cached idx w" r w'] keeps_innerD [OF o, of w r w']
      by (simp add: wc_delete_chunk_def inner_own_trancl split: if_splits)
  qed
qed

end

section \<open>A volume\<close>

definition vol_own :: "('s \<Rightarrow> string \<rightharpoonup> bytes) \<Rightarrow> string \<Rightarrow> string \<Rightarrow> 's volume_store \<Rightarrow> 's volume_store \<Rightarrow> bool" where
  "vol_own objs p v = inner_own (cached_own (store_own objs p) v)"

abbreviation vol_prefix :: "'s volume_store \<Rightarrow> string" where
  "vol_prefix w \<equiv> s3_prefix (st_conf (cst_inner (wc_inner w)))"

abbreviation vol_name :: "'s volume_store \<Rightarrow> string" where
  "vol_name w \<equiv> cst_volume (wc_inner w)"

abbreviation vol_svc :: "'s volume_store \<Rightarrow> 's" where
  "vol_svc w \<equiv> st_svc (cst_inner (wc_inner w))"

lemma vol_framed:
  assumes "s3_laws E objs"
  shows "framed_store (vol_ops E) (vol_own objs p v)"
  unfolding vol_ops_def vol_own_def
  by (rule framed_store.wc_framed [OF framed_store.cached_framed [OF s3_framed [OF assms]]])

lemma vol_keepsD:
  assumes "keeps (vol_own objs (vol_prefix w) (vol_name w)) m" and "m w = (r, w')"
  shows "vol_prefix w' = vol_prefix w \<and> vol_name w' = vol_name w \<and> own_only objs (vol_prefix w) (vol_svc w) (vol_svc w') \<and>
    pool_kept (vol_name w) (cst_cache (wc_inner w)) (cst_cache (wc_inner w'))"
proof -
  have c: "cached_own (store_own objs (vol_prefix w)) (vol_name w) (wc_inner w) (wc_inner w')"
    using keeps_innerD [OF assms(1) [unfolded vol_own_def] assms(2)] by (rule cached_own_trancl)
  have "store_own objs (vol_prefix w) (cst_inner (wc_inner w)) (cst_inner (wc_inner w'))"
    by (rule store_own_trancl) (use c in \<open>simp only: cached_own_def\<close>)
  with c show ?thesis unfolding store_own_def cached_own_def by blast
qed

lemma on_store_keeps [keeps_intro]:
  assumes "keeps (store_own objs p) m"
  shows "keeps (vol_own objs p v) (on_winner (on_inner m))"
  unfolding vol_own_def by (intro keeps_intro assms)

lemma vol_discard_keeps [keeps_intro]: "keeps (vol_own objs p v) discard_dirty"
  unfolding vol_own_def by (rule discard_keeps)

lemma vol_lock_keeps [keeps_intro]:
  assumes "s3_laws E objs"
  shows "keeps (vol_own objs p v) (\<lambda>w. (Ok (), wc_lock_io (s3_ops E) w))"
proof (rule keepsI)
  fix w r w' assume m: "(Ok (), wc_lock_io (s3_ops E) w) = (r, w')"
  obtain q w1 where f: "wc_flush (cached_ops (s3_ops E)) w = (q, w1)" by fastforce
  have "keeps (vol_own objs p v) (wc_flush (cached_ops (s3_ops E)))"
    using framed_store.flush_keeps [OF vol_framed [OF assms]] by (simp add: vol_ops_def)
  then have "(cached_own (store_own objs p) v)\<^sup>*\<^sup>* (wc_inner w) (wc_inner w1)"
    unfolding vol_own_def using f by (rule keeps_innerD)
  moreover have "cached_own (store_own objs p) v (wc_inner w1) (wc_inner w')"
    using m f by (auto simp: wc_lock_io_def cached_lock_io_def cached_own_def Let_def)
  ultimately show "(vol_own objs p v)\<^sup>*\<^sup>* w w'"
    unfolding vol_own_def inner_own_trancl by (rule rtranclp.rtrancl_into_rtrancl)
qed

lemma vol_unlock_keeps [keeps_intro]: "keeps (vol_own objs p v) (\<lambda>w. (Ok (), wc_unlock_io w))"
  by (rule keepsI, rule r_into_rtranclp)
    (auto simp: vol_own_def inner_own_def wc_unlock_io_def cached_unlock_io_def cached_own_def intro!: r_into_rtranclp)

section \<open>What a volume reads\<close>

definition apart :: "string \<Rightarrow> string \<Rightarrow> bool" where
  "apart p q \<longleftrightarrow> \<not> is_prefix (p @ ''/'') (q @ ''/'') \<and> \<not> is_prefix (q @ ''/'') (p @ ''/'')"

lemma apart_keys: "apart p q \<Longrightarrow> is_prefix (p @ ''/'') k \<Longrightarrow> \<not> is_prefix (q @ ''/'') k"
proof
  assume "apart p q" "is_prefix (p @ ''/'') k" "is_prefix (q @ ''/'') k"
  then obtain x y where k: "k = (p @ ''/'') @ x" "k = (q @ ''/'') @ y" unfolding is_prefix_iff by blast
  then have "(p @ ''/'') @ x = (q @ ''/'') @ y" by simp
  then obtain us where "p @ ''/'' = (q @ ''/'') @ us \<or> (p @ ''/'') @ us = q @ ''/''"
    unfolding append_eq_append_conv2 by metis
  then have "is_prefix (p @ ''/'') (q @ ''/'') \<or> is_prefix (q @ ''/'') (p @ ''/'')" unfolding is_prefix_iff by metis
  then show False using \<open>apart p q\<close> by (simp add: apart_def)
qed

lemma s3_rep_own:
  assumes "\<And>k. is_prefix (s3_prefix (st_conf s) @ ''/'') k \<Longrightarrow> objs (st_svc s') k = objs (st_svc s) k" and "st_conf s' = st_conf s"
  shows "s3_rep E objs a U d g s' \<longleftrightarrow> s3_rep E objs a U d g s"
proof -
  have "chunk_value E (st_conf s) (objs (st_svc s')) i = chunk_value E (st_conf s) (objs (st_svc s)) i" for i
    unfolding chunk_value_def by (simp only: assms(1) own_keys)
  then show ?thesis
    by (simp add: s3_rep_def Let_def assms chunks_hold_def pool_ok_def)
qed

lemma vol_rep_frame:
  assumes "vol_rep E objs a U m d g w" and "w' = w\<lparr>wc_inner := (wc_inner w)\<lparr>cst_cache := c, cst_inner := (cst_inner (wc_inner w))\<lparr>st_svc := s\<rparr>\<rparr>\<rparr>"
    and "\<And>k. is_prefix (vol_prefix w @ ''/'') k \<Longrightarrow> objs s k = objs (vol_svc w) k"
    and "cache_inv (cst_cache (wc_inner w)) \<Longrightarrow> cache_inv c"
    and "\<And>i x. cache_inv (cst_cache (wc_inner w)) \<Longrightarrow> cache_lookup c (vol_name w, i) = Some x \<Longrightarrow>
      cache_lookup (cst_cache (wc_inner w)) (vol_name w, i) = Some x"
  shows "vol_rep E objs a U m d g w'"
proof -
  have "cached_rep_at False (s3_rep E objs a U) di g (wc_inner w')" if "cached_rep_at False (s3_rep E objs a U) di g (wc_inner w)" for di
  proof -
    have "s3_rep E objs a U di g (cst_inner (wc_inner w')) \<longleftrightarrow> s3_rep E objs a U di g (cst_inner (wc_inner w))"
      by (rule s3_rep_own) (simp_all add: assms(2,3))
    then show ?thesis
      using that assms(4,5) by (auto simp: assms(2) cached_rep_at_def cached_rep_def cache_agrees_def)
  qed
  moreover have "wc_lookup w' = wc_lookup w" "wc_keys_ok w' = wc_keys_ok w" "wc_mode w' = wc_mode w" "wc_buffer w' = wc_buffer w"
    by (auto simp: assms(2) wc_lookup_def buf_lookup_def wc_keys_ok_def fun_eq_iff split: option.splits)
  ultimately show ?thesis
    using assms(1) by (auto simp: vol_rep_def wc_rep_at_def wc_rep_def)
qed

interpretation bk: s3_bucket bk_env objs_of
  by unfold_locales (rule bk_laws)

interpretation bk_vol: framed_store "vol_ops bk_env" "vol_own objs_of p v" for p v
  by (rule vol_framed [OF bk_laws])

end
