(* ===== verification/Isolation.thy ===== *)
theory Isolation
  imports Admin Frame
begin

text \<open>
  The volumes of one daemon do not disturb each other. Whatever initiators do to the other volumes and
  whatever control-socket requests arrive that do not name a volume, its objects in the bucket, its
  snapshots, its dirty chunks and the disk it presents stay as they are, provided no volume prefix is a
  directory above another one.
\<close>

section \<open>Untouched volumes\<close>

abbreviation handle_store :: "'s admin_state \<Rightarrow> nat \<Rightarrow> 's volume_store" where
  "handle_store st i \<equiv> ah_store (ad_volumes st ! i)"

definition separated :: "nat \<Rightarrow> nat \<Rightarrow> 's admin_state \<Rightarrow> bool" where
  "separated n i st \<longleftrightarrow>
     length (ad_volumes st) = n \<and> i < n \<and>
     (\<forall>j < n. j \<noteq> i \<longrightarrow> vol_name (handle_store st j) \<noteq> vol_name (handle_store st i) \<and>
        apart (vol_prefix (handle_store st j)) (vol_prefix (handle_store st i)))"

definition untouched :: "('s \<Rightarrow> string \<rightharpoonup> bytes) \<Rightarrow> nat \<Rightarrow> nat \<Rightarrow> 's admin_state \<Rightarrow> 's admin_state \<Rightarrow> bool" where
  "untouched objs n i st st' \<longleftrightarrow>
     (separated n i st \<longrightarrow>
        separated n i st' \<and> handle_store st' i = handle_store st i \<and>
        (\<forall>k. is_prefix (vol_prefix (handle_store st i) @ ''/'') k \<longrightarrow> objs (ad_svc st') k = objs (ad_svc st) k) \<and>
        (cache_inv (ad_cache st) \<longrightarrow> cache_inv (ad_cache st') \<and>
           (\<forall>idx x. cache_lookup (ad_cache st') (vol_name (handle_store st i), idx) = Some x \<longrightarrow>
              cache_lookup (ad_cache st) (vol_name (handle_store st i), idx) = Some x)))"

lemma untouched_refl: "untouched objs n i st st"
  by (simp add: untouched_def)

lemma untouched_trans:
  assumes "untouched objs n i st st'" and "untouched objs n i st' st''"
  shows "untouched objs n i st st''"
  using assms unfolding untouched_def by auto

lemma untouched_trancl: "(untouched objs n i)\<^sup>*\<^sup>* st st' \<Longrightarrow> untouched objs n i st st'"
  by (induction rule: rtranclp_induct) (blast intro: untouched_refl untouched_trans)+

lemma untouched_rep:
  assumes "untouched objs n i st st'" and "separated n i st" and "vol_rep E objs a U m d g (store_at i st)"
  shows "vol_rep E objs a U m d g (store_at i st')"
proof (rule vol_rep_frame [OF assms(3)])
  have u: "handle_store st' i = handle_store st i"
    using assms(1,2) by (simp add: untouched_def)
  show "store_at i st' = (store_at i st)\<lparr>wc_inner := (wc_inner (store_at i st))\<lparr>cst_cache := ad_cache st',
      cst_inner := (cst_inner (wc_inner (store_at i st)))\<lparr>st_svc := ad_svc st'\<rparr>\<rparr>\<rparr>"
    by (simp add: store_at_def check_out_def u)
qed (use assms(1,2) in \<open>simp_all add: untouched_def store_at_def check_out_def\<close>)

section \<open>Operations\<close>

lemma quiet_untouched:
  assumes "ad_volumes st' = ad_volumes st" and "objs (ad_svc st') = objs (ad_svc st)" and "\<And>v. pool_kept v (ad_cache st) (ad_cache st')"
  shows "untouched objs n i st st'"
proof -
  have "\<exists>v. u \<noteq> (v :: string)" for u using exI [of "\<lambda>v. u \<noteq> v" "CHR ''x'' # u"] by simp
  then have "cache_lookup (ad_cache st) (u, idx) = Some x"
    if "cache_inv (ad_cache st)" "cache_lookup (ad_cache st') (u, idx) = Some x" for u idx x
    using assms(3) that unfolding pool_kept_def by metis
  moreover have "cache_inv (ad_cache st) \<Longrightarrow> cache_inv (ad_cache st')" using assms(3) by (simp add: pool_kept_def)
  ultimately show ?thesis using assms(1,2) by (simp add: untouched_def separated_def)
qed

lemma quiet_keeps_state:
  assumes "\<And>st. ad_volumes (f st) = ad_volumes st" and "\<And>st. objs (ad_svc (f st)) = objs (ad_svc st)"
    and "\<And>st v. pool_kept v (ad_cache st) (ad_cache (f st))"
  shows "keeps (untouched objs n i) (\<lambda>st. (r st, f st))"
  using assms by (intro keepsI r_into_rtranclp) (auto intro!: quiet_untouched)

lemma on_vol_keeps:
  assumes "\<And>p v. keeps (vol_own objs p v) m" and "j < n" and "j \<noteq> i"
  shows "keeps (untouched objs n i) (on_vol j m)"
proof (rule keepsI, rule r_into_rtranclp)
  fix st r st' assume o: "on_vol j m st = (r, st')"
  obtain w where m: "m (store_at j st) = (r, w)" and st': "st' = check_in j w st"
    using o by (auto simp: on_vol_def split: prod.splits)
  note k = vol_keepsD [OF assms(1) m]
  show "untouched objs n i st st'"
    unfolding untouched_def
  proof (intro impI)
    assume s: "separated n i st"
    then have j: "apart (vol_prefix (handle_store st j)) (vol_prefix (handle_store st i))"
      "vol_name (handle_store st j) \<noteq> vol_name (handle_store st i)" "j < length (ad_volumes st)" "i < length (ad_volumes st)"
      using assms(2,3) by (auto simp: separated_def)
    have same: "vol_prefix w = vol_prefix (handle_store st j)" "vol_name w = vol_name (handle_store st j)"
      "own_only objs (vol_prefix (handle_store st j)) (ad_svc st) (vol_svc w)"
      "pool_kept (vol_name (handle_store st j)) (ad_cache st) (cst_cache (wc_inner w))"
      using k by (simp_all add: store_at_def check_out_def)
    have hs: "vol_prefix (handle_store st' l) = vol_prefix (handle_store st l)" "vol_name (handle_store st' l) = vol_name (handle_store st l)"
      "length (ad_volumes st') = length (ad_volumes st)" for l
      using same(1,2) j(3) by (cases "l = j"; simp add: st' check_in_def nth_list_update)+
    have i: "handle_store st' i = handle_store st i" using assms(3) by (simp add: st' check_in_def)
    have "objs (ad_svc st') k = objs (ad_svc st) k" if "is_prefix (vol_prefix (handle_store st i) @ ''/'') k" for k
      using same(3) apart_keys [of "vol_prefix (handle_store st i)" "vol_prefix (handle_store st j)" k] that j(1)
      by (simp add: own_only_def st' check_in_def apart_def)
    then show "separated n i st' \<and> handle_store st' i = handle_store st i \<and>
        (\<forall>k. is_prefix (vol_prefix (handle_store st i) @ ''/'') k \<longrightarrow> objs (ad_svc st') k = objs (ad_svc st) k) \<and>
        (cache_inv (ad_cache st) \<longrightarrow> cache_inv (ad_cache st') \<and>
           (\<forall>idx x. cache_lookup (ad_cache st') (vol_name (handle_store st i), idx) = Some x \<longrightarrow>
              cache_lookup (ad_cache st) (vol_name (handle_store st i), idx) = Some x))"
      using s i same(4) j(2) by (auto simp: separated_def hs pool_kept_def) (auto simp: st' check_in_def)
  qed
qed

lemma str_err_keeps [keeps_intro]:
  assumes "keeps K m"
  shows "keeps K (str_err f m)"
proof (rule keepsI)
  fix s r s' assume "str_err f m s = (r, s')"
  then obtain q where "m s = (q, s')" by (auto simp: str_err_def split: prod.splits result.splits)
  then show "K\<^sup>*\<^sup>* s s'" by (rule keepsD [OF assms])
qed

lemma world_framed:
  assumes "s3_laws E objs" and "j < n" and "j \<noteq> i"
  shows "framed_store (world_ops E j) (untouched objs n i)"
  using framed_store.read_keeps [OF vol_framed [OF assms(1)]] framed_store.write_keeps [OF vol_framed [OF assms(1)]]
    framed_store.grow_keeps [OF vol_framed [OF assms(1)]] framed_store.flush_keeps [OF vol_framed [OF assms(1)]]
    framed_store.present_keeps [OF vol_framed [OF assms(1)]] framed_store.remove_keeps [OF vol_framed [OF assms(1)]]
  by (intro framed_store.intro) (simp_all add: world_ops_def on_vol_keeps assms(2,3))

lemma copy_keeps:
  assumes "framed_store B K" and "framed_store B' K"
  shows "keeps K (copy_volume B B' resume)"
proof -
  note [keeps_intro] = framed_store.read_keeps [OF assms(1)] framed_store.present_keeps [OF assms(1)] framed_store.write_keeps [OF assms(2)]
    framed_store.present_keeps [OF assms(2)] framed_store.flush_keeps [OF assms(2)] framed_store.remove_keeps [OF assms(2)]
  show ?thesis
    unfolding copy_volume_def [abs_def] copy_chunk_def delete_extra_def Let_def by (intro capture_plain keeps_intro)
qed

lemma wipe_keeps:
  assumes "framed_store B K"
  shows "keeps K (wipe_volume B)"
proof -
  note [keeps_intro] = framed_store.present_keeps [OF assms] framed_store.flush_keeps [OF assms] framed_store.remove_keeps [OF assms]
  show ?thesis unfolding wipe_volume_def by (intro keeps_intro)
qed

text \<open>Operations on a connection and a store.\<close>

definition snd_own :: "('s \<Rightarrow> 's \<Rightarrow> bool) \<Rightarrow> 'c \<times> 's \<Rightarrow> 'c \<times> 's \<Rightarrow> bool" where
  "snd_own K x y \<longleftrightarrow> K\<^sup>*\<^sup>* (snd x) (snd y)"

lemma snd_own_trancl: "(snd_own K)\<^sup>*\<^sup>* x y \<longleftrightarrow> K\<^sup>*\<^sup>* (snd x) (snd y)"
proof
  assume "(snd_own K)\<^sup>*\<^sup>* x y"
  then show "K\<^sup>*\<^sup>* (snd x) (snd y)"
    by (induction rule: rtranclp_induct) (auto simp: snd_own_def)
qed (simp add: snd_own_def r_into_rtranclp)

lemma on_fst_framed [keeps_intro]: "keeps (snd_own K) (on_fst m)"
  by (rule keepsI) (auto simp: on_fst_def snd_own_trancl split: prod.splits)

lemma on_snd_framed [keeps_intro]:
  assumes "keeps K m"
  shows "keeps (snd_own K) (on_snd m)"
  by (rule keepsI) (auto simp: on_snd_def snd_own_trancl split: prod.splits dest: keepsD [OF assms])

lemma seed_keeps:
  assumes "framed_store B K"
  shows "keeps (snd_own K) (seed_image_from_reader B eof n)"
proof -
  note [keeps_intro] = framed_store.write_keeps [OF assms] framed_store.flush_keeps [OF assms]
  have "keeps (snd_own K) (seed_loop B eof cs rem off r)" for cs rem off r
  proof (induction rem arbitrary: off r rule: less_induct)
    case (less rem)
    then show ?case by (subst seed_loop.simps) (auto simp: Let_def intro!: keeps_intro)
  qed
  then show ?thesis unfolding seed_image_from_reader_def [abs_def] Let_def by (intro capture_plain keeps_intro)
qed

lemma export_keeps:
  assumes "framed_store B K"
  shows "keeps (snd_own K) (export_image_to_writer B eof n)"
proof -
  note [keeps_intro] = framed_store.read_keeps [OF assms]
  have "keeps (snd_own K) (export_loop B eof cs rem off r)" for cs rem off r
  proof (induction rem arbitrary: off r rule: less_induct)
    case (less rem)
    then show ?case by (subst export_loop.simps) (auto simp: Let_def intro!: keeps_intro)
  qed
  then show ?thesis unfolding export_image_to_writer_def [abs_def] Let_def by (intro capture_plain keeps_intro)
qed

section \<open>Requests\<close>

text \<open>The handle a selector leads to, as every handler of the control socket finds it.\<close>

definition addresses :: "'s admin_state \<Rightarrow> string option \<Rightarrow> nat \<Rightarrow> bool" where
  "addresses st sel i \<longleftrightarrow> fst (bind_op (get_volume sel) get_store st) = Ok i"

definition reads :: "('s, 'a) op \<Rightarrow> bool" where
  "reads m \<longleftrightarrow> (\<forall>s. snd (m s) = s)"

named_theorems reads_intro

lemma reads_get_volume [reads_intro]: "reads (get_volume sel)"
  by (simp add: reads_def get_volume_def of_sum_def split: sum.splits)

lemma reads_get_store [reads_intro]: "reads (get_store vol)"
  by (simp add: reads_def get_store_def of_sum_def split: sum.splits)

lemma reads_quiesced [reads_intro]: "reads (require_quiesced v iqn b)"
  by (simp add: reads_def require_quiesced_def Let_def)

lemma reads_id [reads_intro]: "reads (require_id req)"
  by (simp add: reads_def require_id_def ret_op_def err_op_def split: option.splits)

lemma reads_bucket [reads_intro]: "reads require_bucket"
  by (simp add: reads_def require_bucket_def split: option.splits)

lemma reads_of_sum [reads_intro]: "reads (of_sum r)"
  by (simp add: reads_def of_sum_def split: sum.splits)

lemma reads_keeps: "reads m \<Longrightarrow> keeps K m"
  by (simp add: reads_def keeps_def)

lemmas read_keeps_intro [keeps_intro] = reads_intro [THEN reads_keeps]

definition kept_at :: "('s \<Rightarrow> 's \<Rightarrow> bool) \<Rightarrow> ('s, 'a) op \<Rightarrow> 's \<Rightarrow> bool" where
  "kept_at K m s \<longleftrightarrow> K\<^sup>*\<^sup>* s (snd (m s))"

lemma kept_keeps: "keeps K m \<Longrightarrow> kept_at K m s"
  by (simp add: kept_at_def keeps_def)

lemma kept_read:
  assumes "reads m" and "\<And>a. fst (m s) = Ok a \<Longrightarrow> kept_at K (f a) s"
  shows "kept_at K (bind_op m f) s"
proof -
  obtain r where "m s = (r, s)" using assms(1) unfolding reads_def by (metis prod.collapse)
  then show ?thesis using assms(2) by (cases r) (simp_all add: kept_at_def bind_op_def)
qed

lemma kept_if: "(b \<Longrightarrow> kept_at K m s) \<Longrightarrow> (\<not> b \<Longrightarrow> kept_at K n s) \<Longrightarrow> kept_at K (if b then m else n) s"
  by simp

lemma addresses_eq:
  assumes "fst (get_volume sel st) = Ok vol" and "fst (get_store vol st) = Ok j"
  shows "addresses st sel j"
proof -
  have "get_volume sel st = (Ok vol, st)"
    using reads_get_volume [of sel] assms(1) unfolding reads_def by (metis prod.collapse)
  then show ?thesis using assms(2) by (simp add: addresses_def bind_op_def)
qed

lemma find_index_less: "find_index P xs = Some j \<Longrightarrow> j < length xs"
  by (induction xs arbitrary: j) (auto split: if_splits)

lemma get_store_less: "fst (get_store vol st) = Ok j \<Longrightarrow> j < length (ad_volumes st)"
  by (auto simp: get_store_def of_sum_def find_volume_store_def dest!: find_index_less split: sum.splits option.splits)

lemma target:
  assumes "\<not> addresses st sel i" and "length (ad_volumes st) = n"
    and "fst (get_volume sel st) = Ok vol" and "fst (get_store vol st) = Ok j"
  shows "j < n" "j \<noteq> i"
  using assms addresses_eq [OF assms(3,4)] get_store_less [OF assms(4)] by auto

locale shared_bucket = s3_bucket "ae_s3 A" objs for A :: "'s admin_env" and objs +
  assumes head: "objs (snd (ae_head A b s)) = objs s"
begin

abbreviation calm :: "nat \<Rightarrow> nat \<Rightarrow> 's admin_state \<Rightarrow> 's admin_state \<Rightarrow> bool" where
  "calm \<equiv> untouched objs"

lemmas vol_keeps [keeps_intro] =
  framed_store.read_keeps [OF vol_framed [OF laws]] framed_store.write_keeps [OF vol_framed [OF laws]]
  framed_store.grow_keeps [OF vol_framed [OF laws]] framed_store.flush_keeps [OF vol_framed [OF laws]]

lemma on_store_own [keeps_intro]: "keeps (store_own objs p) m \<Longrightarrow> keeps (vol_own objs p v) (on_store m)"
  unfolding on_store_def by (rule on_store_keeps)

lemma upd_vol_keeps: "(\<And>p v. keeps (vol_own objs p v) (\<lambda>w. (Ok (), f w))) \<Longrightarrow> j < n \<Longrightarrow> j \<noteq> i \<Longrightarrow> keeps (calm n i) (upd_vol j f)"
  unfolding upd_vol_def by (rule on_vol_keeps)

lemma invalidate_keeps [keeps_intro]: "keeps (calm n i) (invalidate_pool name)"
  unfolding invalidate_pool_def [abs_def] by (rule quiet_keeps_state) simp_all

lemma summary_keeps [keeps_intro]: "keeps (calm n i) (set_summary name f)"
  unfolding set_summary_def upd_snapshot_def [abs_def] by (rule quiet_keeps_state) simp_all

lemma service_keeps:
  assumes "\<And>s. objs (snd (m s)) = objs s"
  shows "keeps (calm n i) (on_service m)"
proof (rule keepsI, rule r_into_rtranclp)
  fix st r st' assume "on_service m st = (r, st')"
  then have "st' = st\<lparr>ad_svc := snd (m (ad_svc st))\<rparr>" by (auto simp: on_service_def split: prod.splits)
  then show "calm n i st st'" using assms by (auto intro: quiet_untouched)
qed

lemma unlock_keeps [keeps_intro]:
  assumes "keeps (calm n i) m" and "j < n" and "j \<noteq> i"
  shows "keeps (calm n i) (then_unlock j m)"
proof (rule keepsI)
  fix st r st' assume o: "then_unlock j m st = (r, st')"
  obtain q st1 where m: "m st = (q, st1)" by fastforce
  have "(calm n i)\<^sup>*\<^sup>* st st1" using assms(1) m by (rule keepsD)
  moreover have "(calm n i)\<^sup>*\<^sup>* st1 (snd (upd_vol j wc_unlock_io st1))"
    using upd_vol_keeps [OF vol_unlock_keeps assms(2,3)] by (simp add: keeps_def)
  ultimately show "(calm n i)\<^sup>*\<^sup>* st st'"
    using o m by (auto simp: then_unlock_def intro: rtranclp_trans split: result.splits)
qed

end

lemma kept_target:
  assumes "\<not> addresses st sel i" and "length (ad_volumes st) = n" and "fst (get_volume sel st) = Ok vol"
    and "\<And>j. j < n \<Longrightarrow> j \<noteq> i \<Longrightarrow> kept_at K (f j) st"
  shows "kept_at K (bind_op (get_store vol) f) st"
  by (rule kept_read [OF reads_get_store]) (rule assms(4) [OF target [OF assms(1-3)]], assumption+)

context shared_bucket
begin

lemma stats_same: "objs (snd (list_prefix_stats (ae_s3 A) p s)) = objs s"
proof -
  have "objs (snd (list_objects (ae_s3 A) q s)) = objs s" for q
    using list_objects_hoare [OF bucket_laws(4), of "objs s" q]
    by (cases "list_objects (ae_s3 A) q s"; cases "fst (list_objects (ae_s3 A) q s)") (force simp: hoare_def)+
  then show ?thesis
    by (auto simp: list_prefix_stats_def Let_def bind_op_def ret_op_def split: prod.splits result.splits) (metis snd_conv)+
qed

lemmas request_intro = keeps_intro on_vol_keeps upd_vol_keeps vol_lock_keeps service_keeps laws stats_same head
  copy_keeps wipe_keeps world_framed vol_framed

lemma s3_stats_kept: "keeps (calm n i) (volume_s3_stats (ae_s3 A) sel)"
  unfolding volume_s3_stats_def by (intro request_intro)

lemma copy_kept:
  assumes "\<not> addresses st from' i" and "\<not> addresses st to' i" and "length (ad_volumes st) = n"
  shows "kept_at (calm n i) (volume_copy (ae_s3 A) from' to' resume) st"
  unfolding volume_copy_def
  apply (rule kept_read [OF reads_get_volume], rule kept_read [OF reads_get_volume], rule kept_if, rule kept_keeps, rule keeps_err)
  apply (rule kept_target [OF assms(1,3)], assumption, rule kept_target [OF assms(2,3)], assumption, rule kept_keeps)
  by (intro request_intro; assumption)

lemma wipe_kept:
  assumes "\<not> addresses st sel i" and "length (ad_volumes st) = n"
  shows "kept_at (calm n i) (volume_wipe (ae_s3 A) sel) st"
  unfolding volume_wipe_def
  apply (rule kept_read [OF reads_get_volume], rule kept_target [OF assms], assumption, rule kept_keeps)
  by (intro request_intro; assumption)

lemma gc_kept:
  assumes "\<not> addresses st sel i" and "length (ad_volumes st) = n"
  shows "kept_at (calm n i) (volume_gc (ae_s3 A) sel) st"
  unfolding volume_gc_def
  apply (rule kept_read [OF reads_get_volume], rule kept_target [OF assms], assumption, rule kept_keeps)
  by (intro request_intro; assumption)

lemma create_kept:
  assumes "\<not> addresses st (rq_volume req) i" and "length (ad_volumes st) = n"
  shows "kept_at (calm n i) (volume_snapshot_create (ae_s3 A) req) st"
  unfolding volume_snapshot_create_def Let_def
  apply (rule kept_read [OF reads_get_volume], rule kept_read [OF reads_quiesced], rule kept_target [OF assms], assumption, rule kept_keeps)
  by (intro capture_plain request_intro; assumption)

lemma list_kept:
  assumes "\<not> addresses st sel i" and "length (ad_volumes st) = n"
  shows "kept_at (calm n i) (volume_snapshot_list (ae_s3 A) sel) st"
  unfolding volume_snapshot_list_def
  apply (rule kept_read [OF reads_get_volume], rule kept_target [OF assms], assumption, rule kept_keeps)
  by (intro request_intro; assumption)

lemma delete_kept:
  assumes "\<not> addresses st (rq_volume req) i" and "length (ad_volumes st) = n"
  shows "kept_at (calm n i) (volume_snapshot_delete (ae_s3 A) req) st"
  unfolding volume_snapshot_delete_def
  apply (rule kept_read [OF reads_get_volume], rule kept_read [OF reads_id], rule kept_target [OF assms], assumption, rule kept_keeps)
  by (intro request_intro; assumption)

lemma restore_kept:
  assumes "\<not> addresses st (rq_volume req) i" and "length (ad_volumes st) = n"
  shows "kept_at (calm n i) (volume_snapshot_restore (ae_s3 A) req) st"
  unfolding volume_snapshot_restore_def
  apply (rule kept_read [OF reads_get_volume], rule kept_read [OF reads_quiesced], rule kept_read [OF reads_id],
      rule kept_target [OF assms], assumption, rule kept_keeps)
  by (intro request_intro; assumption)

lemma clone_step:
  assumes "j < n" and "j \<noteq> i"
  shows "keeps (calm n i) (\<lambda>st. on_vol j (on_store (snapshot_clone_into (ae_s3 A) (conf_at l st) sid)) st)"
proof -
  have "keeps (calm n i) (on_vol j (on_store (snapshot_clone_into (ae_s3 A) c sid)))" for c
    by (intro request_intro assms)
  then show ?thesis by (simp add: keeps_def)
qed

lemma summary_seen: "keeps (calm n i) (\<lambda>st. set_summary name (f st) st)"
  using summary_keeps by (simp add: keeps_def)

lemma clone_kept:
  assumes "\<not> addresses st (rq_volume req) i" and "\<not> addresses st (rq_to req) i" and "length (ad_volumes st) = n"
  shows "kept_at (calm n i) (volume_snapshot_clone (ae_s3 A) req) st"
  unfolding volume_snapshot_clone_def
  apply (rule kept_read [OF reads_get_volume], rule kept_read [OF reads_get_volume], rule kept_if, rule kept_keeps, rule keeps_err)
  apply (rule kept_read [OF reads_id], rule kept_target [OF assms(1,3)], assumption, rule kept_target [OF assms(2,3)], assumption, rule kept_keeps)
  by (intro clone_step summary_seen request_intro; assumption)

lemma migrate_kept:
  assumes "\<not> addresses st sel i" and "length (ad_volumes st) = n"
  shows "kept_at (calm n i) (volume_migrate_cow (ae_s3 A) sel) st"
  unfolding volume_migrate_cow_def
  apply (rule kept_read [OF reads_get_volume], rule kept_read [OF reads_quiesced], rule kept_target [OF assms], assumption, rule kept_keeps)
  by (intro capture_plain request_intro; assumption)

lemma grow_kept:
  assumes "\<not> addresses st sel i" and "length (ad_volumes st) = n"
  shows "kept_at (calm n i) (volume_grow A sel cap) st"
  unfolding volume_grow_def Let_def
  apply (rule kept_read [OF reads_of_sum], rule kept_if, rule kept_keeps, rule keeps_err)
  apply (rule kept_read [OF reads_get_volume], rule kept_target [OF assms], assumption, rule kept_keeps)
  by (intro capture_plain request_intro quiet_keeps_state; simp)

lemma health_keeps: "keeps (calm n i) (health_json A ms)"
proof -
  have "keeps (calm n i) (probe_s3 A ms)"
  proof (rule keepsI)
    fix st r st' assume p: "probe_s3 A ms st = (r, st')"
    have "keeps (calm n i) (on_service (ae_head A b))" for b by (intro request_intro)
    then have "(calm n i)\<^sup>*\<^sup>* st (snd (on_service (ae_head A b) st))" for b by (simp add: keeps_def)
    moreover have "st' = st \<or> (\<exists>b. st' = snd (on_service (ae_head A b) st))"
      using p by (auto simp: probe_s3_def Let_def split: option.splits prod.splits result.splits) (metis snd_conv)+
    ultimately show "(calm n i)\<^sup>*\<^sup>* st st'" by auto
  qed
  then show ?thesis unfolding health_json_def Let_def by (intro request_intro)
qed

lemma reload_keeps: "keeps (calm n i) (reload A)"
proof (rule keepsI, rule r_into_rtranclp)
  fix st r st' assume "reload A st = (r, st')"
  then show "calm n i st st'"
    by (auto simp: reload_def apply_safe_reload_def Let_def untouched_refl intro!: quiet_untouched split: option.splits sum.splits)
qed

lemma set_pool_keeps [keeps_intro]:
  assumes "\<And>v c. pool_kept v c (f c)"
  shows "keeps (calm n i) (set_pool f)"
  unfolding set_pool_def [abs_def] Let_def using assms by (intro quiet_keeps_state) simp_all

lemma answer_kept: "kept_at K m st \<Longrightarrow> kept_at K (answer m) st"
  by (cases "m st"; cases "fst (m st)") (auto simp: kept_at_def answer_def)

lemma pair_keeps [keeps_intro]: "keeps K (Pair r)"
  by (simp add: keeps_def)

lemma pool_request_keeps:
  "keeps (calm n i) (set_pool cache_disable)"
  "keeps (calm n i) (bind_op (of_sum r) (\<lambda>mb. set_pool (cache_enable mb)))"
  "keeps (calm n i) (bind_op (of_sum r') (\<lambda>mb. set_pool (if mb = 0 then cache_disable else cache_enable (Some mb))))"
  by (intro keeps_bind set_pool_keeps reads_keeps reads_of_sum; simp)+

lemma dispatch_kept:
  assumes "\<not> addresses st (rq_volume req) i" and "\<not> addresses st (rq_to req) i" and "length (ad_volumes st) = n"
  shows "kept_at (calm n i) (dispatch A ms req) st"
  unfolding dispatch_def Let_def
  by (intro kept_if;
      ((rule kept_keeps, rule keeps_same pair_keeps) |
       (rule answer_kept, ((rule kept_keeps, rule pool_request_keeps s3_stats_kept health_keeps reload_keeps) |
          (rule copy_kept wipe_kept gc_kept create_kept list_kept delete_kept restore_kept clone_kept migrate_kept grow_kept; rule assms)))))

lemma with_prep_kept:
  assumes "kept_at K m (snd x)" and "\<And>prep st'. m (snd x) = (Ok prep, st') \<Longrightarrow> keeps (snd_own K) (f prep)"
  shows "kept_at (snd_own K) (with_prep m f) x"
proof -
  obtain q st' where m: "m (snd x) = (q, st')" by fastforce
  have "K\<^sup>*\<^sup>* (snd x) st'" using assms(1) m by (simp add: kept_at_def)
  moreover have "K\<^sup>*\<^sup>* (snd y) (snd (snd (on_fst w y)))" for w :: "(client, unit) op" and y
    using on_fst_framed [of K w] by (cases y) (simp add: keeps_def snd_own_trancl)
  moreover have "K\<^sup>*\<^sup>* st' (snd (snd (bind_op (on_fst w) (\<lambda>_. f prep) (fst x, st'))))" if "q = Ok prep" for w :: "(client, unit) op" and prep
  proof -
    have "keeps (snd_own K) (bind_op (on_fst w) (\<lambda>_. f prep))" using assms(2) m that by (intro keeps_intro) simp
    then show ?thesis by (simp add: keeps_def snd_own_trancl)
  qed
  ultimately show ?thesis
    by (cases q) (auto simp: kept_at_def with_prep_def on_snd_def m snd_own_trancl intro: rtranclp_trans)
qed

end

section \<open>Images\<close>

lemma last_line_keeps [keeps_intro]:
  assumes "keeps (snd_own K) m"
  shows "keeps (snd_own K) (last_line f m)"
proof (rule keepsI)
  fix x r y assume l: "last_line f m x = (r, y)"
  obtain q z where m: "m x = (q, z)" by (cases "m x")
  have "(snd_own K)\<^sup>*\<^sup>* x z" using assms m by (rule keepsD)
  moreover have "(snd_own K)\<^sup>*\<^sup>* z y"
    using l m keepsD [OF on_fst_framed [of K]] by (cases q; cases y; cases z) (auto simp: last_line_def)
  ultimately show "(snd_own K)\<^sup>*\<^sup>* x y" by (rule rtranclp_trans)
qed

lemma seed_client_keeps [keeps_intro]: "keeps (snd_own K) m \<Longrightarrow> keeps (snd_own K) (seed_client m)"
  by (rule keepsI) (auto simp: seed_client_def snd_own_trancl dest!: keepsD split: prod.splits)

lemma export_client_keeps [keeps_intro]: "keeps (snd_own K) m \<Longrightarrow> keeps (snd_own K) (export_client m)"
  by (rule keepsI) (auto simp: export_client_def snd_own_trancl dest!: keepsD split: prod.splits)

lemma get_volume_state: "get_volume sel st = (r, st') \<Longrightarrow> st' = st"
  using reads_get_volume [of sel] unfolding reads_def by (metis snd_conv)

lemma get_store_state: "get_store vol st = (r, st') \<Longrightarrow> st' = st"
  using reads_get_store [of vol] unfolding reads_def by (metis snd_conv)

lemma addressesI: "get_volume sel st = (Ok vol, s1) \<Longrightarrow> get_store vol s1 = (Ok j, s2) \<Longrightarrow> addresses st sel j"
  using get_volume_state [of sel st "Ok vol" s1] by (intro addresses_eq [of sel st vol]) auto

lemma target_prep:
  assumes "bind_op (get_volume sel) (\<lambda>vol. bind_op (get_store vol) (f vol)) st = (Ok prep, st')"
    and "\<And>vol j st st'. f vol j st = (Ok prep, st') \<Longrightarrow> ip_store prep = j"
  shows "addresses st sel (ip_store prep)"
proof -
  obtain vol s1 where v: "get_volume sel st = (Ok vol, s1)" and "bind_op (get_store vol) (f vol) s1 = (Ok prep, st')"
    using assms(1) unfolding bind_op_Ok by blast
  then obtain j s2 where j: "get_store vol s1 = (Ok j, s2)" and f: "f vol j s2 = (Ok prep, st')"
    unfolding bind_op_Ok by blast
  have "s1 = st" using get_volume_state [OF v] .
  then show ?thesis using v j assms(2) [OF f] by (intro addresses_eq [of sel st vol]) simp_all
qed

lemma prepare_write_target:
  assumes "prepare_write_image E req st = (Ok prep, st')"
  shows "addresses st (rq_volume req) (ip_store prep)"
proof (cases "rq_size req")
  case (Some n)
  then show ?thesis
    using assms unfolding prepare_write_image_def
    by (cases "n = 0") (auto simp: err_op_def bind_op_Ok prep_of_def Let_def intro: addressesI split: if_splits)
qed (use assms in \<open>simp add: prepare_write_image_def err_op_def\<close>)

lemma prepare_export_target: "prepare_export E req st = (Ok prep, st') \<Longrightarrow> addresses st (rq_volume req) (ip_store prep)"
  unfolding prepare_export_def
  by (erule target_prep) (auto simp: prep_of_def Let_def split: if_splits)

lemma addresses_less: "addresses st sel j \<Longrightarrow> j < length (ad_volumes st)"
  unfolding addresses_def
  by (auto simp: bind_op_def dest!: get_volume_state split: prod.splits result.splits) (metis fst_conv get_store_less)

context shared_bucket
begin

lemma prep_of_keeps: "keeps K (prep_of E vol n j)" "keeps K (\<lambda>st. prep_of E vol (f st) j st)"
  by (simp_all add: keeps_def prep_of_def)

lemma write_image_kept:
  assumes "\<not> addresses (snd x) (rq_volume req) i" and "length (ad_volumes (snd x)) = n"
  shows "kept_at (snd_own (calm n i)) (handle_write_image (ae_s3 A) req) x"
  unfolding handle_write_image_def
proof (rule with_prep_kept)
  show "kept_at (calm n i) (prepare_write_image (ae_s3 A) req) (snd x)"
    unfolding prepare_write_image_def Let_def by (rule kept_keeps) (intro capture_plain prep_of_keeps request_intro)
  fix prep st' assume "prepare_write_image (ae_s3 A) req (snd x) = (Ok prep, st')"
  then have "addresses (snd x) (rq_volume req) (ip_store prep)" by (rule prepare_write_target)
  then have j: "ip_store prep < n" "ip_store prep \<noteq> i" using assms addresses_less by auto
  have "keeps (snd_own (calm n i)) (seed_client (seed_image_from_reader (world_ops (ae_s3 A) (ip_store prep)) eof m))" for eof m
    by (intro keeps_intro seed_keeps world_framed laws j)
  then have "keeps (snd_own (calm n i)) (\<lambda>x. seed_client (seed_image_from_reader (world_ops (ae_s3 A) (ip_store prep)) (cn_eof (fst x)) m) x)" for m
    by (simp add: keeps_def)
  then show "keeps (snd_own (calm n i)) (last_line f (\<lambda>x. seed_client (seed_image_from_reader (world_ops (ae_s3 A) (ip_store prep)) (cn_eof (fst x)) (ip_size prep)) x))" for f
    by (rule last_line_keeps)
qed

lemma export_kept:
  assumes "\<not> addresses (snd x) (rq_volume req) i" and "length (ad_volumes (snd x)) = n"
  shows "kept_at (snd_own (calm n i)) (handle_export (ae_s3 A) req) x"
  unfolding handle_export_def
proof (rule with_prep_kept)
  show "kept_at (calm n i) (prepare_export (ae_s3 A) req) (snd x)"
    unfolding prepare_export_def Let_def by (rule kept_keeps) (intro capture_plain prep_of_keeps request_intro)
  fix prep st' assume "prepare_export (ae_s3 A) req (snd x) = (Ok prep, st')"
  then have "addresses (snd x) (rq_volume req) (ip_store prep)" by (rule prepare_export_target)
  then have j: "ip_store prep < n" "ip_store prep \<noteq> i" using assms addresses_less by auto
  have "keeps (snd_own (calm n i)) (export_client (export_image_to_writer (world_ops (ae_s3 A) (ip_store prep)) eof m))" for eof m
    by (intro keeps_intro export_keeps world_framed laws j)
  then have "keeps (snd_own (calm n i)) (\<lambda>x. export_client (export_image_to_writer (world_ops (ae_s3 A) (ip_store prep)) (cn_eof (fst x)) m) x)" for m
    by (simp add: keeps_def)
  then show "keeps (snd_own (calm n i)) (last_line f (\<lambda>x. export_client (export_image_to_writer (world_ops (ae_s3 A) (ip_store prep)) (cn_eof (fst x)) (ip_size prep)) x))" for f
    by (rule last_line_keeps)
qed

end

section \<open>Traffic\<close>

datatype io_request = IoRead nat nat | IoWrite nat bytes | IoFlush

fun run_io :: "'s s3_env \<Rightarrow> io_request \<Rightarrow> ('s volume_store, bytes) op" where
  "run_io E (IoRead off n) = bs_read_at (vol_ops E) off n"
| "run_io E (IoWrite off x) = bind_op (bs_write_at (vol_ops E) off x) (\<lambda>_. ret_op [])"
| "run_io E IoFlush = bind_op (bs_flush (vol_ops E)) (\<lambda>_. ret_op [])"

text \<open>
  One step of the daemon that does not concern volume \<open>i\<close>: block I/O on another volume, or a whole
  connection to the control socket whose request names other volumes or none.
\<close>

inductive traffic ::
  "'s admin_env \<Rightarrow> (string \<Rightarrow> string + admin_request) \<Rightarrow> nat \<Rightarrow> 's admin_state \<Rightarrow> 's admin_state \<Rightarrow> bool"
  for A decode i where
  io: "j < length (ad_volumes st) \<Longrightarrow> j \<noteq> i \<Longrightarrow> traffic A decode i st (snd (on_vol j (run_io (ae_s3 A) r) st))"
| admin: "(\<And>req. decode (str_trim line) = Inr req \<Longrightarrow> \<not> addresses st (rq_volume req) i \<and> \<not> addresses st (rq_to req) i) \<Longrightarrow>
    traffic A decode i st (snd (snd (handle_client A decode ms line (c, st))))"

context shared_bucket
begin

lemma run_io_keeps: "keeps (vol_own objs p v) (run_io (ae_s3 A) r)"
  by (cases r) (simp_all add: keeps_bind keeps_ret vol_keeps)

lemma client_kept:
  assumes "\<And>req. decode (str_trim line) = Inr req \<Longrightarrow> \<not> addresses st (rq_volume req) i \<and> \<not> addresses st (rq_to req) i"
    and "length (ad_volumes st) = n"
  shows "kept_at (snd_own (calm n i)) (handle_client A decode ms line) (c, st)"
proof (cases "decode (str_trim line)")
  case (Inl e)
  then show ?thesis by (simp add: handle_client_def kept_at_def ret_op_def err_op_def)
next
  case (Inr req)
  note a = assms(1) [OF Inr]
  have d: "kept_at (snd_own (calm n i)) (bind_op (on_snd (dispatch A ms req)) (\<lambda>v. on_fst (write_json_line v))) (c, st)"
  proof -
    obtain q st' where m: "dispatch A ms req st = (q, st')" by fastforce
    have "(calm n i)\<^sup>*\<^sup>* st st'" using dispatch_kept [of st req i n ms] a assms(2) m by (simp add: kept_at_def)
    then show ?thesis
      by (cases q) (simp_all add: kept_at_def snd_own_trancl bind_op_def on_snd_def on_fst_def m split: prod.splits)
  qed
  have w: "kept_at (snd_own (calm n i)) (handle_write_image (ae_s3 A) req) (c, st)"
    and e: "kept_at (snd_own (calm n i)) (handle_export (ae_s3 A) req) (c, st)"
    using write_image_kept [of "(c, st)" req i n] export_kept [of "(c, st)" req i n] a assms(2) by simp_all
  show ?thesis
    unfolding handle_client_def using d w e by (simp add: Inr kept_at_def ret_op_def)
qed

lemma traffic_calm:
  assumes "traffic A decode i st st'" and "length (ad_volumes st) = n"
  shows "calm n i st st'"
  using assms
proof cases
  case (io j r)
  have "keeps (calm n i) (on_vol j (run_io (ae_s3 A) r))"
    using io assms(2) by (intro on_vol_keeps run_io_keeps) simp_all
  then show ?thesis using io by (auto simp: keeps_def intro: untouched_trancl)
next
  case (admin line ms c)
  then have "kept_at (snd_own (calm n i)) (handle_client A decode ms line) (c, st)"
    using assms(2) by (intro client_kept)
  then show ?thesis using admin by (auto simp: kept_at_def snd_own_trancl intro: untouched_trancl)
qed

lemma traffic_run:
  assumes "(traffic A decode i)\<^sup>*\<^sup>* st st'" and "separated n i st"
  shows "calm n i st st'"
  using assms(1)
proof (induction rule: rtranclp_induct)
  case base
  show ?case by (rule untouched_refl)
next
  case (step y z)
  then have "separated n i y" using assms(2) by (simp add: untouched_def)
  then have "calm n i y z" using step(2) by (intro traffic_calm) (simp_all add: separated_def)
  with step(3) show ?case by (rule untouched_trans)
qed

end

section \<open>Two volumes in one bucket\<close>

definition demo_summary :: "string \<Rightarrow> string \<Rightarrow> volume_summary" where
  "demo_summary name p =
     \<lparr>vs_name = name, vs_iqn = ''iqn.'' @ name, vs_capacity = 8, vs_auth = ''none'', vs_prefix = p, vs_chunk_size = 4,
      vs_compression = ''none'', vs_storage = ''cow'', vs_write_cache = ''memory'', vs_write_cache_max_bytes = 4,
      vs_write_buffer_max_bytes = 0\<rparr>"

definition demo_handle :: "string \<Rightarrow> string \<Rightarrow> bucket admin_handle" where
  "demo_handle name p =
     \<lparr>ah_name = name, ah_iqn = ''iqn.'' @ name,
      ah_store = wc_build (cached_new \<lparr>st_conf = (demo_conf Cow)\<lparr>s3_prefix := p, s3_volume := name\<rparr>, st_svc = \<lparr>bk_objs = [], bk_script = []\<rparr>\<rparr>
          (cache_new 64) name)
        \<lparr>wcc_mode = WMemory, wcc_max_bytes = 4, wcc_path = None\<rparr> 0 0 None \<lparr>fs_files = [], fs_faults = []\<rparr> dirty_new\<rparr>"

definition demo_world :: "bucket admin_state" where
  "demo_world =
     \<lparr>ad_config_path = None, ad_started = 0, ad_now = 0, ad_cache = cache_new 64, ad_connections = 0, ad_session_count = 0,
      ad_svc = \<lparr>bk_objs = [], bk_script = []\<rparr>, ad_sessions = sink_new metrics_new [],
      ad_snapshot = \<lparr>as_bind = ''b'', as_portals = [], as_instance = None, as_volumes = [demo_summary ''a'' ''v'', demo_summary ''b'' ''w''],
        as_cache_max_bytes = 64, as_s3_bucket = Some ''bucket'', as_s3_endpoint = None, as_s3_region = ''r'', as_s3_force_path_style = False,
        as_performance_optimiser = False\<rparr>,
      ad_volumes = [demo_handle ''a'' ''v'', demo_handle ''b'' ''w'']\<rparr>"

definition demo_env :: "bucket admin_env" where
  "demo_env = \<lparr>ae_s3 = bk_env, ae_extract = (\<lambda>_. Inl ''none''), ae_bytesize = (\<lambda>_. Inl ''none''), ae_head = (\<lambda>_. ret_op ())\<rparr>"

interpretation demo: shared_bucket demo_env objs_of
  by unfold_locales (simp_all add: demo_env_def bk_laws ret_op_def)

lemma demo_separated: "separated 2 0 demo_world"
  by (auto simp: separated_def demo_world_def demo_handle_def wc_build_def cached_new_def apart_def less_Suc_eq numeral_2_eq_2)

lemma demo_handle_rep: "vol_rep bk_env objs_of CNone small_bodies WMemory (\<lambda>_. 0) demo_geom (ah_store (demo_handle name p))"
proof -
  have s: "s3_rep bk_env objs_of CNone small_bodies (\<lambda>_. 0) demo_geom
      \<lparr>st_conf = (demo_conf Cow)\<lparr>s3_prefix := p, s3_volume := name\<rparr>, st_svc = \<lparr>bk_objs = [], bk_script = []\<rparr>\<rparr>"
    by (auto simp: s3_rep_def demo_geom_def demo_conf_def wf_geom_def zero_beyond_def codable_def chunks_hold_def chunk_value_def
        pool_ok_def objs_of_def disk_read_def map_replicate_trivial zeros_def map_replicate_const)
  have "cached_rep_at False (s3_rep bk_env objs_of CNone small_bodies) (\<lambda>_. 0) demo_geom
      (cached_new \<lparr>st_conf = (demo_conf Cow)\<lparr>s3_prefix := p, s3_volume := name\<rparr>, st_svc = \<lparr>bk_objs = [], bk_script = []\<rparr>\<rparr> (cache_new 64) name)"
    by (rule cached_new_rep, rule s, rule cache_new_inv) (simp add: cache_lookup_def cache_new_def)
  from fresh_rep [where Rep = "cached_rep_at False (s3_rep bk_env objs_of CNone small_bodies)", OF this,
      of "\<lparr>wcc_mode = WMemory, wcc_max_bytes = 4, wcc_path = None\<rparr>"]
  show ?thesis by (simp add: vol_rep_def demo_handle_def zero_beyond_def)
qed

lemma demo_world_rep:
  "vol_rep bk_env objs_of CNone small_bodies WMemory (\<lambda>_. 0) demo_geom (store_at 0 demo_world)"
  "vol_rep bk_env objs_of CNone small_bodies WMemory (\<lambda>_. 0) demo_geom (store_at 1 demo_world)"
proof -
  have "store_at 0 demo_world = ah_store (demo_handle ''a'' ''v'')" "store_at 1 demo_world = ah_store (demo_handle ''b'' ''w'')"
    by (simp_all add: store_at_def check_out_def demo_world_def demo_handle_def wc_build_def cached_new_def)
  then show "vol_rep bk_env objs_of CNone small_bodies WMemory (\<lambda>_. 0) demo_geom (store_at 0 demo_world)"
    "vol_rep bk_env objs_of CNone small_bodies WMemory (\<lambda>_. 0) demo_geom (store_at 1 demo_world)"
    by (simp_all only: demo_handle_rep)
qed



end
