(* ===== verification/AdminProps.thy ===== *)
theory AdminProps
  imports Isolation
begin

text \<open>
  Properties of the requests of the control socket (\<open>src/admin.rs\<close>) over the shared bucket: the copy of
  one volume onto another, the wipe that cannot succeed, and failed requests that discard acknowledged
  writes.
\<close>

section \<open>One volume in the shared state\<close>

lemma store_at_in:
  assumes "i < length (ad_volumes st)"
  shows "store_at i (check_in i w st) = w"
proof -
  obtain s where s: "wc_inner w = s" by blast
  have "s\<lparr>cst_cache := cst_cache s, cst_inner := (cst_inner s)\<lparr>st_svc := st_svc (cst_inner s)\<rparr>\<rparr> = s" by simp
  then show ?thesis using assms s by (simp add: store_at_def check_out_def check_in_def)
qed

definition spread :: "nat \<Rightarrow> 's admin_state \<Rightarrow> bool" where
  "spread n st \<longleftrightarrow> length (ad_volumes st) = n \<and> (\<forall>i < n. separated n i st)"

lemma on_vol_spread:
  assumes "\<And>p v. keeps (vol_own objs p v) m" and "on_vol i m st = (r, st')" and "spread n st" and "i < n"
  shows "spread n st'"
proof -
  obtain w where m: "m (store_at i st) = (r, w)" and st': "st' = check_in i w st"
    using assms(2) by (auto simp: on_vol_def split: prod.splits)
  have len: "length (ad_volumes st) = n" using assms(3,4) by (auto simp: spread_def separated_def)
  have "vol_prefix w = vol_prefix (handle_store st i)" "vol_name w = vol_name (handle_store st i)"
    using vol_keepsD [OF assms(1) m] by (simp_all add: store_at_def check_out_def)
  then have "vol_prefix (handle_store st' l) = vol_prefix (handle_store st l)" "vol_name (handle_store st' l) = vol_name (handle_store st l)"
    "length (ad_volumes st') = length (ad_volumes st)" for l
    using len assms(4) by (cases "l = i"; simp add: st' check_in_def nth_list_update)+
  then show ?thesis using assms(3) by (simp add: spread_def separated_def)
qed

lemma on_vol_hoare:
  assumes "hoare P m Q R" and "\<And>p v. keeps (vol_own objs p v) m" and "i < n"
  shows "hoare (\<lambda>st. spread n st \<and> P (store_at i st)) (on_vol i m)
    (\<lambda>a st. spread n st \<and> Q a (store_at i st)) (\<lambda>st. spread n st \<and> R (store_at i st))"
  unfolding hoare_def
proof (intro allI impI)
  fix st assume s: "spread n st \<and> P (store_at i st)"
  then have len: "length (ad_volumes st) = n" using assms(3) by (auto simp: spread_def separated_def)
  obtain r w where m: "m (store_at i st) = (r, w)" by fastforce
  have o: "on_vol i m st = (r, check_in i w st)" by (simp add: on_vol_def m)
  have "post Q R (m (store_at i st))" using assms(1) s by (simp add: hoare_def)
  then show "post (\<lambda>a st. spread n st \<and> Q a (store_at i st)) (\<lambda>st. spread n st \<and> R (store_at i st)) (on_vol i m st)"
    using on_vol_spread [OF assms(2) o _ assms(3)] s store_at_in [of i st w] len assms(3)
    by (cases r) (simp_all add: o m)
qed

lemma on_vol_other:
  assumes "hoare P m Q R" and "\<And>p v. keeps (vol_own objs p v) m" and "i < n" and "j < n" and "i \<noteq> j"
  shows "hoare (\<lambda>st. spread n st \<and> P (store_at i st) \<and> vol_rep E objs a U md d g (store_at j st)) (on_vol i m)
    (\<lambda>_ st. spread n st \<and> vol_rep E objs a U md d g (store_at j st)) (\<lambda>st. spread n st \<and> vol_rep E objs a U md d g (store_at j st))"
  unfolding hoare_def
proof (intro allI impI)
  fix st assume s: "spread n st \<and> P (store_at i st) \<and> vol_rep E objs a U md d g (store_at j st)"
  obtain r st' where o: "on_vol i m st = (r, st')" by fastforce
  have "post (\<lambda>a st. spread n st \<and> Q a (store_at i st)) (\<lambda>st. spread n st \<and> R (store_at i st)) (on_vol i m st)"
    using on_vol_hoare [OF assms(1-3)] s by (simp add: hoare_def)
  moreover have "untouched objs n j st st'"
    using on_vol_keeps [OF assms(2,3,5)] o untouched_trancl by (metis keepsD)
  then have "vol_rep E objs a U md d g (store_at j st')"
    by (rule untouched_rep) (use s assms(4) in \<open>auto simp: spread_def\<close>)
  ultimately show "post (\<lambda>_ st. spread n st \<and> vol_rep E objs a U md d g (store_at j st))
      (\<lambda>st. spread n st \<and> vol_rep E objs a U md d g (store_at j st)) (on_vol i m st)"
    by (cases r) (simp_all add: o)
qed

definition world_rep ::
  "'s s3_env \<Rightarrow> ('s \<Rightarrow> string \<rightharpoonup> bytes) \<Rightarrow> compression \<Rightarrow> bytes set \<Rightarrow> write_cache_mode \<Rightarrow> nat \<Rightarrow> nat \<Rightarrow>
    (nat \<Rightarrow> byte) \<Rightarrow> geometry \<Rightarrow> 's admin_state \<Rightarrow> bool" where
  "world_rep E objs a U m n i d g st \<longleftrightarrow> spread n st \<and> vol_rep E objs a U m d g (store_at i st)"

lemmas vol_ops_keeps =
  framed_store.read_keeps [OF vol_framed] framed_store.write_keeps [OF vol_framed] framed_store.grow_keeps [OF vol_framed]
  framed_store.flush_keeps [OF vol_framed] framed_store.present_keeps [OF vol_framed] framed_store.remove_keeps [OF vol_framed]

lemma world_ops_sel [simp]:
  "bs_read_at (world_ops E i) = (\<lambda>off n. on_vol i (bs_read_at (vol_ops E) off n))"
  "bs_write_at (world_ops E i) = (\<lambda>off x. on_vol i (bs_write_at (vol_ops E) off x))"
  "bs_capacity (world_ops E i) = (\<lambda>st. bs_capacity (vol_ops E) (store_at i st))"
  "bs_set_capacity (world_ops E i) = (\<lambda>c. on_vol i (bs_set_capacity (vol_ops E) c))"
  "bs_flush (world_ops E i) = on_vol i (bs_flush (vol_ops E))"
  "bs_block_size (world_ops E i) = (\<lambda>st. bs_block_size (vol_ops E) (store_at i st))"
  "bs_chunk_size (world_ops E i) = (\<lambda>st. bs_chunk_size (vol_ops E) (store_at i st))"
  "bs_present_chunks (world_ops E i) = on_vol i (bs_present_chunks (vol_ops E))"
  "bs_delete_chunk (world_ops E i) = (\<lambda>idx. on_vol i (bs_delete_chunk (vol_ops E) idx))"
  by (simp_all add: world_ops_def)

lemma world_rep_eq: "world_rep E objs a U m n i d g = (\<lambda>st. spread n st \<and> vol_rep E objs a U m d g (store_at i st))"
  by (simp add: world_rep_def fun_eq_iff)

lemma world_store:
  assumes "s3_laws E objs" and "inj_on (e_blake3 E) U" and "i < n"
  shows "block_store (world_ops E i) (world_rep E objs a U m n i) (s3_adm E a U)"
proof -
  note V = vol_store [OF assms(1,2), of a m]
  note k = vol_ops_keeps [OF assms(1)]
  show ?thesis
    unfolding world_rep_eq
  proof (unfold_locales, goal_cases)
    case (1 d g s) then show ?case using block_store.geom [OF V, of d g "store_at i s"] by simp
  next
    case (2 d g s) then show ?case using block_store.wf [OF V, of d g "store_at i s"] by simp
  next
    case (3 d g off n')
    show ?case unfolding world_ops_sel
      by (rule hoare_conseq [OF on_vol_hoare [OF block_store.read_at [OF V] k(1) assms(3)]]) auto
  next
    case (4 g d off bs)
    show ?case unfolding world_ops_sel
      by (rule hoare_conseq [OF on_vol_hoare [OF block_store.write_at [OF V 4] k(2) assms(3)]]) auto
  next
    case (5 c d g)
    show ?case unfolding world_ops_sel
      by (rule hoare_conseq [OF on_vol_hoare [OF block_store.set_capacity [OF V 5] k(3) assms(3)]]) auto
  next
    case (6 d g)
    show ?case unfolding world_ops_sel
      by (rule hoare_conseq [OF on_vol_hoare [OF block_store.flush [OF V] k(4) assms(3)]]) auto
  next
    case (7 d g)
    show ?case unfolding world_ops_sel
      by (rule hoare_conseq [OF on_vol_hoare [OF block_store.present [OF V] k(5) assms(3)]]) auto
  next
    case (8 idx d g)
    show ?case unfolding world_ops_sel
      by (rule hoare_conseq [OF on_vol_hoare [OF block_store.delete [OF V 8] k(6) assms(3)]]) auto
  qed
qed

lemma world_pair:
  assumes "s3_laws E objs" and "inj_on (e_blake3 E) U" and "inj_on (e_blake3 E) U'" and "i < n" and "j < n" and "i \<noteq> j"
  shows "store_pair (world_ops E i) (world_rep E objs a U m n i) (s3_adm E a U) (world_ops E j) (world_rep E objs a' U' m' n j) (s3_adm E a' U')"
proof (intro store_pair.intro world_store assms store_pair_axioms.intro, goal_cases)
  note V = vol_store [OF assms(1,2), of a m] and V' = vol_store [OF assms(1,3), of a' m']
  note k = vol_ops_keeps [OF assms(1)] and ij = assms(4,5,6) and ji = assms(5,4) assms(6) [symmetric]
  note reps = world_rep_eq world_ops_sel
  case (1 d g e h off n')
  show ?case unfolding reps
    by (rule hoare_conseq [OF on_vol_other [OF block_store.read_at [OF V] k(1) ij]]) auto
next
  note V = vol_store [OF assms(1,2), of a m] and k = vol_ops_keeps [OF assms(1)]
  case (2 d g e h)
  show ?case unfolding world_rep_eq world_ops_sel
    by (rule hoare_conseq [OF on_vol_other [OF block_store.present [OF V] k(5) assms(4,5,6)]]) auto
next
  note V' = vol_store [OF assms(1,3), of a' m'] and k = vol_ops_keeps [OF assms(1)]
  case (3 h e off bs d g)
  show ?case unfolding world_rep_eq world_ops_sel
    by (rule hoare_conseq [OF on_vol_other [OF block_store.write_at [OF V' 3] k(2) assms(5,4) assms(6) [symmetric]]]) auto
next
  note V' = vol_store [OF assms(1,3), of a' m'] and k = vol_ops_keeps [OF assms(1)]
  case (4 d g e h)
  show ?case unfolding world_rep_eq world_ops_sel
    by (rule hoare_conseq [OF on_vol_other [OF block_store.present [OF V'] k(5) assms(5,4) assms(6) [symmetric]]]) auto
next
  note V' = vol_store [OF assms(1,3), of a' m'] and k = vol_ops_keeps [OF assms(1)]
  case (5 idx d g e h)
  show ?case unfolding world_rep_eq world_ops_sel
    by (rule hoare_conseq [OF on_vol_other [OF block_store.delete [OF V' 5] k(6) assms(5,4) assms(6) [symmetric]]]) auto
next
  note V' = vol_store [OF assms(1,3), of a' m'] and k = vol_ops_keeps [OF assms(1)]
  case (6 d g e h)
  show ?case unfolding world_rep_eq world_ops_sel
    by (rule hoare_conseq [OF on_vol_other [OF block_store.flush [OF V'] k(4) assms(5,4) assms(6) [symmetric]]]) auto
qed

interpretation demo_pair: store_pair "world_ops bk_env 0" "world_rep bk_env objs_of CNone small_bodies m 2 0" "s3_adm bk_env CNone small_bodies"
    "world_ops bk_env 1" "world_rep bk_env objs_of CNone small_bodies m' 2 1" "s3_adm bk_env CNone small_bodies" for m m'
  by (rule world_pair [OF bk_laws small_inj small_inj]) simp_all

section \<open>Copying a volume\<close>

lemma bind_reads_post:
  assumes "reads m" and "E s" and "\<And>a. fst (m s) = Ok a \<Longrightarrow> post Q E (f a s)" and "fst (m s) \<noteq> Panic"
  shows "post Q E (bind_op m f s)"
proof -
  obtain r where "m s = (r, s)" using assms(1) unfolding reads_def by (metis prod.collapse)
  then show ?thesis using assms(2-4) by (cases r) (simp_all add: bind_op_def)
qed

lemma get_no_panic: "fst (get_volume sel st) \<noteq> Panic" "fst (get_store vol st) \<noteq> Panic"
  by (simp_all add: get_volume_def get_store_def of_sum_def split: sum.splits)

lemma addresses_fun: "addresses st sel i \<Longrightarrow> addresses st sel j \<Longrightarrow> i = j"
  by (simp add: addresses_def)


definition written_world :: "bucket admin_state" where
  "written_world = snd (on_vol 0 (bs_write_at (vol_ops bk_env) 1 [1, 2, 3]) demo_world)"

lemma demo_spread: "spread 2 demo_world"
  by (auto simp: spread_def separated_def demo_world_def demo_handle_def wc_build_def cached_new_def apart_def less_Suc_eq numeral_2_eq_2)

lemma written_world_rep:
  "spread 2 written_world"
  "vol_rep bk_env objs_of CNone small_bodies WMemory (disk_write (\<lambda>_. 0) 1 [1, 2, 3]) demo_geom (store_at 0 written_world)"
  "vol_rep bk_env objs_of CNone small_bodies WMemory (\<lambda>_. 0) demo_geom (store_at 1 written_world)"
proof -
  let ?m = "bs_write_at (vol_ops bk_env) 1 [1, 2, 3 :: byte]"
  have adm: "adm_write (s3_adm bk_env CNone small_bodies) (g_chunk demo_geom) (\<lambda>_. 0) 1 [1, 2, 3]"
    using small_adm by (simp add: demo_geom_def)
  have "fst (on_vol 0 ?m demo_world) = Ok ()" by code_simp
  then have ok: "on_vol 0 ?m demo_world = (Ok (), written_world)" by (metis prod.collapse written_world_def)
  note w = block_store.write_at [OF vol_store [OF bk_laws small_inj, of CNone WMemory] adm]
  note k = vol_ops_keeps(2) [OF bk_laws]
  have "post (\<lambda>_ st. spread 2 st \<and> 1 + length [1, 2, 3 :: byte] \<le> g_cap demo_geom \<and>
        vol_rep bk_env objs_of CNone small_bodies WMemory (disk_write (\<lambda>_. 0) 1 [1, 2, 3]) demo_geom (store_at 0 st))
      (\<lambda>st. spread 2 st \<and> True) (on_vol 0 ?m demo_world)"
    by (rule hoare_post [OF on_vol_hoare [OF w k]]) (simp_all add: demo_spread demo_world_rep)
  then show "spread 2 written_world"
    "vol_rep bk_env objs_of CNone small_bodies WMemory (disk_write (\<lambda>_. 0) 1 [1, 2, 3]) demo_geom (store_at 0 written_world)"
    unfolding ok post_simps by blast+
  have "post (\<lambda>_ st. spread 2 st \<and> vol_rep bk_env objs_of CNone small_bodies WMemory (\<lambda>_. 0) demo_geom (store_at 1 st))
      (\<lambda>st. spread 2 st \<and> vol_rep bk_env objs_of CNone small_bodies WMemory (\<lambda>_. 0) demo_geom (store_at 1 st)) (on_vol 0 ?m demo_world)"
    by (rule hoare_post [OF on_vol_other [OF w k]]) (use demo_spread demo_world_rep in simp_all)
  then show "vol_rep bk_env objs_of CNone small_bodies WMemory (\<lambda>_. 0) demo_geom (store_at 1 written_world)"
    unfolding ok post_simps by blast
qed


section \<open>Requests that fail\<close>

lemma locked_present: "\<not> is_ok (fst (bs_present_chunks (vol_ops E) (wc_lock_io (s3_ops E) w)))"
  by (simp add: vol_ops_def wc_present_chunks_def bind_op_def on_winner_def cached_present_chunks_def wc_lock_io_def cached_lock_io_def
      guard_op_def ensure_unlocked_def Let_def)

lemma bind_is_ok: "is_ok (fst (bind_op m f s)) \<longleftrightarrow> (\<exists>a s'. m s = (Ok a, s') \<and> is_ok (fst (f a s')))"
  by (auto simp: bind_op_def split: prod.splits result.splits)

lemma str_err_is_ok: "is_ok (fst (str_err f m s)) \<longleftrightarrow> is_ok (fst (m s))"
  by (auto simp: str_err_def split: prod.splits result.splits)

lemma locked_wipe: "\<not> is_ok (fst (wipe_volume (vol_ops E) (wc_lock_io (s3_ops E) w)))"
proof
  assume "is_ok (fst (wipe_volume (vol_ops E) (wc_lock_io (s3_ops E) w)))"
  then have "is_ok (fst (str_err (\<lambda>e. ''list chunks: '' @ e) (bs_present_chunks (vol_ops E)) (wc_lock_io (s3_ops E) w)))"
    unfolding wipe_volume_def bind_is_ok by (metis fst_conv is_ok.simps(1))
  then show False using locked_present [of E w] by (simp add: str_err_is_ok)
qed

lemma wipe_not_ok: "\<not> is_ok (fst (volume_wipe E selector st))"
proof
  assume "is_ok (fst (volume_wipe E selector st))"
  then obtain vol s1 i s2 u s3 u' s4 x s5 where g: "get_store vol s1 = (Ok i, s2)"
    and d: "str_err (\<lambda>e. ''discard write cache: '' @ e) (on_vol i discard_dirty) s2 = (Ok u, s3)"
    and l: "upd_vol i (wc_lock_io (s3_ops E)) s3 = (Ok u', s4)"
    and "then_unlock i (bind_op (on_vol i (wipe_volume (vol_ops E))) (\<lambda>wiped.
          bind_op (str_err id (on_vol i (on_store (at_conf (wipe_objects_and_snapshots E))))) (\<lambda>(objects, snapshots).
            ret_op (wiped, objects, snapshots)))) s4 = (Ok x, s5)"
    unfolding volume_wipe_def bind_is_ok by (elim exE conjE) (rule that)
  then have "is_ok (fst (on_vol i (wipe_volume (vol_ops E)) s4))"
    by (auto simp: then_unlock_def bind_op_def split: prod.splits result.splits)
  then have "is_ok (fst (wipe_volume (vol_ops E) (store_at i s4)))" by (simp add: on_vol_def split: prod.splits)
  moreover have "i < length (ad_volumes s3)"
    using get_store_less [of vol s1 i] get_store_state [OF g] g d
    by (auto simp: str_err_def on_vol_def check_in_def split: prod.splits result.splits)
  then have "store_at i s4 = wc_lock_io (s3_ops E) (store_at i s3)"
    using l store_at_in by (auto simp: upd_vol_def on_vol_def)
  ultimately show False using locked_wipe by metis
qed

text \<open>
  C28: No \<open>volume.wipe\<close> request can succeed: the handler locks the volume before it lists the chunks, and
  listing a locked volume is an error, whatever the volume, the bucket and the request.
\<close>

theorem wipe_never_succeeds: "\<not> is_ok (fst (volume_wipe E selector st))"
  by (rule wipe_not_ok)

definition plain_request :: "string \<Rightarrow> admin_request" where
  "plain_request op' =
     \<lparr>rq_op = op', rq_max_bytes = None, rq_volume = Some ''a'', rq_to = None, rq_size = None, rq_capacity = None,
      rq_id = Some ''missing'', rq_name = None, rq_force = False, rq_resume_from = None\<rparr>"

definition read_a :: "bucket admin_state \<Rightarrow> bytes result" where
  "read_a st = fst (on_vol 0 (bs_read_at (vol_ops bk_env) 0 4) st)"

lemma check_in_twice: "check_in i w (check_in i w' st) = check_in i w st"
  by (cases "i < length (ad_volumes st)") (simp_all add: check_in_def list_update_beyond)

lemma locked_wipe_state: "\<exists>e. wipe_volume (vol_ops E) (wc_lock_io (s3_ops E) w) = (Err e, wc_lock_io (s3_ops E) w)"
  by (simp add: wipe_volume_def str_err_def vol_ops_def wc_present_chunks_def bind_op_def on_winner_def cached_present_chunks_def
      wc_lock_io_def cached_lock_io_def guard_op_def ensure_unlocked_def Let_def)

lemma wipe_state:
  assumes "get_volume sel st = (Ok vol, st)" and "get_store vol st = (Ok i, st)" and "on_vol i discard_dirty st = (Ok u, s1)"
  shows "snd (volume_wipe E sel st) = snd (upd_vol i wc_unlock_io (snd (upd_vol i (wc_lock_io (s3_ops E)) s1)))"
proof -
  let ?L = "wc_lock_io (s3_ops E) (store_at i s1)"
  have "i < length (ad_volumes st)" using assms(2) by (intro get_store_less [of vol]) simp
  then have "store_at i (check_in i ?L s1) = ?L"
    using assms(3) by (intro store_at_in) (auto simp: on_vol_def check_in_def split: prod.splits)
  then show ?thesis
    using assms locked_wipe_state [of E "store_at i s1"]
    by (auto simp: volume_wipe_def bind_op_def str_err_def then_unlock_def upd_vol_def on_vol_def check_in_twice)
qed

lemma wiped_world:
  "snd (volume_wipe bk_env (Some ''a'') written_world) =
   snd (upd_vol 0 wc_unlock_io (snd (upd_vol 0 (wc_lock_io (s3_ops bk_env)) (snd (on_vol 0 discard_dirty written_world)))))"
proof (rule wipe_state)
  have "fst (get_volume (Some ''a'') written_world) = Ok (demo_summary ''a'' ''v'')" by code_simp
  then show "get_volume (Some ''a'') written_world = (Ok (demo_summary ''a'' ''v''), written_world)"
    using get_volume_state by (metis prod.collapse)
  have "fst (get_store (demo_summary ''a'' ''v'') written_world) = Ok 0" by code_simp
  then show "get_store (demo_summary ''a'' ''v'') written_world = (Ok 0, written_world)"
    using get_store_state by (metis prod.collapse)
  have "fst (on_vol 0 discard_dirty written_world) = Ok ()" by code_simp
  then show "on_vol 0 discard_dirty written_world = (Ok (), snd (on_vol 0 discard_dirty written_world))"
    by (metis prod.collapse)
qed


end
