(* ===== verification/LiveBuffer.thy ===== *)
theory LiveBuffer
  imports WriteCacheProps Frame
begin

text \<open>
  Does a write through the write buffer return? \<open>evict_into_buffer\<close> of \<open>src/write_cache.rs\<close> loops until the
  dirty chunks fit the budget and waits for the worker when the buffer is full. While the worker runs and
  the store below accepts writes, every pass makes progress and the number of passes is bounded by the
  chunks waiting. A worker left paused by a failed flush makes the loop endless.
\<close>

section \<open>The buffer\<close>

definition sizes :: "(nat \<times> buffered_chunk) list \<Rightarrow> nat" where
  "sizes cs = sum_list (map (\<lambda>x. length (bc_data (snd x))) cs)"

definition buffer_ok :: "buf_state \<Rightarrow> bool" where
  "buffer_ok st \<longleftrightarrow>
     bu_inflight st = None \<and> distinct (map fst (bu_chunks st)) \<and> set (bu_order st) = fst ` set (bu_chunks st) \<and>
     bu_used st \<le> sizes (bu_chunks st)"

lemma sizes_delete: "distinct (map fst cs) \<Longrightarrow> map_of cs k = Some c \<Longrightarrow> sizes (AList.delete k cs) + length (bc_data c) = sizes cs"
proof (induction cs)
  case (Cons x cs)
  then show ?case
    by (cases x; cases "fst x = k") (auto simp: sizes_def delete_id)
qed simp

lemma length_delete: "distinct (map fst cs) \<Longrightarrow> map_of cs k = Some c \<Longrightarrow> Suc (length (AList.delete k cs)) = length cs"
proof (induction cs)
  case (Cons x cs)
  then show ?case by (cases x; cases "fst x = k") (auto simp: delete_id)
qed simp

lemma update_new: "k \<notin> fst ` set xs \<Longrightarrow> AList.update k v xs = xs @ [(k, v)]"
  by (induction xs) auto

lemma buffer_ok_new: "buffer_ok buf_new"
  by (simp add: buffer_ok_def buf_new_def sizes_def)

lemma buffer_ok_push:
  assumes "buffer_ok st" and "map_of (bu_chunks st) idx = None"
  shows "buffer_ok (buf_push idx x gen st)" "length (bu_chunks (buf_push idx x gen st)) = Suc (length (bu_chunks st))"
proof -
  have n: "idx \<notin> fst ` set (bu_chunks st)" using assms(2) by (simp add: map_of_eq_None_iff)
  then show "buffer_ok (buf_push idx x gen st)" "length (bu_chunks (buf_push idx x gen st)) = Suc (length (bu_chunks st))"
    using assms by (auto simp: buffer_ok_def buf_push_def Let_def update_new sizes_def sat_add_def)
qed

lemma buffer_ok_remove:
  assumes "buffer_ok st" and "map_of (bu_chunks st) idx = Some c"
  shows "buffer_ok (buf_remove idx st)" "Suc (length (bu_chunks (buf_remove idx st))) = length (bu_chunks st)"
proof -
  have d: "distinct (map fst (bu_chunks st))" using assms(1) by (simp add: buffer_ok_def)
  have "sizes (AList.delete idx (bu_chunks st)) + length (bc_data c) = sizes (bu_chunks st)" using sizes_delete [OF d assms(2)] .
  then show "buffer_ok (buf_remove idx st)"
    using assms by (auto simp: buffer_ok_def buf_remove_def distinct_delete set_delete)
  show "Suc (length (bu_chunks (buf_remove idx st))) = length (bu_chunks st)"
    using assms(2) length_delete [OF d assms(2)] by (simp add: buf_remove_def)
qed

section \<open>Progress\<close>

text \<open>The chunks that still have to pass: a dirty one is first moved, then written.\<close>

definition pending :: "'s wcore \<Rightarrow> nat" where
  "pending w = 2 * length (ds_chunks (wc_dirty w)) + (case wc_buffer w of None \<Rightarrow> 0 | Some b \<Rightarrow> length (bu_chunks (br_state b)))"

definition running :: "('s \<Rightarrow> bool) \<Rightarrow> nat \<Rightarrow> 's wcore \<Rightarrow> bool" where
  "running I room w \<longleftrightarrow>
     I (wc_inner w) \<and> \<not> ct_pause (wc_ctl w) \<and> distinct (map fst (ds_chunks (wc_dirty w))) \<and>
     (\<forall>x \<in> set (ds_chunks (wc_dirty w)). length (dc_data (snd x)) \<le> room) \<and>
     (\<exists>b. wc_buffer w = Some b \<and> br_max b = room \<and> buffer_ok (br_state b))"

lemma dirty_remove_some:
  "map_of (ds_chunks d) idx = Some e \<Longrightarrow>
    dirty_remove idx d = (Some (dc_data e), d\<lparr>ds_chunks := AList.delete idx (ds_chunks d), ds_used := ds_used d - length (dc_data e)\<rparr>)"
  by (simp add: dirty_remove_def)

lemma oldest_in: "oldest d = Some idx \<Longrightarrow> idx \<in> fst ` set (ds_chunks d)"
  by (force simp: oldest_def dest!: min_by_in)

lemma oldest_quiet_in: "oldest_quiet now d = Some idx \<Longrightarrow> idx \<in> fst ` set (ds_chunks d)"
  by (force simp: oldest_quiet_def dest!: min_by_in)

lemma move_progress:
  assumes "running I room w" and "wc_buffer w = Some b" and "idx \<in> fst ` set (ds_chunks (wc_dirty w))"
  shows "case move_to_buffer idx w b of (moved, w') \<Rightarrow>
     running I room w' \<and> (if moved then pending w' < pending w else w' = w \<and> bu_chunks (br_state b) \<noteq> [])"
proof -
  let ?d = "wc_dirty w" and ?st = "br_state b"
  have d: "distinct (map fst (ds_chunks ?d))" and ok: "buffer_ok ?st" and room: "br_max b = room"
    using assms(1,2) by (auto simp: running_def)
  obtain e where e: "map_of (ds_chunks ?d) idx = Some e" and "(idx, e) \<in> set (ds_chunks ?d)"
    using assms(3) d by auto
  then have size: "length (dc_data e) \<le> room" using assms(1) by (auto simp: running_def)
  show ?thesis
  proof (cases "map_of (bu_chunks ?st) idx \<noteq> None \<or> sat_add (bu_used ?st) (length (dc_data e)) > room")
    case True
    have "bu_chunks ?st \<noteq> []"
    proof
      assume "bu_chunks ?st = []"
      then have "bu_used ?st = 0" "map_of (bu_chunks ?st) idx = None" using ok by (simp_all add: buffer_ok_def sizes_def)
      with True size show False by (simp add: sat_add_def)
    qed
    then show ?thesis using True assms(1) ok room by (auto simp: move_to_buffer_def Let_def e buffer_ok_def)
  next
    case False
    let ?w = "buf_update (buf_push idx (dc_data e) (dc_tick e)) (w\<lparr>wc_dirty := snd (dirty_remove idx ?d)\<rparr>)"
    have mv: "move_to_buffer idx w b = (True, ?w)"
      using False ok room by (auto simp: move_to_buffer_def Let_def e dirty_remove_some buffer_ok_def)
    have p: "buffer_ok (buf_push idx (dc_data e) (dc_tick e) ?st)"
      "length (bu_chunks (buf_push idx (dc_data e) (dc_tick e) ?st)) = Suc (length (bu_chunks ?st))"
      using buffer_ok_push [OF ok] False by simp_all
    have "length (ds_chunks ?d) = Suc (length (AList.delete idx (ds_chunks ?d)))"
      using length_delete [OF d e] by simp
    then have "pending ?w < pending w"
      using p(2) by (simp add: pending_def dirty_remove_some [OF e] assms(2) buf_update_def)
    moreover have "running I room ?w"
      using assms(1,2) p(1) room by (auto simp: running_def dirty_remove_some [OF e] buf_update_def distinct_delete set_delete)
    ultimately show ?thesis by (simp add: mv)
  qed
qed

lemma remove_file_ctl: "wc_remove_file idx w = (r, w') \<Longrightarrow> wc_ctl w' = wc_ctl w"
  by (auto simp: wc_remove_file_def on_fs_def split: option.splits prod.splits)

lemma running_cong:
  assumes "running I room w" and "wc_inner w' = wc_inner w" and "wc_dirty w' = wc_dirty w" and "wc_buffer w' = wc_buffer w"
    and "ct_pause (wc_ctl w') = ct_pause (wc_ctl w)"
  shows "running I room w'" "pending w' = pending w"
  using assms by (simp_all add: running_def pending_def)

lemma finish_progress:
  assumes "running I room w" and "wc_buffer w = Some b" and "map_of (bu_chunks (br_state b)) idx = Some c"
    and "\<And>i x s. I s \<Longrightarrow> \<exists>s'. write_inner B i x s = (Ok (), s') \<and> I s'"
    and "w1 = buf_update (\<lambda>st. st\<lparr>bu_inflight := Some idx\<rparr>) w"
  shows "running I room (snd (finish_put B \<lparr>jb_idx = idx, jb_data = bc_data c, jb_generation = bc_generation c\<rparr> w1)) \<and>
    pending (snd (finish_put B \<lparr>jb_idx = idx, jb_data = bc_data c, jb_generation = bc_generation c\<rparr> w1)) < pending w"
proof -
  let ?j = "\<lparr>jb_idx = idx, jb_data = bc_data c, jb_generation = bc_generation c\<rparr>" and ?st = "br_state b"
  have ok: "buffer_ok ?st" using assms(1,2) by (auto simp: running_def)
  obtain s' where wr: "write_inner B idx (bc_data c) (wc_inner w) = (Ok (), s')" and I: "I s'"
    using assms(1) assms(4) [of "wc_inner w" idx "bc_data c"] by (auto simp: running_def)
  let ?w2 = "w\<lparr>wc_inner := s', wc_buffer := Some (b\<lparr>br_state := buf_remove idx ?st\<rparr>)\<rparr>"
  have rm: "bu_inflight ?st = None" "?st\<lparr>bu_inflight := None\<rparr> = ?st"
    using ok by (cases ?st; simp add: buffer_ok_def)+
  have w2: "running I room ?w2" "pending ?w2 < pending w"
    using assms(1,2) I buffer_ok_remove [OF ok assms(3)] by (auto simp: running_def pending_def)
  have "snd (finish_put B ?j w1) = ?w2 \<or> snd (finish_put B ?j w1) = snd (wc_remove_file idx ?w2)"
    using assms(2,3)
    by (auto simp: rm finish_put_def finish_books_def on_winner_def assms(5) wr buf_update_def drop_inflight_def Let_def split: prod.splits result.splits)
  moreover obtain r w3 where f: "wc_remove_file idx ?w2 = (r, w3)" by fastforce
  moreover have "running I room w3" "pending w3 = pending ?w2"
    using running_cong [OF w2(1), of w3] remove_file_frame [OF f] remove_file_ctl [OF f] by simp_all
  ultimately show ?thesis using w2 by auto
qed

lemma worker_progress:
  assumes "running I room w" and "wc_buffer w = Some b" and "bu_chunks (br_state b) \<noteq> []" and "\<not> ct_stop (wc_ctl w)"
    and "\<And>i x s. I s \<Longrightarrow> \<exists>s'. write_inner B i x s = (Ok (), s') \<and> I s'"
  shows "running I room (worker_round B w) \<and> pending (worker_round B w) < pending w"
proof -
  let ?st = "br_state b" let ?w0 = "w\<lparr>wc_ctl := (wc_ctl w)\<lparr>ct_parked := False\<rparr>\<rparr>"
  have ok: "buffer_ok ?st" and p: "\<not> ct_pause (wc_ctl w)" using assms(1,2) by (auto simp: running_def)
  have "set (bu_order ?st) \<noteq> {}" using ok assms(3) by (simp add: buffer_ok_def)
  then obtain idx rest where o: "bu_order ?st = idx # rest" by (cases "bu_order ?st") auto
  then have "idx \<in> fst ` set (bu_chunks ?st)" using ok by (auto simp: buffer_ok_def)
  then obtain c where c: "map_of (bu_chunks ?st) idx = Some c" by (metis map_of_eq_None_iff not_None_eq)
  have r: "running I room ?w0" "pending ?w0 = pending w" "wc_buffer ?w0 = Some b"
    using running_cong [OF assms(1), of ?w0] assms(2) by simp_all
  have "worker_round B w = snd (finish_put B \<lparr>jb_idx = idx, jb_data = bc_data c, jb_generation = bc_generation c\<rparr>
      (buf_update (\<lambda>st. st\<lparr>bu_inflight := Some idx\<rparr>) ?w0))"
    using assms(2,4) p o c ok by (simp add: worker_round_def next_job_def buffer_ok_def Let_def)
  then show ?thesis using finish_progress [OF r(1,3) c assms(5) refl] r(2) by simp
qed

lemma evict_returns:
  assumes "running I room w" and "\<And>i x s. I s \<Longrightarrow> \<exists>s'. write_inner B i x s = (Ok (), s') \<and> I s'" and "pending w < fuel"
  shows "evict_buffer_loop B fuel w \<noteq> None"
  using assms(1,3)
proof (induction fuel arbitrary: w)
  case (Suc fuel)
  obtain b where b: "wc_buffer w = Some b" using Suc.prems by (auto simp: running_def)
  show ?case
  proof (cases "evict_pass b w")
    case None
    then show ?thesis by (simp add: b)
  next
    case (Some q)
    then obtain idx where i: "oldest (wc_dirty w) = Some idx" and q: "q = move_to_buffer idx w b"
      by (auto simp: evict_pass_def split: if_splits option.splits)
    obtain moved w1 where m: "move_to_buffer idx w b = (moved, w1)" by fastforce
    note pr = move_progress [OF Suc.prems(1) b oldest_in [OF i], unfolded m, simplified]
    show ?thesis
    proof (cases moved)
      case True
      then show ?thesis using Suc.IH [of w1] pr Suc.prems(2) by (simp add: b Some q m)
    next
      case False
      then have w1: "w1 = w" "bu_chunks (br_state b) \<noteq> []" using pr by auto
      then have "evict_buffer_loop B fuel (worker_round B w) \<noteq> None" if "\<not> ct_stop (wc_ctl w)"
        using worker_progress [OF Suc.prems(1) b w1(2) that assms(2)] Suc.IH [of "worker_round B w"] Suc.prems(2) by simp
      then show ?thesis using False w1(1) by (simp add: b Some q m)
    qed
  qed
qed simp

section \<open>A write\<close>

lemma rep_running:
  assumes "wc_rep_at m (Some b) Rep adm d g w" and "I (wc_inner w)" and "\<not> ct_pause (wc_ctl w)" and "buffer_ok (br_state b)"
    and "g_chunk g \<le> br_max b"
  shows "running I (br_max b) w"
proof -
  have keys: "distinct (map fst (ds_chunks (wc_dirty w)))" using assms(1) by (simp add: wc_rep_at_def wc_rep_def wc_keys_ok_def)
  have "length (dc_data e) \<le> br_max b" if "(idx, e) \<in> set (ds_chunks (wc_dirty w))" for idx e
  proof -
    have "wc_lookup w idx = Some (dc_data e)" using that keys by (simp add: wc_lookup_def dirty_get_def)
    then have "dc_data e = disk_read d (idx * g_chunk g) (g_chunk g)" using assms(1) by (auto simp: wc_rep_at_def wc_rep_def overlay_def)
    then show ?thesis using assms(5) by simp
  qed
  then show ?thesis using assms keys by (auto simp: running_def wc_rep_at_def)
qed

lemma store_pieces_calm:
  assumes "\<And>off n s. I s \<Longrightarrow> I (snd (bs_read_at B off n s))" and "wc_store_pieces B off x w = (r, w1)" and "I (wc_inner w)"
  shows "I (wc_inner w1)" "wc_ctl w1 = wc_ctl w"
proof -
  let ?K = "\<lambda>s s'. I s \<longrightarrow> I s'"
  have "keeps ?K (bs_read_at B off n)" for off n
    using assms(1) by (intro keepsI r_into_rtranclp) (metis snd_conv)
  then have "framed_reads B ?K" by unfold_locales
  then have "?K\<^sup>*\<^sup>* (wc_inner w) (wc_inner w1)"
    using assms(2) by (intro keeps_innerD [OF framed_reads.store_pieces_keeps])
  then have "?K (wc_inner w) (wc_inner w1)" by (induction rule: rtranclp_induct) auto
  then show "I (wc_inner w1)" using assms(3) by simp
  let ?C = "\<lambda>w w' :: 'a wcore. wc_ctl w' = wc_ctl w"
  have l: "keeps ?C (load_for_write B idx)" "keeps ?C (wc_persist idx y)" for idx y
    by (auto simp: keeps_def load_for_write_def on_winner_def wc_persist_def on_fs_def split: option.splits prod.splits)
  have i: "keeps ?C (\<lambda>w. (q w, w\<lparr>wc_dirty := f w\<rparr>))" for q :: "'a wcore \<Rightarrow> unit result" and f
    by (auto simp: keeps_def)
  have "keeps ?C (wc_store_pieces B off x)"
    unfolding wc_store_pieces_def [abs_def] wc_store_piece_def Let_def by (intro capture_plain l i keeps_intro)
  then have "?C\<^sup>*\<^sup>* w w1" using assms(2) by (rule keepsD)
  then show "wc_ctl w1 = wc_ctl w" by (induction rule: rtranclp_induct) auto
qed


context reliable_block_store
begin

lemma write_inner_ok:
  assumes "Rep d g s" and "\<And>x. adm x"
  shows "\<exists>d' s'. write_inner B idx x s = (Ok (), s') \<and> Rep d' g s'"
proof (cases "sat_mul idx (g_chunk g) < g_cap g")
  case True
  let ?off = "sat_mul idx (g_chunk g)" let ?x = "take (min (g_cap g - ?off) (length x)) x"
  have fit: "?off + length ?x \<le> g_cap g" using True by simp
  have adm: "adm_write adm (g_chunk g) d ?off ?x" using assms(2) by (simp add: adm_write_def)
  have "post (\<lambda>_ _. True) (\<lambda>_. False) (bs_write_at B ?off ?x s)" using hoare_post [OF write_ok [OF fit adm] assms(1)] .
  moreover have "post (\<lambda>_ s'. Rep (disk_write d ?off ?x) g s') (\<lambda>_. True) (bs_write_at B ?off ?x s)"
    using hoare_post [OF write_at [OF adm] assms(1)] by (rule post_mono) simp_all
  ultimately obtain s' where "bs_write_at B ?off ?x s = (Ok (), s')" "Rep (disk_write d ?off ?x) g s'"
    by (auto simp: post_def split: prod.splits result.splits)
  then show ?thesis using True geom [OF assms(1)] by (auto simp: write_inner_def Let_def)
qed (use assms(1) geom [OF assms(1)] in \<open>auto simp: write_inner_def Let_def\<close>)

lemma read_stays: "Rep d g s \<Longrightarrow> Rep d g (snd (bs_read_at B off n s))"
  using read_at [of d g off n]
  by (cases "bs_read_at B off n s"; cases "fst (bs_read_at B off n s)") (auto simp: hoare_def dest!: spec [of _ s])

end

definition narrow_cache :: "memory_store wcore" where
  "narrow_cache = wc_build \<lparr>m_capacity = 12, m_chunks = [], m_block_size = 2, m_chunk_size = 4\<rparr>
     \<lparr>wcc_mode = WMemory, wcc_max_bytes = 4, wcc_path = None\<rparr> 4 0 None \<lparr>fs_files = [], fs_faults = []\<rparr> dirty_new"


section \<open>A stalled worker\<close>

definition blocked :: "buffer_rt \<Rightarrow> 's wcore \<Rightarrow> bool" where
  "blocked b w \<longleftrightarrow>
     wc_cache_max w < ds_used (wc_dirty w) \<and>
     (case oldest (wc_dirty w) of
        None \<Rightarrow> False
      | Some idx \<Rightarrow>
          (case map_of (ds_chunks (wc_dirty w)) idx of
             None \<Rightarrow> False
           | Some e \<Rightarrow> br_max b < sat_add (bu_used (br_state b)) (length (dc_data e))))"

lemma blocked_pass: "blocked b w \<Longrightarrow> evict_pass b w = Some (False, w)"
  by (auto simp: blocked_def evict_pass_def move_to_buffer_def Let_def split: option.splits)

lemma paused_never_returns:
  "wc_buffer w = Some b \<Longrightarrow> blocked b w \<Longrightarrow> ct_pause (wc_ctl w) \<Longrightarrow> \<not> ct_stop (wc_ctl w) \<Longrightarrow> evict_buffer_loop B fuel w = None"
proof (induction fuel arbitrary: w)
  case (Suc fuel)
  have "evict_buffer_loop B fuel (worker_round B w) = None"
    using Suc.prems by (intro Suc.IH) (auto simp: worker_round_def blocked_def split: option.splits)
  then show ?case using Suc.prems blocked_pass [OF Suc.prems(2)] by simp
qed simp

definition stall_base :: "bucket volume_store" where
  "stall_base = wc_build (cached_new \<lparr>st_conf = (demo_conf Legacy)\<lparr>s3_capacity := 12\<rparr>, st_svc = \<lparr>bk_objs = [], bk_script = [Fine, Fine, Lost]\<rparr>\<rparr>
       (cache_new 64) ''vol'')
     \<lparr>wcc_mode = WMemory, wcc_max_bytes = 4, wcc_path = None\<rparr> 4 0 None \<lparr>fs_files = [], fs_faults = []\<rparr> dirty_new"

abbreviation stack :: "bucket s3_store cached_store store_ops" where
  "stack \<equiv> cached_ops (s3_ops bk_env)"

definition stall_write :: "nat \<Rightarrow> nat \<Rightarrow> bytes \<Rightarrow> bucket volume_store \<Rightarrow> bucket volume_store" where
  "stall_write fuel off x w = (case wc_write_at stack fuel off x w of Some (_, w') \<Rightarrow> w' | None \<Rightarrow> w)"

definition stall_acked :: "bucket volume_store" where
  "stall_acked = stall_write 3 0 [1, 2, 3, 4] stall_base"

definition stalled :: "bucket volume_store" where
  "stalled = stall_write 3 4 [5, 6, 7, 8] (stall_write 3 0 [1, 2, 3, 4] (snd (wc_flush stack stall_acked)))"

text \<open>
  C27: One failed flush can hang a volume for good. The flush pauses the worker and returns its error
  without resuming it. Later writes are acknowledged as long as they fit the cache and the buffer; the
  first one that has to wait for the worker never returns, whatever time passes, although the bucket
  answers again.
\<close>

theorem failed_flush_hangs_writes:
  "fst (wc_flush stack stall_acked) = Err timed_out \<and>
   map_option fst (wc_write_at stack 3 0 [1, 2, 3, 4] (snd (wc_flush stack stall_acked))) = Some (Ok ()) \<and>
   fst (wc_read_at stack 0 8 stalled) = Ok [1, 2, 3, 4, 5, 6, 7, 8] \<and>
   (\<forall>fuel. wc_write_at stack fuel 8 [9, 9, 9, 9] stalled = None)"
proof (intro conjI allI)
  let ?p = "wc_store_pieces stack 8 [9, 9, 9, 9] (begin_write stalled)"
  have "fst ?p = Ok () \<and> wc_mode stalled \<noteq> WNone \<and> wc_cache_max (snd ?p) \<noteq> 0 \<and> wc_buffer (snd ?p) \<noteq> None \<and>
      blocked (the (wc_buffer (snd ?p))) (snd ?p) \<and> ct_pause (wc_ctl (snd ?p)) \<and> \<not> ct_stop (wc_ctl (snd ?p))"
    by code_simp
  then obtain w1 b where p: "?p = (Ok (), w1)" "wc_mode stalled \<noteq> WNone" "wc_cache_max w1 \<noteq> 0" "wc_buffer w1 = Some b"
      "blocked b w1" "ct_pause (wc_ctl w1)" "\<not> ct_stop (wc_ctl w1)"
    by (metis option.collapse prod.collapse)
  show "wc_write_at stack fuel 8 [9, 9, 9, 9] stalled = None" for fuel
    using p paused_never_returns [OF p(4-7), of stack fuel] by (simp add: wc_write_at_def evict_into_buffer_def)
qed code_simp+

end
