(* ===== verification/Mirror.thy ===== *)
theory Mirror
  imports Volume MemoryStore
begin

text \<open>
  A volume behaves like the in-memory store. \<open>MemoryStore\<close> (\<open>src/store/memory.rs\<close>) is the reference
  implementation of the \<open>BlockStore\<close> trait; the stack of write cache, read cache and S3 store answers
  every acknowledged sequence of requests with the same bytes.
\<close>

datatype request = Read nat nat | Write nat bytes | Trim nat | Sync

fun serve :: "('s, 'm) store_ops_scheme \<Rightarrow> request \<Rightarrow> ('s, bytes) op" where
  "serve B (Read off n) = bs_read_at B off n"
| "serve B (Write off x) = bind_op (bs_write_at B off x) (\<lambda>_. ret_op [])"
| "serve B (Trim idx) = bind_op (bs_delete_chunk B idx) (\<lambda>_. ret_op [])"
| "serve B Sync = bind_op (bs_flush B) (\<lambda>_. ret_op [])"

fun serve_all :: "('s, 'm) store_ops_scheme \<Rightarrow> request list \<Rightarrow> ('s, bytes list) op" where
  "serve_all B [] = ret_op []"
| "serve_all B (r # rs) = bind_op (serve B r) (\<lambda>x. bind_op (serve_all B rs) (\<lambda>xs. ret_op (x # xs)))"

section \<open>What the requests mean\<close>

fun disk_after :: "nat \<Rightarrow> (nat \<Rightarrow> byte) \<Rightarrow> request \<Rightarrow> nat \<Rightarrow> byte" where
  "disk_after cs d (Write off x) = disk_write d off x"
| "disk_after cs d (Trim idx) = clear_chunk cs d idx"
| "disk_after cs d _ = d"

fun answer_of :: "(nat \<Rightarrow> byte) \<Rightarrow> request \<Rightarrow> bytes" where
  "answer_of d (Read off n) = disk_read d off n"
| "answer_of d _ = []"

fun allowed :: "(bytes \<Rightarrow> bool) \<Rightarrow> nat \<Rightarrow> (nat \<Rightarrow> byte) \<Rightarrow> request \<Rightarrow> bool" where
  "allowed adm cs d (Write off x) = adm_write adm cs d off x"
| "allowed adm cs d (Trim idx) = (idx < 2 ^ 64)"
| "allowed adm cs d _ = True"

fun fits :: "nat \<Rightarrow> request \<Rightarrow> bool" where
  "fits cap (Read off n) = (off + n \<le> cap)"
| "fits cap (Write off x) = (off + length x \<le> cap)"
| "fits cap _ = True"

fun all_allowed :: "(bytes \<Rightarrow> bool) \<Rightarrow> nat \<Rightarrow> (nat \<Rightarrow> byte) \<Rightarrow> request list \<Rightarrow> bool" where
  "all_allowed adm cs d [] = True"
| "all_allowed adm cs d (r # rs) = (allowed adm cs d r \<and> all_allowed adm cs (disk_after cs d r) rs)"

lemma serve_unit: "bind_op m (\<lambda>_. ret_op []) s = (Ok x, s') \<longleftrightarrow> (\<exists>u. m s = (Ok u, s')) \<and> x = []"
  by (auto simp: bind_op_Ok ret_op_def)

context block_store
begin

lemma serve_exact:
  assumes "Rep d g s" and "allowed adm (g_chunk g) d r" and "serve B r s = (Ok x, s')"
  shows "x = answer_of d r \<and> fits (g_cap g) r \<and> Rep (disk_after (g_chunk g) d r) g s'"
proof (cases r)
  case (Read off n)
  then show ?thesis using assms hoare_post [OF read_at assms(1), of off n] by simp
next
  case (Write off y)
  then show ?thesis using assms hoare_post [OF write_at assms(1), of off y] by (auto simp: serve_unit)
next
  case (Trim idx)
  then show ?thesis using assms hoare_post [OF delete assms(1), of idx] by (auto simp: serve_unit)
next
  case Sync
  then show ?thesis using assms hoare_post [OF flush assms(1)] by (auto simp: serve_unit)
qed

end

context reliable_block_store
begin

lemma serve_ok:
  assumes "Rep d g s" and "allowed adm (g_chunk g) d r" and "fits (g_cap g) r"
  shows "\<exists>s'. serve B r s = (Ok (answer_of d r), s') \<and> Rep (disk_after (g_chunk g) d r) g s'"
proof -
  have "\<exists>x s'. serve B r s = (Ok x, s')"
  proof (cases r)
    case (Read off n)
    then show ?thesis using assms hoare_post [OF read_ok assms(1), of off n] by (auto simp: post_def split: prod.splits result.splits)
  next
    case (Write off y)
    then show ?thesis using assms hoare_post [OF write_ok assms(1), of off y]
      by (auto simp: post_def serve_unit split: prod.splits result.splits)
  next
    case (Trim idx)
    then show ?thesis using assms hoare_post [OF delete_ok assms(1), of idx]
      by (auto simp: post_def serve_unit split: prod.splits result.splits)
  next
    case Sync
    then show ?thesis using assms hoare_post [OF flush_ok assms(1)]
      by (auto simp: post_def serve_unit split: prod.splits result.splits)
  qed
  then obtain x s' where s: "serve B r s = (Ok x, s')" by blast
  then show ?thesis using serve_exact [OF assms(1,2) s] by simp
qed

end

section \<open>Mirroring\<close>

locale mirrored = impl: block_store B Rep adm + ref: reliable_block_store B' Rep' "\<lambda>_. True"
  for B :: "('s, 'm) store_ops_scheme" and Rep adm and B' :: "('t, 'n) store_ops_scheme" and Rep'
begin

lemma mirror:
  "\<lbrakk>Rep d g s; Rep' d g t; all_allowed adm (g_chunk g) d rs; serve_all B rs s = (Ok xs, s')\<rbrakk> \<Longrightarrow>
    \<exists>t'. serve_all B' rs t = (Ok xs, t')"
proof (induction rs arbitrary: d s t xs)
  case Nil
  then show ?case by (simp add: ret_op_def)
next
  case (Cons r rs)
  from Cons.prems(4) obtain x s1 ys where r: "serve B r s = (Ok x, s1)" and rs: "serve_all B rs s1 = (Ok ys, s')" and xs: "xs = x # ys"
    by (auto simp: bind_op_Ok ret_op_def)
  have a: "allowed adm (g_chunk g) d r" using Cons.prems(3) by simp
  note e = impl.serve_exact [OF Cons.prems(1) a r]
  have a': "allowed (\<lambda>_. True) (g_chunk g) d r" using a by (cases r) (simp_all add: adm_write_def)
  obtain t1 where t: "serve B' r t = (Ok (answer_of d r), t1)" and rep: "Rep' (disk_after (g_chunk g) d r) g t1"
    using ref.serve_ok [OF Cons.prems(2) a'] e by blast
  obtain t' where "serve_all B' rs t1 = (Ok ys, t')"
    using Cons.IH [of "disk_after (g_chunk g) d r" s1 t1 ys] e rep Cons.prems(3) rs by auto
  then show ?case using t e xs by (simp add: bind_op_def ret_op_def)
qed

end

interpretation vol_mirror: mirrored "vol_ops bk_env" "vol_rep bk_env objs_of CNone small_bodies m" "s3_adm bk_env CNone small_bodies"
  memory_ops memory_rep for m
  by (intro mirrored.intro vol_store [OF bk_laws small_inj] mem.reliable_block_store_axioms)

text \<open>
  C5: A volume is observationally equal to the in-memory store. Whenever the stack of write cache, read
  cache and S3 store acknowledges a whole sequence of reads, writes, chunk deletions and flushes, the
  in-memory store, started on the same disk, acknowledges it too and returns the same bytes to every read.
\<close>

theorem volume_equals_memory:
  assumes "s3_laws E objs" and "inj_on (e_blake3 E) U" and "vol_rep E objs a U m d g w" and "memory_rep d g t"
    and "all_allowed (s3_adm E a U) (g_chunk g) d rs" and "serve_all (vol_ops E) rs w = (Ok xs, w')"
  shows "\<exists>t'. serve_all memory_ops rs t = (Ok xs, t')"
proof -
  have "mirrored (vol_ops E) (vol_rep E objs a U m) (s3_adm E a U) memory_ops memory_rep"
    by (intro mirrored.intro vol_store [OF assms(1,2)] mem.reliable_block_store_axioms)
  then show ?thesis using assms(3-6) by (rule mirrored.mirror)
qed

definition mirror_requests :: "request list" where
  "mirror_requests = [Write 1 [1, 2, 3, 4, 5, 6], Read 0 8, Sync, Trim 0, Write 2 [9], Read 0 8]"

theorem volume_equals_memory_witness:
  "fst (serve_all (vol_ops bk_env) mirror_requests demo_vol) = Ok [[], [0, 1, 2, 3, 4, 5, 6, 0], [], [], [], [0, 0, 9, 0, 4, 5, 6, 0]] \<and>
   fst (serve_all memory_ops mirror_requests \<lparr>m_capacity = 8, m_chunks = [], m_block_size = 2, m_chunk_size = 4\<rparr>) =
     fst (serve_all (vol_ops bk_env) mirror_requests demo_vol)"
proof -
  let ?t = "\<lparr>m_capacity = 8, m_chunks = [], m_block_size = 2, m_chunk_size = 4\<rparr>"
  have r: "fst (serve_all (vol_ops bk_env) mirror_requests demo_vol) = Ok [[], [0, 1, 2, 3, 4, 5, 6, 0], [], [], [], [0, 0, 9, 0, 4, 5, 6, 0]]"
    by code_simp
  then obtain w' where s: "serve_all (vol_ops bk_env) mirror_requests demo_vol = (Ok [[], [0, 1, 2, 3, 4, 5, 6, 0], [], [], [], [0, 0, 9, 0, 4, 5, 6, 0]], w')"
    by (metis prod.collapse)
  have t: "memory_rep (\<lambda>_. 0) demo_geom ?t"
    using memory_new_rep [of 8 2 4 ?t] by (simp add: memory_new_def demo_geom_def)
  have "all_allowed (s3_adm bk_env CNone small_bodies) (g_chunk demo_geom) (\<lambda>_. 0) mirror_requests"
    using small_adm by (simp add: mirror_requests_def demo_geom_def)
  from volume_equals_memory [OF bk_laws small_inj demo_vol_rep t this s] r show ?thesis by auto
qed

end
