(* ===== verification/Paging.thy ===== *)
theory Paging
  imports Instances
begin

text \<open>
  The paging loop of the listings in \<open>src/store/s3.rs\<close> (\<open>list_chunk_indices\<close>, \<open>list_keys\<close>, \<open>snapshot_list\<close>,
  \<open>list_prefix_stats\<close>) asks for pages until one is not truncated. The model bounds the pages by a budget;
  here the budget is shown to be harmless: a service that answers and whose truncated pages are not
  empty brings the loop to its end, with every key.
\<close>

lemma list_loop_ends:
  assumes pg: "pages_ok E objs pos listing" and L: "listing p (objs s) = L"
    and ans: "\<And>t s. I s \<Longrightarrow> \<exists>os tr nx. fst (e_list E p t s) = Done (ListOk os tr nx) \<and> (tr = Some True \<longrightarrow> os \<noteq> [])"
    and inv: "\<And>t s. I s \<Longrightarrow> I (snd (e_list E p t s))"
    and "I s" and "length L - pos t < n"
  shows "\<exists>os s'. list_loop E p n t acc s = (Ok os, s')"
  using L assms(5,6)
proof (induction n arbitrary: t acc s)
  case (Suc n)
  obtain os tr nx where r: "fst (e_list E p t s) = Done (ListOk os tr nx)" and ne: "tr = Some True \<Longrightarrow> os \<noteq> []"
    using ans [OF Suc.prems(2)] by blast
  obtain s' where e: "e_list E p t s = (Done (ListOk os tr nx), s')" using r by (metis prod.collapse)
  have same: "objs s' = objs s" using pg e unfolding pages_ok_def by (metis snd_conv)
  have I': "I s'" using inv [OF Suc.prems(2), of t] e by simp
  show ?case
  proof (cases "tr = Some True")
    case True
    obtain k t' where k: "map o_key os = map Some (take k (drop (pos t) L))" "pos t + k < length L" "nx = Some t'" "pos (Some t') = pos t + k"
      using pg r Suc.prems(1) True unfolding pages_ok_def by blast
    have "k \<noteq> 0" using k(1) ne [OF True] by (cases k) auto
    then have "length L - pos (Some t') < n" using Suc.prems(3) k(2,4) by simp
    then have "\<exists>os' s''. list_loop E p n (Some t') (acc @ os) s' = (Ok os', s'')"
      using Suc.IH [of s' "Some t'" "acc @ os"] same Suc.prems(1) I' by simp
    then show ?thesis using e True k(3) by simp
  next
    case False
    then show ?thesis using e by simp
  qed
qed simp

text \<open>
  C30: Listing a prefix ends and is complete: if the service answers every request and never sends an
  empty truncated page, there is a number of pages from which on the loop returns all keys under the
  prefix and nothing else, however the service cuts the listing into pages.
\<close>

theorem listing_completes:
  assumes "list_law E objs" and "I s"
    and "\<And>t s. I s \<Longrightarrow> \<exists>os tr nx. fst (e_list E p t s) = Done (ListOk os tr nx) \<and> (tr = Some True \<longrightarrow> os \<noteq> [])"
    and "\<And>t s. I s \<Longrightarrow> I (snd (e_list E p t s))"
  shows "\<exists>N. \<forall>n \<ge> N. \<exists>os s'. list_loop E p n None [] s = (Ok os, s') \<and>
    Some -` (o_key ` set os) = {k. objs s k \<noteq> None \<and> is_prefix p k}"
proof -
  obtain pos listing where pg: "pages_ok E objs pos listing" using assms(1) by (auto simp: list_law_def)
  let ?L = "listing p (objs s)"
  have keys: "set ?L = {k. objs s k \<noteq> None \<and> is_prefix p k}" and pos: "pos None = 0" using pg by (auto simp: pages_ok_def)
  have "\<exists>os s'. list_loop E p n None [] s = (Ok os, s') \<and> Some -` (o_key ` set os) = set ?L" if n: "length ?L < n" for n
  proof -
    obtain os s' where l: "list_loop E p n None [] s = (Ok os, s')"
      using list_loop_ends [where I = I, OF pg refl assms(3,4,2), of None n "[]"] n pos by auto
    have page: "\<exists>n. map o_key os = map Some (take n (drop (pos t) ?L)) \<and> (tr = Some True \<longleftrightarrow> pos t + n < length ?L) \<and>
        (tr = Some True \<longrightarrow> (\<exists>t'. nx = Some t' \<and> pos (Some t') = pos t + n))"
      if "fst (e_list E p t x) = Done (ListOk os tr nx)" "objs x = objs s" for t x os tr nx
    proof -
      have "\<exists>n. map o_key os = map Some (take n (drop (pos t) (listing p (objs x)))) \<and> (tr = Some True \<longleftrightarrow> pos t + n < length (listing p (objs x))) \<and>
          (tr = Some True \<longrightarrow> (\<exists>t'. nx = Some t' \<and> pos (Some t') = pos t + n))"
        using pg that(1) unfolding pages_ok_def by blast
      then show ?thesis unfolding that(2) .
    qed
    have same: "objs (snd (e_list E p t x)) = objs x" for t x using pg by (simp add: pages_ok_def)
    have "hoare (\<lambda>x. objs x = objs s) (list_loop E p n None []) (\<lambda>os x. objs x = objs s \<and> map o_key os = map Some ?L) (\<lambda>x. objs x = objs s)"
      by (rule list_loop_hoare [where pos = pos]) (rule pos page same | assumption | simp add: pos)+
    then have "post (\<lambda>os x. objs x = objs s \<and> map o_key os = map Some ?L) (\<lambda>x. objs x = objs s) (list_loop E p n None [] s)"
      by (simp add: hoare_def)
    then have "map o_key os = map Some ?L" using l by simp
    then have "o_key ` set os = Some ` set ?L" by (metis list.set_map)
    then show ?thesis using l by auto
  qed
  then have "\<forall>n \<ge> Suc (length ?L). \<exists>os s'. list_loop E p n None [] s = (Ok os, s') \<and> Some -` (o_key ` set os) = set ?L"
    by (simp add: Suc_le_eq)
  then show ?thesis unfolding keys by blast
qed

definition paged_bucket :: bucket where
  "paged_bucket = \<lparr>bk_objs = [(''v/a'', []), (''w/b'', []), (''v/c'', []), (''v/d'', []), (''v/e'', []), (''v/f'', [])], bk_script = []\<rparr>"

theorem listing_completes_witness:
  "fst (list_loop bk_env ''v/'' 2 None [] paged_bucket) = Err timed_out \<and>
   (\<exists>n os s'. list_loop bk_env ''v/'' n None [] paged_bucket = (Ok os, s') \<and>
     Some -` (o_key ` set os) = {k. objs_of paged_bucket k \<noteq> None \<and> is_prefix ''v/'' k})"
proof -
  let ?I = "\<lambda>s :: bucket. bk_script s = [] \<and> bk_objs s = bk_objs paged_bucket"
  have e: "e_list bk_env ''v/'' t s = (Done (ListOk (map (\<lambda>k. \<lparr>o_key = Some k, o_size = Some 0\<rparr>) (take 2 (drop i keys)))
      (Some (i + 2 < length keys)) (Some (replicate (i + 2) CHR ''x''))), s)"
    if "?I s" "i = (case t of None \<Rightarrow> 0 | Some u \<Rightarrow> length u)" "keys = sort (remdups (filter (is_prefix ''v/'') (map fst (bk_objs s))))"
    for t s i keys
    using that by (simp add: bk_env_def bk_list_def next_fault_def Let_def)
  have "\<exists>N. \<forall>n \<ge> N. \<exists>os s'. list_loop bk_env ''v/'' n None [] paged_bucket = (Ok os, s') \<and>
      Some -` (o_key ` set os) = {k. objs_of paged_bucket k \<noteq> None \<and> is_prefix ''v/'' k}"
  proof (rule listing_completes [where I = ?I, OF bk_list_law])
    show "?I paged_bucket" by (simp add: paged_bucket_def)
    fix t s assume s: "?I s"
    show "?I (snd (e_list bk_env ''v/'' t s))" using s e [OF s refl refl, of t] by simp
    show "\<exists>os tr nx. fst (e_list bk_env ''v/'' t s) = Done (ListOk os tr nx) \<and> (tr = Some True \<longrightarrow> os \<noteq> [])"
      using e [OF s refl refl, of t] by auto
  qed
  then obtain N where "\<exists>os s'. list_loop bk_env ''v/'' N None [] paged_bucket = (Ok os, s') \<and>
      Some -` (o_key ` set os) = {k. objs_of paged_bucket k \<noteq> None \<and> is_prefix ''v/'' k}" by blast
  moreover have "fst (list_loop bk_env ''v/'' 2 None [] paged_bucket) = Err timed_out" by code_simp
  ultimately show ?thesis by blast
qed

end
