(* ===== verification/Spec2Isabelle.thy ===== *)
theory Spec2Isabelle
  imports Prelude BlockStore MemoryStore ChunkCache CachedStore Codec Compression Snapshot Identity
    S3Service S3Store S3Refine Bucket Instances S3Snapshot SnapshotRefine RestoreRefine CloneRefine GcRefine MigrateRefine SnapshotProps VolumeProps Metrics Perf Display Device WriteCache WriteCacheRefine FormatProps
    Config Volume WriteCacheProps WriteRecovery BulkOps Admin
    Frame Isolation AdminProps LiveBuffer Mirror Paging
begin

text \<open>
  Verification of \<open>iscsi-s3\<close>, an iSCSI target that keeps its volumes in S3 (the crate under \<open>src/\<close>).

  \<^bold>\<open>The program.\<close> An initiator's SCSI request reaches \<open>device.rs\<close>, which turns block addresses into byte
  ranges and calls the \<open>BlockStore\<close> trait of a volume. \<open>volume.rs\<close> composes a volume of three stores: the
  write-back cache (\<open>write_cache.rs\<close>) over the read cache (\<open>cache.rs\<close>, one pool for all volumes) over the
  S3 store (\<open>store/s3.rs\<close>), which cuts the disk into chunks and keeps them as objects, in a legacy layout
  or in a copy-on-write layout with snapshots. The control socket (\<open>admin.rs\<close>) inspects volumes, copies,
  wipes, grows, seeds and exports them, drives snapshots, garbage collection and migration, and reloads
  the configuration (\<open>config.rs\<close>). \<open>metrics.rs\<close> and \<open>perf.rs\<close> observe it all.

  \<^bold>\<open>Conventions.\<close> (\<open>Prelude\<close>) A fallible operation on a state \<open>'s\<close> is \<open>'s \<Rightarrow> 'a result \<times> 's\<close>; a result is \<open>Ok\<close>,
  \<open>Err\<close> with the error of the code, or \<open>Panic\<close>. \<open>hoare P m Q E\<close>: from a state in \<open>P\<close> the operation does not
  panic, \<open>Q\<close> holds after \<open>Ok\<close> and \<open>E\<close> after an error. \<open>u64\<close> values are natural numbers with the overflow
  behaviour of each Rust operator written out; bytes, and the hashes of \<open>identity.rs\<close>, are words.

  \<^bold>\<open>Theories and sources.\<close>
  \<^item> \<open>BlockStore\<close>: \<open>store/mod.rs\<close>. The trait is the record \<open>store_ops\<close>, its contract the locale \<open>block_store\<close>
    with the extensions \<open>torn_block_store\<close>, \<open>atomic_block_store\<close> and \<open>reliable_block_store\<close>. \<open>Display\<close>: its
    error messages.
  \<^item> \<open>MemoryStore\<close>: \<open>store/memory.rs\<close>. \<open>ChunkCache\<close>, \<open>CachedStore\<close>: \<open>cache.rs\<close>. \<open>WriteCache\<close>: \<open>write_cache.rs\<close>.
  \<^item> \<open>S3Service\<close>, \<open>S3Store\<close>, \<open>S3Snapshot\<close>: \<open>store/s3.rs\<close>, in this order the wrappers of the S3 client, the block
    store, and snapshots, cloning, collection, migration and opening.
  \<^item> \<open>Codec\<close>, \<open>Compression\<close>, \<open>Snapshot\<close>, \<open>Identity\<close>: number formats, \<open>compression.rs\<close> with \<open>storage_mode.rs\<close>,
    \<open>snapshot.rs\<close>, \<open>identity.rs\<close>.
  \<^item> \<open>Config\<close>, \<open>Volume\<close>, \<open>Device\<close>, \<open>Metrics\<close>, \<open>Perf\<close>: the source files of these names.
  \<^item> \<open>BulkOps\<close>, \<open>Admin\<close>: \<open>admin.rs\<close>, the routines over any block store and the requests. All volumes share
    one bucket and one pool there; a request runs on the shared state.
  \<^item> \<open>Bucket\<close>, \<open>Instances\<close>: a bucket in memory that satisfies the laws of the service, with scripted faults,
    and small volumes on it; the instances of the theorems and the interpretations use them.

  \<^bold>\<open>What is shown.\<close>
  \<^item> Disks. \<open>S3Refine\<close>, \<open>CachedStore\<close>, \<open>WriteCacheRefine\<close> and \<open>Volume\<close> prove that each layer implements the
    block-store contract if the layer beneath does, so reads return and writes change exactly their
    range of an abstract disk. \<open>Mirror\<close>: a volume answers like the in-memory store. \<open>Volume\<close> and
    \<open>WriteRecovery\<close>: a flush makes writes durable, and in disk mode they survive a crash.
  \<^item> Snapshots. \<open>SnapshotRefine\<close>, \<open>RestoreRefine\<close>, \<open>GcRefine\<close>, \<open>CloneRefine\<close> and \<open>MigrateRefine\<close> carry
    \<open>SnapshotProps\<close> and \<open>VolumeProps\<close>: a snapshot holds the live disk, survives writes and collection, and is
    what a restore or a clone gives back; migration keeps the disk.
  \<^item> Isolation. \<open>Frame\<close> proves for every operation that it changes only its own volume's part of the shared
    state, also when it fails (locales \<open>s3_bucket\<close>, \<open>framed_store\<close>); \<open>Isolation\<close> lifts this to all requests and
    all interleavings of requests and disk I/O (locale \<open>shared_bucket\<close>).
  \<^item> Administration. \<open>BulkOps\<close> and \<open>AdminProps\<close>: copying (locale \<open>store_pair\<close>), seeding and exporting, and
    requests whose failure has effects. \<open>Config\<close>: validation and authentication.
  \<^item> Progress. \<open>LiveBuffer\<close>: a write through the write buffer returns, and when it does not. \<open>Paging\<close>:
    listings end. \<open>WriteCacheProps\<close>: the budget of the write cache.
  \<^item> Formats, caches, observers. \<open>FormatProps\<close>, \<open>Identity\<close>, \<open>Metrics\<close>, \<open>Perf\<close>.
  Some theorems show a run in which the code loses data, hangs or panics; their text says so.

  \<^bold>\<open>Assumptions.\<close> The S3 service, BLAKE3, the compression libraries, the JSON encoders and the clock are fields
  of \<open>s3_env\<close>; \<open>s3_laws\<close> states their documented behaviour. Any request may time out, with or without
  effect. BLAKE3 is injective only on a set \<open>U\<close> of bodies named by each theorem.

  \<^bold>\<open>Bounds and fuel.\<close> A listing stops after \<open>e_page_budget\<close> pages with the time-out error of the code;
  \<open>Paging\<close> shows that from some number of pages on the budget is never reached. \<open>evict_into_buffer\<close> has fuel for
  its passes and gives \<open>None\<close> when it has not returned; \<open>LiveBuffer\<close> bounds the passes that are needed, and has
  the case where no fuel is enough. The compare-and-swap loop has the retry
  limit of the code. Trimming a string has its length as fuel. All other loops are structural.

  \<^bold>\<open>Not modelled.\<close> \<open>main.rs\<close> (start-up, signals, threads), the control client \<open>bin/iscsi-s3-ctl.rs\<close> and the
  sockets themselves, the vendored \<open>iscsi-target\<close> library, the HTTP scrape endpoint and text format of the
  metrics, the building of the AWS client, and log lines: they are I/O or calls into libraries. Each
  operation of a volume runs as one step, as its locks make it, except where a theorem interleaves them
  (the worker of the write buffer, a read during a flush). In \<open>vol_ops\<close> and the requests a volume has no
  write buffer.
\<close>

section \<open>The S3 store\<close>

text \<open>
  C1: A write that the S3 store acknowledges changes exactly its range of the disk that the objects
  of the bucket stand for, in both layouts, with any compression, over any number of chunks and any
  number of lost conditional puts. It is acknowledged only in range, and it never panics.
\<close>

theorem s3_write_exact:
  assumes "s3_laws E objs" and "inj_on (e_blake3 E) U" and "adm_write (s3_adm E a U) (g_chunk g) d off bs"
  shows "hoare (s3_rep E objs a U d g) (s3_write_at E off bs)
    (\<lambda>_ s. off + length bs \<le> g_cap g \<and> s3_rep E objs a U (disk_write d off bs) g s) (\<lambda>_. True)"
  using assms by (rule s3_write_hoare)

theorem s3_write_exact_witness:
  "s3_laws bk_env objs_of \<and> inj_on (e_blake3 bk_env) small_bodies \<and>
   adm_write (s3_adm bk_env CNone small_bodies) (g_chunk demo_geom) (\<lambda>_. 0) 3 [1, 2] \<and>
   s3_rep bk_env objs_of CNone small_bodies (\<lambda>_. 0) demo_geom (demo_store Cow) \<and>
   fst (s3_write_at bk_env 3 [1, 2] (demo_store Cow)) = Ok () \<and>
   post (\<lambda>_ s. 3 + length [1, 2 :: byte] \<le> g_cap demo_geom \<and>
       s3_rep bk_env objs_of CNone small_bodies (disk_write (\<lambda>_. 0) 3 [1, 2]) demo_geom s) (\<lambda>_. True)
     (s3_write_at bk_env 3 [1, 2] (demo_store Cow))"
proof (intro conjI)
  have adm: "adm_write (s3_adm bk_env CNone small_bodies) (g_chunk demo_geom) (\<lambda>_. 0) 3 [1, 2]"
    using small_adm by (simp add: demo_geom_def)
  then show "adm_write (s3_adm bk_env CNone small_bodies) (g_chunk demo_geom) (\<lambda>_. 0) 3 [1, 2]" .
  show "post (\<lambda>_ s. 3 + length [1, 2 :: byte] \<le> g_cap demo_geom \<and>
       s3_rep bk_env objs_of CNone small_bodies (disk_write (\<lambda>_. 0) 3 [1, 2]) demo_geom s) (\<lambda>_. True)
     (s3_write_at bk_env 3 [1, 2] (demo_store Cow))"
    by (rule hoare_post [OF s3_write_exact [OF bk_laws small_inj adm] demo_rep])
  show "fst (s3_write_at bk_env 3 [1, 2] (demo_store Cow)) = Ok ()"
    by code_simp
qed (rule bk_laws small_inj demo_rep)+

text \<open>
  C2: A read of the S3 store returns the bytes of the disk that the objects stand for, or an error,
  and changes nothing; missing chunks are zeros. It never panics.
\<close>

theorem s3_read_exact:
  assumes "s3_laws E objs"
  shows "hoare (s3_rep E objs a U d g) (s3_read_at E off n)
    (\<lambda>bs s. s3_rep E objs a U d g s \<and> off + n \<le> g_cap g \<and> bs = disk_read d off n) (s3_rep E objs a U d g)"
  using assms by (rule s3_read_hoare)

theorem s3_read_exact_witness:
  "s3_laws bk_env objs_of \<and>
   s3_rep bk_env objs_of CNone small_bodies (\<lambda>_. 0) demo_geom (demo_store Legacy) \<and>
   post (\<lambda>bs s. s3_rep bk_env objs_of CNone small_bodies (\<lambda>_. 0) demo_geom s \<and> 2 + 4 \<le> g_cap demo_geom \<and>
       bs = disk_read (\<lambda>_. 0) 2 4) (s3_rep bk_env objs_of CNone small_bodies (\<lambda>_. 0) demo_geom)
     (s3_read_at bk_env 2 4 (demo_store Legacy)) \<and>
   fst (s3_read_at bk_env 2 4 (demo_store Legacy)) = Ok [0, 0, 0, 0]"
proof (intro conjI)
  show "fst (s3_read_at bk_env 2 4 (demo_store Legacy)) = Ok [0, 0, 0, 0]"
    by code_simp
  show "post (\<lambda>bs s. s3_rep bk_env objs_of CNone small_bodies (\<lambda>_. 0) demo_geom s \<and> 2 + 4 \<le> g_cap demo_geom \<and>
       bs = disk_read (\<lambda>_. 0) 2 4) (s3_rep bk_env objs_of CNone small_bodies (\<lambda>_. 0) demo_geom)
     (s3_read_at bk_env 2 4 (demo_store Legacy))"
    by (rule hoare_post [OF s3_read_exact [OF bk_laws] demo_rep])
qed (rule bk_laws demo_rep)+

end
